(* ===== verification/Prelude.thy ===== *)
theory Prelude
  imports Main "HOL-Library.Word"
begin

text \<open>
  Shared vocabulary of the development.  A Rust \<open>String\<close> or \<open>&str\<close> is a HOL \<^typ>\<open>string\<close>
  holding its UTF-8 bytes.  Tests for an ASCII character read the bytes (an ASCII byte never occurs
  inside a multi-byte sequence); tests of a whole character, such as \<open>char::is_whitespace\<close>, go through
  \<open>utf8_chars\<close>.  A \<open>Vec<u8>\<close> is a list of 8-bit words.  A \<open>Result<T, E>\<close> is \<open>E + T\<close>.
  The theory also models the parts of the Rust standard library the client uses on strings and
  integers: \<open>str::parse\<close> and \<open>Display\<close> for integers, \<open>str::replace\<close>, \<open>str::starts_with\<close>,
  the characters of a string and \<open>trim\<close>, \<open>split_whitespace\<close>, \<open>str::split\<close>, big-endian byte conversion and saturating arithmetic.
\<close>

named_theorems pg_defs \<open>definitions unfolded by the component proofs\<close>
named_theorems inv_intros \<open>preservation lemmas of the component invariants\<close>

type_synonym byte = "8 word"
type_synonym bytes = "8 word list"
type_synonym ('e, 'a) res = "'e + 'a"

abbreviation Err :: "'e \<Rightarrow> ('e, 'a) res" where "Err \<equiv> Inl"
abbreviation Ok :: "'a \<Rightarrow> ('e, 'a) res" where "Ok \<equiv> Inr"

subsection \<open>Result\<close>

definition bind_res :: "('e, 'a) res \<Rightarrow> ('a \<Rightarrow> ('e, 'b) res) \<Rightarrow> ('e, 'b) res" where
  "bind_res r f = (case r of Inl e \<Rightarrow> Inl e | Inr a \<Rightarrow> f a)"

definition map_err :: "('e \<Rightarrow> 'f) \<Rightarrow> ('e, 'a) res \<Rightarrow> ('f, 'a) res" where
  "map_err g r = (case r of Inl e \<Rightarrow> Inl (g e) | Inr a \<Rightarrow> Inr a)"

lemma bind_res_simps [simp]:
  "bind_res (Inl e) f = Inl e" "bind_res (Inr a) f = f a"
  by (simp_all add: bind_res_def)

lemma map_err_simps [simp]:
  "map_err g (Inl e) = Inl (g e)" "map_err g (Inr a) = Inr a"
  by (simp_all add: map_err_def)

lemma map_err_Inr_iff [simp]: "map_err g r = Inr a \<longleftrightarrow> r = Inr a"
  by (cases r) simp_all

lemma bind_res_Inr_iff [simp]: "bind_res r f = Inr b \<longleftrightarrow> (\<exists>a. r = Inr a \<and> f a = Inr b)"
  by (cases r) simp_all

subsection \<open>Lists\<close>

lemma take_drop_append [simp]: "take n xs @ drop n xs @ ys = xs @ ys"
  by (simp flip: append_assoc)

lemma take_drop_split: "drop p xs = take c (drop p xs) @ drop (p + c) xs"
  by (metis add.commute append_take_drop_id drop_drop)

subsection \<open>Saturating and bounded machine integers\<close>

definition usize_max :: nat where "usize_max = 2 ^ 64 - 1"
definition u32_max :: nat where "u32_max = 2 ^ 32 - 1"
definition u64_max :: nat where "u64_max = 2 ^ 64 - 1"

definition saturating_add :: "nat \<Rightarrow> nat \<Rightarrow> nat \<Rightarrow> nat" where
  "saturating_add m a b = min (a + b) m"

definition saturating_mul :: "nat \<Rightarrow> nat \<Rightarrow> nat \<Rightarrow> nat" where
  "saturating_mul m a b = min (a * b) m"

definition saturating_pow :: "nat \<Rightarrow> nat \<Rightarrow> nat \<Rightarrow> nat" where
  "saturating_pow m b e = min (b ^ e) m"

lemma saturating_add_le [simp]: "saturating_add m a b \<le> m"
  by (simp add: saturating_add_def)

lemma saturating_add_exact: "a + b \<le> m \<Longrightarrow> saturating_add m a b = a + b"
  by (simp add: saturating_add_def)

lemma saturating_add_gt: "lim < m \<Longrightarrow> lim < saturating_add m a b \<longleftrightarrow> lim < a + b"
  by (auto simp: saturating_add_def)

subsection \<open>Association lists as insertion-ordered maps\<close>

text \<open>\<open>HashMap::insert\<close> on an association list with one entry per key.\<close>

fun amap_insert :: "'k \<Rightarrow> 'v \<Rightarrow> ('k \<times> 'v) list \<Rightarrow> ('k \<times> 'v) list" where
  "amap_insert k v [] = [(k, v)]"
| "amap_insert k v ((k', v') # m) =
     (if k = k' then (k, v) # m else (k', v') # amap_insert k v m)"

lemma map_of_amap_insert [simp]: "map_of (amap_insert k v m) = (map_of m)(k \<mapsto> v)"
  by (induction m) auto

lemma keys_amap_insert [simp]: "fst ` set (amap_insert k v m) = insert k (fst ` set m)"
  by (simp flip: dom_map_of_conv_image_fst)

lemma distinct_amap_insert: "distinct (map fst m) \<Longrightarrow> distinct (map fst (amap_insert k v m))"
proof (induction m)
  case (Cons p m)
  moreover have "fst p \<notin> fst ` set m" using Cons.prems by simp
  ultimately show ?case
    by (cases p) (use keys_amap_insert [of k v m] in auto)
qed simp

subsection \<open>Strings\<close>

definition starts_with :: "string \<Rightarrow> string \<Rightarrow> bool" where
  "starts_with s p = (take (length p) s = p)"

definition replace_char :: "char \<Rightarrow> string \<Rightarrow> string \<Rightarrow> string" where
  "replace_char c r s = concat (map (\<lambda>x. if x = c then r else [x]) s)"

lemma replace_char_simps [simp]:
  "replace_char c r [] = []"
  "replace_char c r (x # s) = (if x = c then r else [x]) @ replace_char c r s"
  by (simp_all add: replace_char_def)

lemma replace_char_id [simp]: "c \<notin> set s \<Longrightarrow> replace_char c r s = s"
  by (induction s) auto

lemma replace_char_append [simp]:
  "replace_char c r (s @ t) = replace_char c r s @ replace_char c r t"
  by (simp add: replace_char_def)

lemma starts_with_append [simp]: "starts_with (p @ s) p"
  by (simp add: starts_with_def)

lemma starts_with_iff: "starts_with s p \<longleftrightarrow> (\<exists>t. s = p @ t)"
proof
  assume "starts_with s p"
  then have "s = p @ drop (length p) s"
    unfolding starts_with_def by (metis append_take_drop_id)
  then show "\<exists>t. s = p @ t" ..
qed auto

text \<open>\<open>str::as_bytes\<close>, and back when the bytes are known to be text.\<close>

definition bytes_of :: "string \<Rightarrow> bytes" where
  "bytes_of s = map (\<lambda>c. of_nat (of_char c)) s"

definition string_of :: "bytes \<Rightarrow> string" where
  "string_of bs = map (\<lambda>b. char_of (unat b)) bs"

lemma of_char_less [simp]: "(of_char c :: nat) < 256"
  by (metis mod_less_divisor of_char_mod_256 zero_less_numeral)

lemma unat_of_char [simp]: "unat (of_nat (of_char c) :: byte) = of_char c"
  using of_char_less [of c] by (simp add: unat_of_nat)

lemma string_of_bytes_of [simp]: "string_of (bytes_of s) = s"
  by (simp add: string_of_def bytes_of_def comp_def)

text \<open>
  The characters of a string, each as the bytes of its UTF-8 encoding (\<open>str::chars\<close>): a character is a
  byte that does not continue one, with the continuation bytes after it.
\<close>

definition is_cont :: "char \<Rightarrow> bool" where
  "is_cont c = (128 \<le> (of_char c :: nat) \<and> (of_char c :: nat) < 192)"

fun utf8_chars :: "string \<Rightarrow> string list" where
  "utf8_chars [] = []"
| "utf8_chars (c # s) =
     (case utf8_chars s of
        [] \<Rightarrow> [[c]]
      | w # ws \<Rightarrow> if is_cont (hd s) then (c # w) # ws else [c] # w # ws)"

definition starts_char :: "string \<Rightarrow> bool" where
  "starts_char s = (s = [] \<or> \<not> is_cont (hd s))"

lemma starts_char_simps [simp]: "starts_char []" "starts_char (c # s) = (\<not> is_cont c)"
  by (simp_all add: starts_char_def)

lemma utf8_chars_eq_Nil [simp]: "utf8_chars s = [] \<longleftrightarrow> s = []"
  by (cases s) (auto split: list.splits)

lemma concat_utf8_chars [simp]: "concat (utf8_chars s) = s"
  by (induction s) (auto split: list.splits)

lemma utf8_chars_append: "starts_char s \<Longrightarrow> utf8_chars (w @ s) = utf8_chars w @ utf8_chars s"
proof (induction w)
  case (Cons c w)
  show ?case
  proof (cases w)
    case Nil
    then show ?thesis using Cons.prems by (cases s) (auto split: list.splits)
  next
    case (Cons d w')
    then show ?thesis using Cons.IH Cons.prems by (auto split: list.splits)
  qed
qed simp

lemma utf8_chars_Cons: "starts_char s \<Longrightarrow> utf8_chars (c # s) = [c] # utf8_chars s"
  using utf8_chars_append [of s "[c]"] by simp

lemma utf8_chars_plain: "\<forall>c\<in>set s. \<not> is_cont c \<Longrightarrow> utf8_chars s = map (\<lambda>c. [c]) s"
proof (induction s)
  case (Cons c s)
  then have "starts_char s" by (cases s) auto
  then show ?case using Cons by (simp add: utf8_chars_Cons del: utf8_chars.simps)
qed simp

text \<open>
  \<open>char::is_whitespace\<close>: the characters with the property \<open>White_Space\<close>, which are the ASCII blanks,
  U+0085, U+00A0, U+1680, U+2000 to U+200A, U+2028, U+2029, U+202F, U+205F and U+3000.
\<close>

definition is_ws :: "char \<Rightarrow> bool" where
  "is_ws c = (c = CHR '' '' \<or> c = CHR 0x09 \<or> c = CHR 0x0A \<or> c = CHR 0x0B \<or> c = CHR 0x0C \<or> c = CHR 0x0D)"

definition is_whitespace :: "string \<Rightarrow> bool" where
  "is_whitespace w = (case w of
      [c] \<Rightarrow> is_ws c
    | [b1, b2] \<Rightarrow> b1 = CHR 0xC2 \<and> (b2 = CHR 0x85 \<or> b2 = CHR 0xA0)
    | [b1, b2, b3] \<Rightarrow>
        (b1 = CHR 0xE1 \<and> b2 = CHR 0x9A \<and> b3 = CHR 0x80) \<or>
        (b1 = CHR 0xE2 \<and> b2 = CHR 0x80 \<and>
          ((128 \<le> (of_char b3 :: nat) \<and> (of_char b3 :: nat) \<le> 138) \<or> b3 = CHR 0xA8 \<or> b3 = CHR 0xA9 \<or> b3 = CHR 0xAF)) \<or>
        (b1 = CHR 0xE2 \<and> b2 = CHR 0x81 \<and> b3 = CHR 0x9F) \<or>
        (b1 = CHR 0xE3 \<and> b2 = CHR 0x80 \<and> b3 = CHR 0x80)
    | _ \<Rightarrow> False)"

lemma is_whitespace_single [simp]: "is_whitespace [c] = is_ws c"
  by (simp add: is_whitespace_def)

text \<open>\<open>trim\<close>, \<open>trim_end\<close> and \<open>split_whitespace\<close>, the last with an accumulator for the word being read.\<close>

definition trim_end :: "string \<Rightarrow> string" where
  "trim_end s = concat (rev (dropWhile is_whitespace (rev (utf8_chars s))))"

definition trim :: "string \<Rightarrow> string" where
  "trim s = concat (rev (dropWhile is_whitespace (rev (dropWhile is_whitespace (utf8_chars s)))))"

fun split_ws_aux :: "string \<Rightarrow> string list \<Rightarrow> string list" where
  "split_ws_aux acc [] = (if acc = [] then [] else [acc])"
| "split_ws_aux acc (w # s) =
     (if is_whitespace w then (if acc = [] then split_ws_aux [] s else acc # split_ws_aux [] s)
      else split_ws_aux (acc @ w) s)"

definition split_whitespace :: "string \<Rightarrow> string list" where
  "split_whitespace s = split_ws_aux [] (utf8_chars s)"

text \<open>A word of ASCII characters other than blanks.\<close>

definition plain_word :: "string \<Rightarrow> bool" where
  "plain_word w = (\<forall>c\<in>set w. \<not> is_ws c \<and> \<not> is_cont c)"

lemma plain_word_simps [simp]:
  "plain_word []" "plain_word (c # w) = (\<not> is_ws c \<and> \<not> is_cont c \<and> plain_word w)"
  by (simp_all add: plain_word_def)

lemma utf8_chars_word: "plain_word w \<Longrightarrow> utf8_chars w = map (\<lambda>c. [c]) w"
  by (intro utf8_chars_plain) (simp add: plain_word_def)

lemma split_ws_aux_word: "plain_word w \<Longrightarrow> split_ws_aux acc (map (\<lambda>c. [c]) w @ s) = split_ws_aux (acc @ w) s"
  by (induction w arbitrary: acc) auto

lemma split_whitespace_word_space:
  assumes "plain_word w" "w \<noteq> []" "is_ws d" "\<not> is_cont d" "starts_char s"
  shows "split_whitespace (w @ d # s) = w # split_whitespace s"
proof -
  have "utf8_chars (w @ d # s) = map (\<lambda>c. [c]) w @ [d] # utf8_chars s"
    using utf8_chars_append [of "d # s" w] utf8_chars_word [OF assms(1)] utf8_chars_Cons [OF assms(5)] assms(4)
    by (simp del: utf8_chars.simps)
  then show ?thesis using assms by (simp add: split_whitespace_def split_ws_aux_word)
qed

lemma split_whitespace_word:
  assumes "plain_word w" "w \<noteq> []"
  shows "split_whitespace w = [w]"
  using split_ws_aux_word [of w "[]" "[]"] assms by (simp add: split_whitespace_def utf8_chars_word)

lemma trim_word: "plain_word w \<Longrightarrow> trim w = w"
proof -
  assume w: "plain_word w"
  have d: "dropWhile is_whitespace (map (\<lambda>c. [c]) v) = map (\<lambda>c. [c]) v" if "plain_word v" for v
    using that by (cases v) auto
  have "plain_word (rev w)" using w by (simp add: plain_word_def)
  then show ?thesis using w d [of w] d [of "rev w"]
    by (simp add: trim_def utf8_chars_word rev_map concat_map_singleton flip: rev_map)
qed

text \<open>\<open>str::split\<close> at a character: always one more part than there are separators.\<close>

fun split_char :: "char \<Rightarrow> string \<Rightarrow> string list" where
  "split_char d [] = [[]]"
| "split_char d (c # s) =
     (if c = d then [] # split_char d s
      else (case split_char d s of [] \<Rightarrow> [[c]] | w # ws \<Rightarrow> (c # w) # ws))"

fun join :: "string \<Rightarrow> string list \<Rightarrow> string" where
  "join sep [] = []"
| "join sep [w] = w"
| "join sep (w # v # ws) = w @ sep @ join sep (v # ws)"

lemma split_char_nonempty [simp]: "split_char d s \<noteq> []"
  by (induction s) (auto split: list.splits)

lemma split_char_append:
  "d \<notin> set w \<Longrightarrow> split_char d (w @ d # s) = w # split_char d s"
  by (induction w) auto

lemma split_char_no_sep: "d \<notin> set w \<Longrightarrow> split_char d w = [w]"
  by (induction w) auto

lemma split_char_join:
  assumes "\<forall>w\<in>set ws. d \<notin> set w" "ws \<noteq> []"
  shows "split_char d (join [d] ws) = ws"
  using assms by (induction "[d]" ws rule: join.induct)
    (auto simp: split_char_append split_char_no_sep)

subsection \<open>Decimal integers: \<open>Display\<close> and \<open>FromStr\<close>\<close>

definition digit_val :: "char \<Rightarrow> nat option" where
  "digit_val c = (let n = of_char c in if 48 \<le> n \<and> n \<le> 57 then Some (n - 48) else None)"

definition digit_char :: "nat \<Rightarrow> char" where
  "digit_char d = char_of (d + 48)"

fun parse_digits :: "nat \<Rightarrow> string \<Rightarrow> nat option" where
  "parse_digits acc [] = Some acc"
| "parse_digits acc (c # cs) =
     (case digit_val c of None \<Rightarrow> None | Some d \<Rightarrow> parse_digits (10 * acc + d) cs)"

definition parse_uint :: "nat \<Rightarrow> string \<Rightarrow> nat option" where
  "parse_uint max_val s =
     (let t = (case s of c # r \<Rightarrow> if c = CHR ''+'' then r else s | [] \<Rightarrow> []) in
      if t = [] then None
      else (case parse_digits 0 t of None \<Rightarrow> None
            | Some n \<Rightarrow> if n \<le> max_val then Some n else None))"

definition parse_sint :: "int \<Rightarrow> int \<Rightarrow> string \<Rightarrow> int option" where
  "parse_sint lo hi s =
     (let (neg, t) = (case s of c # r \<Rightarrow> if c = CHR ''+'' then (False, r)
                                        else if c = CHR ''-'' then (True, r) else (False, s)
                              | [] \<Rightarrow> (False, [])) in
      if t = [] then None
      else (case parse_digits 0 t of None \<Rightarrow> None
            | Some n \<Rightarrow> (let v = (if neg then - int n else int n) in
                        if lo \<le> v \<and> v \<le> hi then Some v else None)))"

fun show_nat :: "nat \<Rightarrow> string" where
  "show_nat n = (if n < 10 then [digit_char n]
                 else show_nat (n div 10) @ [digit_char (n mod 10)])"

declare show_nat.simps [simp del]

definition show_int :: "int \<Rightarrow> string" where
  "show_int i = (if i < 0 then CHR ''-'' # show_nat (nat (- i)) else show_nat (nat i))"

lemma digit_val_char [simp]: "d < 10 \<Longrightarrow> digit_val (digit_char d) = Some d"
  by (simp add: digit_val_def digit_char_def)

lemma parse_digits_append:
  "parse_digits acc (s @ t) = Option.bind (parse_digits acc s) (\<lambda>a. parse_digits a t)"
  by (induction s arbitrary: acc) (auto split: option.splits)

lemma parse_digits_show_nat [simp]: "parse_digits 0 (show_nat n) = Some n"
proof (induction n rule: show_nat.induct)
  case (1 n)
  show ?case
  proof (cases "n < 10")
    case True
    then show ?thesis by (simp add: show_nat.simps [of n])
  next
    case False
    then show ?thesis using 1 by (simp add: show_nat.simps [of n] parse_digits_append)
  qed
qed

lemma show_nat_nonempty [simp]: "show_nat n \<noteq> []"
  by (subst show_nat.simps) simp

lemma digit_char_bounds: "d < 10 \<Longrightarrow> of_char (digit_char d) = 48 + d"
  by (simp add: digit_char_def)

lemma show_nat_digits: "c \<in> set (show_nat n) \<Longrightarrow> \<exists>d<10. c = digit_char d"
proof (induction n rule: show_nat.induct)
  case (1 n)
  then show ?case
    by (subst (asm) (2) show_nat.simps) (auto split: if_splits intro: exI [of _ "n mod 10"])
qed

lemma digit_char_neq:
  assumes "d < 10"
  shows "digit_char d \<noteq> CHR ''+''" "digit_char d \<noteq> CHR ''-''" "\<not> is_ws (digit_char d)" "\<not> is_cont (digit_char d)"
proof -
  have b: "of_char (digit_char d) = (48 + d :: nat)" using assms by (simp add: digit_char_bounds)
  show "digit_char d \<noteq> CHR ''+''" using b by auto
  show "digit_char d \<noteq> CHR ''-''" using b by auto
  show "\<not> is_ws (digit_char d)" using b by (auto simp: is_ws_def)
  show "\<not> is_cont (digit_char d)" using b assms by (simp add: is_cont_def)
qed

lemma show_nat_word: "plain_word (show_nat n)"
  using show_nat_digits digit_char_neq(3,4) unfolding plain_word_def by blast

lemma show_nat_starts [simp]: "starts_char (show_nat n)" "starts_char (show_nat n @ s)"
  using show_nat_word [of n] show_nat_nonempty [of n] by (cases "show_nat n"; simp)+

lemma show_nat_hd: "\<exists>d r. show_nat n = digit_char d # r \<and> d < 10"
  using show_nat_digits [of "hd (show_nat n)" n] show_nat_nonempty [of n]
  by (cases "show_nat n") auto

theorem parse_uint_show_nat [simp]: "n \<le> m \<Longrightarrow> parse_uint m (show_nat n) = Some n"
proof -
  assume "n \<le> m"
  moreover obtain d r where "show_nat n = digit_char d # r" "d < 10" using show_nat_hd by blast
  moreover have "parse_digits 0 (digit_char d # r) = Some n"
    using parse_digits_show_nat [of n] calculation(2) by simp
  ultimately show ?thesis by (simp add: parse_uint_def digit_char_neq)
qed

lemma parse_uint_bound: "parse_uint m s = Some n \<Longrightarrow> n \<le> m"
  by (auto simp: parse_uint_def Let_def split: if_splits option.splits list.splits)

theorem parse_sint_show_int [simp]:
  assumes "lo \<le> i" "i \<le> hi"
  shows "parse_sint lo hi (show_int i) = Some i"
proof (cases "i < 0")
  case True
  then show ?thesis using assms by (simp add: parse_sint_def show_int_def)
next
  case False
  obtain d r where s: "show_nat (nat i) = digit_char d # r" "d < 10" using show_nat_hd by blast
  have "parse_digits 0 (digit_char d # r) = Some (nat i)"
    using parse_digits_show_nat [of "nat i"] s(1) by simp
  then show ?thesis using assms False s by (simp add: parse_sint_def show_int_def digit_char_neq)
qed

lemma parse_sint_bound: "parse_sint lo hi s = Some v \<Longrightarrow> lo \<le> v \<and> v \<le> hi"
  by (auto simp: parse_sint_def Let_def split: if_splits option.splits list.splits prod.splits)

subsection \<open>Big-endian bytes\<close>

fun be_bytes :: "nat \<Rightarrow> nat \<Rightarrow> bytes" where
  "be_bytes 0 n = []"
| "be_bytes (Suc k) n = be_bytes k (n div 256) @ [of_nat (n mod 256)]"

definition from_be :: "bytes \<Rightarrow> nat" where
  "from_be bs = foldl (\<lambda>a b. a * 256 + unat b) 0 bs"

lemma length_be_bytes [simp]: "length (be_bytes k n) = k"
  by (induction k arbitrary: n) auto

lemma from_be_snoc [simp]: "from_be (bs @ [b]) = from_be bs * 256 + unat b"
  by (simp add: from_be_def)

lemma from_be_Nil [simp]: "from_be [] = 0"
  by (simp add: from_be_def)

lemma unat_of_nat_byte [simp]: "unat (of_nat (n mod 256) :: byte) = n mod 256"
  by (simp add: unat_of_nat)

theorem from_be_be_bytes [simp]: "from_be (be_bytes k n) = n mod 256 ^ k"
proof (induction k arbitrary: n)
  case (Suc k)
  then show ?case by (simp add: mod_mult2_eq mult.commute)
qed simp

text \<open>Two's complement of a signed integer on \<open>k\<close> bytes, and back.\<close>

definition be_sint :: "nat \<Rightarrow> int \<Rightarrow> bytes" where
  "be_sint k i = be_bytes k (nat (i mod 256 ^ k))"

definition from_be_sint :: "nat \<Rightarrow> bytes \<Rightarrow> int" where
  "from_be_sint k bs = (let n = int (from_be bs) in if 2 * n < 256 ^ k then n else n - 256 ^ k)"

lemma length_be_sint [simp]: "length (be_sint k i) = k"
  by (simp add: be_sint_def)

theorem from_be_sint_be_sint [simp]:
  assumes "- (256 ^ k) \<le> 2 * i" "2 * i < 256 ^ k"
  shows "from_be_sint k (be_sint k i) = i"
proof -
  let ?m = "256 ^ k :: int"
  have "nat (i mod ?m) mod 256 ^ k = nat (i mod ?m)"
    by (simp add: nat_mod_as_int)
  then have n: "int (from_be (be_sint k i)) = i mod ?m"
    by (simp add: be_sint_def)
  show ?thesis
  proof (cases "i < 0")
    case True
    then have "i mod ?m = i + ?m" using assms
      by (smt (verit) mod_pos_pos_trivial mod_add_self2)
    then show ?thesis using assms True by (simp add: from_be_sint_def n Let_def)
  next
    case False
    then have "i mod ?m = i" using assms by (intro mod_pos_pos_trivial) auto
    then show ?thesis using assms False by (simp add: from_be_sint_def n Let_def)
  qed
qed

end
