(* ===== verification/Pg_Error.thy ===== *)
theory Pg_Error
  imports Prelude
begin

text \<open>
  The error types of the client (\<open>error/mod.rs\<close>, \<open>error/server.rs\<close>, \<open>error/sqlstate.rs\<close>,
  \<open>transport/error.rs\<close>, \<open>protocol/error.rs\<close>, \<open>types/mod.rs\<close>, the \<open>AuthError\<close> of
  \<open>auth/mod.rs\<close>) and the classification of errors for retry and reconnection
  (\<open>reconnect/classify.rs\<close>).  Payloads that the client only prints (the text of a UTF-8 error or of
  a TLS error) are strings.
\<close>

subsection \<open>Error data\<close>

datatype io_error_kind =
    ConnectionReset | ConnectionAborted | BrokenPipe | UnexpectedEof | TimedOut
  | InvalidInput | InvalidData | OtherKind

record io_error =
  kind :: io_error_kind
  io_message :: string

datatype transport_error =
    TeConnectionRefused | TeConnectionReset | TeTimeout | TeDnsResolutionFailed string
  | TeTlsHandshake string | TeTlsNotSupported | TeUnexpectedEof | TeIo string
  | TeInvalidConfig string

datatype protocol_error =
    PrIo io_error | PrUnexpectedEof | PrUnknownMessageType nat | PrInvalidLength | PrUtf8 string
  | PrProtocolViolation string | PrBufferLimitExceeded nat nat | PrTypeError string

datatype type_error =
    UnsupportedType string | Conversion string | InvalidDataFormat string | Utf8Error string
  | ParseIntError string | ParseFloatError string | ParseBoolError string
  | ParseDateTimeError string | UnknownOid nat | UnsupportedEncoding string | PostgresTypes string

datatype pool_error_variant =
    PvExhausted | PvClosed | PvCreateFailed string | PvResetFailed string

datatype pool_error =
    Exhausted | Closed_pool | CreateFailed string | ResetFailed string

datatype auth_error =
    PasswordRequired | UnsupportedSaslMechanisms "string list" | AeScram string
  | InsecureAuthentication string | AeServerError string | UnexpectedMessage
  | AeProtocol protocol_error | AeTransport transport_error | AeIo io_error | AeUtf8 string

record server_error =
  severity :: string
  severity_v :: "string option"
  code :: string
  message :: string
  detail :: "string option"
  hint :: "string option"
  position :: "nat option"
  internal_position :: "nat option"
  internal_query :: "string option"
  where_ :: "string option"
  schema :: "string option"
  table :: "string option"
  column :: "string option"
  data_type :: "string option"
  "constraint" :: "string option"
  file_ :: "string option"
  line :: "nat option"
  routine :: "string option"

datatype pg_error =
    PgServer server_error | PgProtocol protocol_error | PgTransport transport_error
  | PgAuth string | PgTypeConversion type_error | PgConfig string | PgConnectionClosed
  | PgUnexpectedNull string | PgColumnNotFound string | PgColumnIndexOutOfBounds nat nat
  | PgTimeout | PgPool pool_error_variant | PgInvalidState string | PgUnsupported string
  | PgCancelled | PgIo io_error | PgTls string | PgOther string

subsection \<open>Server errors\<close>

definition default_server_error :: server_error where
  "default_server_error = \<lparr> severity = [], severity_v = None, code = [], message = [],
     detail = None, hint = None, position = None, internal_position = None,
     internal_query = None, where_ = None, schema = None, table = None, column = None,
     data_type = None, constraint = None, file_ = None, line = None, routine = None \<rparr>"

definition set_field :: "server_error \<Rightarrow> char \<times> string \<Rightarrow> server_error" where
  "set_field err f =
    (let (c, v) = f in
     if c = CHR ''S'' then err\<lparr>severity := v\<rparr>
     else if c = CHR ''V'' then err\<lparr>severity_v := Some v\<rparr>
     else if c = CHR ''C'' then err\<lparr>code := v\<rparr>
     else if c = CHR ''M'' then err\<lparr>message := v\<rparr>
     else if c = CHR ''D'' then err\<lparr>detail := Some v\<rparr>
     else if c = CHR ''H'' then err\<lparr>hint := Some v\<rparr>
     else if c = CHR ''P'' then err\<lparr>position := parse_uint u32_max v\<rparr>
     else if c = CHR ''p'' then err\<lparr>internal_position := parse_uint u32_max v\<rparr>
     else if c = CHR ''q'' then err\<lparr>internal_query := Some v\<rparr>
     else if c = CHR ''W'' then err\<lparr>where_ := Some v\<rparr>
     else if c = CHR ''s'' then err\<lparr>schema := Some v\<rparr>
     else if c = CHR ''t'' then err\<lparr>table := Some v\<rparr>
     else if c = CHR ''c'' then err\<lparr>column := Some v\<rparr>
     else if c = CHR ''d'' then err\<lparr>data_type := Some v\<rparr>
     else if c = CHR ''n'' then err\<lparr>constraint := Some v\<rparr>
     else if c = CHR ''F'' then err\<lparr>file_ := Some v\<rparr>
     else if c = CHR ''L'' then err\<lparr>line := parse_uint u32_max v\<rparr>
     else if c = CHR ''R'' then err\<lparr>routine := Some v\<rparr>
     else err)"

definition from_fields :: "(char \<times> string) list \<Rightarrow> server_error" where
  "from_fields fs = foldl set_field default_server_error fs"

text \<open>
  A wire body gives its fields one after the other and may fail while doing so; the fields are
  \<open>Inr (type, value bytes as text when they are UTF-8)\<close>, a failing iterator ends with \<open>Inl\<close>.
\<close>

type_synonym error_body = "(io_error + (char \<times> string option)) list"

fun error_body_fields :: "error_body \<Rightarrow> (io_error, (char \<times> string) list) res" where
  "error_body_fields [] = Ok []"
| "error_body_fields (Inl e # fs) = Err e"
| "error_body_fields (Inr (t, v) # fs) =
     bind_res (error_body_fields fs)
       (\<lambda>r. Ok ((t, case v of None \<Rightarrow> [] | Some s \<Rightarrow> s) # r))"

definition from_error_body :: "error_body \<Rightarrow> (io_error, server_error) res" where
  "from_error_body b = bind_res (error_body_fields b) (\<lambda>fs. Ok (from_fields fs))"

definition from_notice_body :: "error_body \<Rightarrow> (io_error, server_error) res" where
  "from_notice_body b = bind_res (error_body_fields b) (\<lambda>fs. Ok (from_fields fs))"

definition is_class :: "server_error \<Rightarrow> string \<Rightarrow> bool" where
  "is_class e c = starts_with (code e) c"

definition is_integrity_constraint_violation :: "server_error \<Rightarrow> bool" where
  "is_integrity_constraint_violation e = is_class e ''23''"
definition is_unique_violation :: "server_error \<Rightarrow> bool" where
  "is_unique_violation e = (code e = ''23505'')"
definition is_foreign_key_violation :: "server_error \<Rightarrow> bool" where
  "is_foreign_key_violation e = (code e = ''23503'')"
definition is_not_null_violation :: "server_error \<Rightarrow> bool" where
  "is_not_null_violation e = (code e = ''23502'')"
definition is_check_violation :: "server_error \<Rightarrow> bool" where
  "is_check_violation e = (code e = ''23514'')"
definition is_exclusion_violation :: "server_error \<Rightarrow> bool" where
  "is_exclusion_violation e = (code e = ''23P01'')"
definition is_syntax_error :: "server_error \<Rightarrow> bool" where
  "is_syntax_error e = is_class e ''42''"
definition is_insufficient_privilege :: "server_error \<Rightarrow> bool" where
  "is_insufficient_privilege e = (code e = ''42501'')"
definition is_undefined_table :: "server_error \<Rightarrow> bool" where
  "is_undefined_table e = (code e = ''42P01'')"
definition is_undefined_column :: "server_error \<Rightarrow> bool" where
  "is_undefined_column e = (code e = ''42703'')"
definition is_serialization_failure :: "server_error \<Rightarrow> bool" where
  "is_serialization_failure e = (code e = ''40001'')"
definition is_deadlock_detected :: "server_error \<Rightarrow> bool" where
  "is_deadlock_detected e = (code e = ''40P01'')"
definition is_connection_exception :: "server_error \<Rightarrow> bool" where
  "is_connection_exception e = is_class e ''08''"
definition is_connection_does_not_exist :: "server_error \<Rightarrow> bool" where
  "is_connection_does_not_exist e = (code e = ''08003'')"
definition is_connection_failure :: "server_error \<Rightarrow> bool" where
  "is_connection_failure e = (code e = ''08006'')"
definition is_sqlclient_unable_to_establish_sqlconnection :: "server_error \<Rightarrow> bool" where
  "is_sqlclient_unable_to_establish_sqlconnection e = (code e = ''08001'')"
definition is_query_canceled :: "server_error \<Rightarrow> bool" where
  "is_query_canceled e = (code e = ''57014'')"
definition is_admin_shutdown :: "server_error \<Rightarrow> bool" where
  "is_admin_shutdown e = (code e = ''57P01'')"
definition is_crash_shutdown :: "server_error \<Rightarrow> bool" where
  "is_crash_shutdown e = (code e = ''57P02'')"
definition is_cannot_connect_now :: "server_error \<Rightarrow> bool" where
  "is_cannot_connect_now e = (code e = ''57P03'')"
definition is_database_dropped :: "server_error \<Rightarrow> bool" where
  "is_database_dropped e = (code e = ''57P04'')"
definition is_idle_session_timeout :: "server_error \<Rightarrow> bool" where
  "is_idle_session_timeout e = (code e = ''57P05'')"
definition is_fatal :: "server_error \<Rightarrow> bool" where
  "is_fatal e = (severity e = ''FATAL'' \<or> severity e = ''PANIC'')"
definition is_warning_or_less :: "server_error \<Rightarrow> bool" where
  "is_warning_or_less e =
     (severity e \<in> set [''WARNING'', ''NOTICE'', ''DEBUG'', ''INFO'', ''LOG''])"

lemmas server_error_preds [pg_defs] =
  is_class_def is_integrity_constraint_violation_def is_unique_violation_def
  is_foreign_key_violation_def is_not_null_violation_def is_check_violation_def
  is_exclusion_violation_def is_syntax_error_def is_insufficient_privilege_def
  is_undefined_table_def is_undefined_column_def is_serialization_failure_def
  is_deadlock_detected_def is_connection_exception_def is_connection_does_not_exist_def
  is_connection_failure_def is_sqlclient_unable_to_establish_sqlconnection_def
  is_query_canceled_def is_admin_shutdown_def is_crash_shutdown_def is_cannot_connect_now_def
  is_database_dropped_def is_idle_session_timeout_def starts_with_def

subsection \<open>Display\<close>

definition nl :: string where "nl = [CHR 0x0A]"

definition show_server_error :: "server_error \<Rightarrow> string" where
  "show_server_error e =
     severity e @ '': '' @ message e @ '' (SQLSTATE '' @ code e @ '')'' @
     (case detail e of None \<Rightarrow> [] | Some d \<Rightarrow> nl @ ''DETAIL: '' @ d) @
     (case hint e of None \<Rightarrow> [] | Some h \<Rightarrow> nl @ ''HINT: '' @ h) @
     (case position e of None \<Rightarrow> [] | Some p \<Rightarrow> nl @ ''POSITION: '' @ show_nat p)"

fun show_transport_error :: "transport_error \<Rightarrow> string" where
  "show_transport_error TeConnectionRefused = ''connection refused''"
| "show_transport_error TeConnectionReset = ''connection reset by peer''"
| "show_transport_error TeTimeout = ''operation timed out''"
| "show_transport_error (TeDnsResolutionFailed host) = ''DNS resolution failed for host: '' @ host"
| "show_transport_error (TeTlsHandshake m) = ''TLS handshake failed: '' @ m"
| "show_transport_error TeTlsNotSupported = ''TLS not supported by server''"
| "show_transport_error TeUnexpectedEof = ''unexpected end of stream''"
| "show_transport_error (TeIo m) = ''I/O error: '' @ m"
| "show_transport_error (TeInvalidConfig m) = ''invalid configuration: '' @ m"

fun show_protocol_error :: "protocol_error \<Rightarrow> string" where
  "show_protocol_error (PrIo e) = ''io error: '' @ io_message e"
| "show_protocol_error PrUnexpectedEof = ''unexpected EOF''"
| "show_protocol_error (PrUnknownMessageType t) = ''unknown message type: '' @ show_nat t"
| "show_protocol_error PrInvalidLength = ''invalid message length''"
| "show_protocol_error (PrUtf8 m) = ''utf8 error: '' @ m"
| "show_protocol_error (PrProtocolViolation m) = ''protocol violation: '' @ m"
| "show_protocol_error (PrBufferLimitExceeded lim act) =
     ''buffered protocol data exceeded limit: '' @ show_nat act @ '' > '' @ show_nat lim @ '' bytes''"
| "show_protocol_error (PrTypeError m) = ''type error: '' @ m"

fun show_type_error :: "type_error \<Rightarrow> string" where
  "show_type_error (UnsupportedType m) = ''unsupported type: '' @ m"
| "show_type_error (Conversion m) = ''conversion error: '' @ m"
| "show_type_error (InvalidDataFormat m) = ''invalid data format: '' @ m"
| "show_type_error (Utf8Error m) = ''utf-8 error: '' @ m"
| "show_type_error (ParseIntError m) = ''parse int error: '' @ m"
| "show_type_error (ParseFloatError m) = ''parse float error: '' @ m"
| "show_type_error (ParseBoolError m) = ''parse bool error: '' @ m"
| "show_type_error (ParseDateTimeError m) = ''parse datetime error: '' @ m"
| "show_type_error (UnknownOid n) = ''unknown OID: '' @ show_nat n"
| "show_type_error (UnsupportedEncoding m) = ''unsupported encoding format for type: '' @ m"
| "show_type_error (PostgresTypes m) = ''postgres-types error: '' @ m"

fun show_pool_error_variant :: "pool_error_variant \<Rightarrow> string" where
  "show_pool_error_variant PvExhausted = ''connection pool exhausted''"
| "show_pool_error_variant PvClosed = ''connection pool is closed''"
| "show_pool_error_variant (PvCreateFailed m) = ''failed to create pool connection: '' @ m"
| "show_pool_error_variant (PvResetFailed m) = ''connection reset failed: '' @ m"

fun show_pg_error :: "pg_error \<Rightarrow> string" where
  "show_pg_error (PgServer e) = ''server error: '' @ show_server_error e"
| "show_pg_error (PgProtocol e) = ''protocol error: '' @ show_protocol_error e"
| "show_pg_error (PgTransport e) = ''transport error: '' @ show_transport_error e"
| "show_pg_error (PgAuth m) = ''authentication error: '' @ m"
| "show_pg_error (PgTypeConversion e) = ''type conversion error: '' @ show_type_error e"
| "show_pg_error (PgConfig m) = ''configuration error: '' @ m"
| "show_pg_error PgConnectionClosed = ''connection closed''"
| "show_pg_error (PgUnexpectedNull c) = ''unexpected NULL in column '' @ c"
| "show_pg_error (PgColumnNotFound n) = ''column not found: '' @ n"
| "show_pg_error (PgColumnIndexOutOfBounds i n) =
     ''column index '' @ show_nat i @ '' out of bounds (have '' @ show_nat n @ '' columns)''"
| "show_pg_error PgTimeout = ''operation timed out''"
| "show_pg_error (PgPool e) = ''pool error: '' @ show_pool_error_variant e"
| "show_pg_error (PgInvalidState m) = ''invalid connection state: '' @ m"
| "show_pg_error (PgUnsupported m) = ''unsupported: '' @ m"
| "show_pg_error PgCancelled = ''cancelled''"
| "show_pg_error (PgIo e) = ''I/O error: '' @ io_message e"
| "show_pg_error (PgTls m) = ''TLS error: '' @ m"
| "show_pg_error (PgOther m) = m"

definition context_error :: "pg_error \<Rightarrow> string \<Rightarrow> pg_error" where
  "context_error e msg = PgOther (msg @ '': '' @ show_pg_error e)"

subsection \<open>Classification\<close>

fun te_is_connection_broken :: "transport_error \<Rightarrow> bool" where
  "te_is_connection_broken TeConnectionReset = True"
| "te_is_connection_broken TeUnexpectedEof = True"
| "te_is_connection_broken TeConnectionRefused = True"
| "te_is_connection_broken _ = False"

fun te_is_transient :: "transport_error \<Rightarrow> bool" where
  "te_is_transient TeTimeout = True"
| "te_is_transient (TeDnsResolutionFailed _) = True"
| "te_is_transient _ = False"

fun is_connection_broken :: "pg_error \<Rightarrow> bool" where
  "is_connection_broken PgConnectionClosed = True"
| "is_connection_broken (PgTransport TeConnectionReset) = True"
| "is_connection_broken (PgTransport TeUnexpectedEof) = True"
| "is_connection_broken (PgTransport TeConnectionRefused) = True"
| "is_connection_broken (PgServer e) =
     (is_connection_exception e \<or> is_admin_shutdown e \<or> is_crash_shutdown e)"
| "is_connection_broken (PgIo e) =
     (kind e \<in> set [ConnectionReset, ConnectionAborted, BrokenPipe, UnexpectedEof])"
| "is_connection_broken _ = False"

fun is_retryable :: "pg_error \<Rightarrow> bool" where
  "is_retryable (PgServer e) = (is_serialization_failure e \<or> is_deadlock_detected e)"
| "is_retryable (PgTransport TeTimeout) = True"
| "is_retryable PgTimeout = True"
| "is_retryable _ = False"

fun pg_code :: "pg_error \<Rightarrow> string option" where
  "pg_code (PgServer e) = Some (code e)"
| "pg_code _ = None"

datatype error_class = Broken | Transient | Permanent

fun classify_error :: "pg_error \<Rightarrow> error_class" where
  "classify_error PgConnectionClosed = Broken"
| "classify_error (PgTransport TeConnectionReset) = Broken"
| "classify_error (PgTransport TeUnexpectedEof) = Broken"
| "classify_error (PgTransport TeConnectionRefused) = Broken"
| "classify_error (PgServer e) =
     (if is_serialization_failure e then Transient
      else if is_deadlock_detected e then Transient
      else if is_connection_exception e then Broken
      else if is_admin_shutdown e then Broken
      else if is_crash_shutdown e then Broken
      else Permanent)"
| "classify_error (PgTransport TeTimeout) = Transient"
| "classify_error PgTimeout = Transient"
| "classify_error (PgIo e) =
     (case kind e of
        ConnectionReset \<Rightarrow> Broken | ConnectionAborted \<Rightarrow> Broken
      | BrokenPipe \<Rightarrow> Broken | UnexpectedEof \<Rightarrow> Broken
      | TimedOut \<Rightarrow> Transient
      | _ \<Rightarrow> Permanent)"
| "classify_error _ = Permanent"

text \<open>
  \<open>{:?}\<close> on a vector of strings (ASCII: quotes, backslashes and control characters are escaped).
\<close>

definition hex_lower :: "nat \<Rightarrow> string" where
  "hex_lower n = (let d = (\<lambda>k. if k < 10 then char_of (k + 48) else char_of (k + 87)) in
     (if n < 16 then [d n] else [d (n div 16), d (n mod 16)]))"

definition debug_char :: "char \<Rightarrow> string" where
  "debug_char c =
     (let n = of_char c in
      if c = CHR 0x22 then [CHR 0x5C, CHR 0x22]
      else if c = CHR 0x5C then [CHR 0x5C, CHR 0x5C]
      else if n = 9 then CHR 0x5C # ''t'' else if n = 10 then CHR 0x5C # ''n''
      else if n = 13 then CHR 0x5C # ''r'' else if n = 0 then CHR 0x5C # ''0''
      else if n < 32 \<or> n = (127::nat) then CHR 0x5C # ''u{'' @ hex_lower n @ ''}''
      else [c])"

definition debug_strings :: "string list \<Rightarrow> string" where
  "debug_strings ms = ''['' @ join '', '' (map (\<lambda>m. [CHR 0x22] @ concat (map debug_char m) @ [CHR 0x22]) ms) @ '']''"

fun from_auth_error :: "auth_error \<Rightarrow> pg_error" where
  "from_auth_error PasswordRequired = PgAuth ''password required''"
| "from_auth_error (UnsupportedSaslMechanisms ms) =
     PgAuth (''unsupported SASL mechanisms: '' @ debug_strings ms)"
| "from_auth_error (AeScram m) = PgAuth (''SCRAM error: '' @ m)"
| "from_auth_error (InsecureAuthentication m) =
     PgAuth (''refusing '' @ m @ '' authentication over an unencrypted transport'')"
| "from_auth_error (AeServerError m) = PgOther m"
| "from_auth_error UnexpectedMessage = PgAuth ''unexpected message during authentication''"
| "from_auth_error (AeProtocol p) = PgProtocol p"
| "from_auth_error (AeTransport t) = PgTransport t"
| "from_auth_error (AeIo i) = PgIo i"
| "from_auth_error (AeUtf8 u) = PgOther u"

subsection \<open>SQLSTATE constants\<close>

definition class_of :: "string \<Rightarrow> string" where
  "class_of c = (if 2 \<le> length c then take 2 c else [])"

definition sqlstate_is_class :: "string \<Rightarrow> string \<Rightarrow> bool" where
  "sqlstate_is_class c cl = starts_with c cl"

definition sqlstate_classes :: "(string \<times> string) list" where
  "sqlstate_classes = [
    (''CLASS_SUCCESSFUL_COMPLETION'', ''00''), (''CLASS_WARNING'', ''01''),
    (''CLASS_NO_DATA'', ''02''), (''CLASS_SQL_STATEMENT_NOT_YET_COMPLETE'', ''03''),
    (''CLASS_CONNECTION_EXCEPTION'', ''08''), (''CLASS_TRIGGERED_ACTION_EXCEPTION'', ''09''),
    (''CLASS_FEATURE_NOT_SUPPORTED'', ''0A''), (''CLASS_INVALID_TRANSACTION_INITIATION'', ''0B''),
    (''CLASS_LOCATOR_EXCEPTION'', ''0F''), (''CLASS_INVALID_GRANTOR'', ''0L''),
    (''CLASS_INVALID_ROLE_SPECIFICATION'', ''0P''), (''CLASS_DIAGNOSTICS_EXCEPTION'', ''0Z''),
    (''CLASS_CASE_NOT_FOUND'', ''20''), (''CLASS_CARDINALITY_VIOLATION'', ''21''),
    (''CLASS_DATA_EXCEPTION'', ''22''), (''CLASS_INTEGRITY_CONSTRAINT_VIOLATION'', ''23''),
    (''CLASS_INVALID_CURSOR_STATE'', ''24''), (''CLASS_INVALID_TRANSACTION_STATE'', ''25''),
    (''CLASS_INVALID_SQL_STATEMENT_NAME'', ''26''),
    (''CLASS_TRIGGERED_DATA_CHANGE_VIOLATION'', ''27''),
    (''CLASS_INVALID_AUTHORIZATION_SPECIFICATION'', ''28''),
    (''CLASS_DEPENDENT_PRIVILEGE_DESCRIPTORS_STILL_EXIST'', ''2B''),
    (''CLASS_INVALID_TRANSACTION_TERMINATION'', ''2D''),
    (''CLASS_SQL_ROUTINE_EXCEPTION'', ''2F''), (''CLASS_INVALID_CURSOR_NAME'', ''34''),
    (''CLASS_EXTERNAL_ROUTINE_EXCEPTION'', ''38''),
    (''CLASS_EXTERNAL_ROUTINE_INVOCATION_EXCEPTION'', ''39''),
    (''CLASS_SAVEPOINT_EXCEPTION'', ''3B''), (''CLASS_INVALID_CATALOG_NAME'', ''3D''),
    (''CLASS_INVALID_SCHEMA_NAME'', ''3F''), (''CLASS_TRANSACTION_ROLLBACK'', ''40''),
    (''CLASS_SYNTAX_ERROR_OR_ACCESS_RULE_VIOLATION'', ''42''),
    (''CLASS_WITH_CHECK_OPTION_VIOLATION'', ''44''), (''CLASS_INSUFFICIENT_RESOURCES'', ''53''),
    (''CLASS_PROGRAM_LIMIT_EXCEEDED'', ''54''),
    (''CLASS_OBJECT_NOT_IN_PREREQUISITE_STATE'', ''55''),
    (''CLASS_OPERATOR_INTERVENTION'', ''57''), (''CLASS_SYSTEM_ERROR'', ''58''),
    (''CLASS_CONFIGURATION_FILE_ERROR'', ''F0''), (''CLASS_FDW_ERROR'', ''HV''),
    (''CLASS_PLPGSQL_ERROR'', ''P0''), (''CLASS_INTERNAL_ERROR'', ''XX'')]"

definition sqlstate_codes :: "(string \<times> string) list" where
  "sqlstate_codes = [
    (''CONNECTION_DOES_NOT_EXIST'', ''08003''), (''CONNECTION_FAILURE'', ''08006''),
    (''SQLCLIENT_UNABLE_TO_ESTABLISH_SQLCONNECTION'', ''08001''),
    (''SQLSERVER_REJECTED_ESTABLISHMENT_OF_SQLCONNECTION'', ''08004''),
    (''TRANSACTION_RESOLUTION_UNKNOWN'', ''08007''), (''PROTOCOL_VIOLATION'', ''08P01''),
    (''ARRAY_SUBSCRIPT_ERROR'', ''2202E''), (''CHARACTER_NOT_IN_REPERTOIRE'', ''22021''),
    (''DATETIME_FIELD_OVERFLOW'', ''22008''), (''DIVISION_BY_ZERO'', ''22012''),
    (''ERROR_IN_ASSIGNMENT'', ''22005''), (''ESCAPE_CHARACTER_CONFLICT'', ''2200B''),
    (''INDICATOR_OVERFLOW'', ''22022''), (''INTERVAL_FIELD_OVERFLOW'', ''22015''),
    (''INVALID_ARGUMENT_FOR_LOGARITHM'', ''2201E''),
    (''INVALID_ARGUMENT_FOR_NTILE_FUNCTION'', ''22014''),
    (''INVALID_ARGUMENT_FOR_NTH_VALUE_FUNCTION'', ''22016''),
    (''INVALID_ARGUMENT_FOR_POWER_FUNCTION'', ''2201F''),
    (''INVALID_ARGUMENT_FOR_WIDTH_BUCKET_FUNCTION'', ''2201G''),
    (''INVALID_CHARACTER_VALUE_FOR_CAST'', ''22018''), (''INVALID_DATETIME_FORMAT'', ''22007''),
    (''INVALID_ESCAPE_CHARACTER'', ''22019''), (''INVALID_ESCAPE_OCTET'', ''2200D''),
    (''INVALID_ESCAPE_SEQUENCE'', ''22025''), (''INVALID_INDICATOR_PARAMETER_VALUE'', ''22010''),
    (''INVALID_LIMIT_VALUE'', ''22020''), (''INVALID_PARAMETER_VALUE'', ''22023''),
    (''INVALID_PRECEDING_OR_FOLLOWING_SIZE'', ''22013''),
    (''INVALID_REGULAR_EXPRESSION'', ''2201B''),
    (''INVALID_ROW_COUNT_IN_LIMIT_CLAUSE'', ''2201W''),
    (''INVALID_ROW_COUNT_IN_RESULT_OFFSET_CLAUSE'', ''2201X''),
    (''INVALID_TABLESAMPLE_ARGUMENT'', ''2202H''), (''INVALID_TABLESAMPLE_REPEAT'', ''2202G''),
    (''INVALID_TIME_ZONE_DISPLACEMENT_VALUE'', ''22009''),
    (''INVALID_USE_OF_ESCAPE_CHARACTER'', ''2200C''),
    (''MOST_SPECIFIC_TYPE_MISMATCH'', ''2200G''), (''NULL_VALUE_NOT_ALLOWED'', ''22004''),
    (''NULL_VALUE_NO_INDICATOR_PARAMETER'', ''22002''),
    (''NUMERIC_VALUE_OUT_OF_RANGE'', ''22003''), (''STRING_DATA_RIGHT_TRUNCATION'', ''22001''),
    (''STRING_DATA_LENGTH_MISMATCH'', ''22026''), (''SUBSTRING_ERROR'', ''22011''),
    (''TRIM_ERROR'', ''22027''), (''UNTERMINATED_C_STRING'', ''22024''),
    (''ZERO_LENGTH_CHARACTER_STRING'', ''2200F''), (''FLOATING_POINT_EXCEPTION'', ''22P01''),
    (''INVALID_TEXT_REPRESENTATION'', ''22P02''), (''INVALID_BINARY_REPRESENTATION'', ''22P03''),
    (''BAD_COPY_FILE_FORMAT'', ''22P04''), (''UNTRANSLATABLE_CHARACTER'', ''22P05''),
    (''NOT_AN_XML_DOCUMENT'', ''2200L''), (''INVALID_XML_DOCUMENT'', ''2200M''),
    (''INVALID_XML_CONTENT'', ''2200N''), (''INVALID_XML_COMMENT'', ''2200S''),
    (''INVALID_XML_PROCESSING_INSTRUCTION'', ''2200T''),
    (''INTEGRITY_CONSTRAINT_VIOLATION'', ''23000''), (''RESTRICT_VIOLATION'', ''23001''),
    (''NOT_NULL_VIOLATION'', ''23502''), (''FOREIGN_KEY_VIOLATION'', ''23503''),
    (''UNIQUE_VIOLATION'', ''23505''), (''CHECK_VIOLATION'', ''23514''),
    (''EXCLUSION_VIOLATION'', ''23P01''), (''ACTIVE_SQL_TRANSACTION'', ''25001''),
    (''BRANCH_TRANSACTION_ALREADY_ACTIVE'', ''25002''),
    (''HELD_CURSOR_REQUIRES_SAME_ISOLATION_LEVEL'', ''25008''),
    (''INAPPROPRIATE_ACCESS_MODE_FOR_BRANCH_TRANSACTION'', ''25003''),
    (''INAPPROPRIATE_ISOLATION_LEVEL_FOR_BRANCH_TRANSACTION'', ''25004''),
    (''NO_ACTIVE_SQL_TRANSACTION_FOR_BRANCH_TRANSACTION'', ''25005''),
    (''READ_ONLY_SQL_TRANSACTION'', ''25006''),
    (''SCHEMA_AND_DATA_STATEMENT_MIXING_NOT_SUPPORTED'', ''25007''),
    (''NO_ACTIVE_SQL_TRANSACTION'', ''25P01''), (''IN_FAILED_SQL_TRANSACTION'', ''25P02''),
    (''IDLE_IN_TRANSACTION_SESSION_TIMEOUT'', ''25P03''), (''SERIALIZATION_FAILURE'', ''40001''),
    (''TRANSACTION_INTEGRITY_CONSTRAINT_VIOLATION'', ''40002''),
    (''STATEMENT_COMPLETION_UNKNOWN'', ''40003''), (''DEADLOCK_DETECTED'', ''40P01''),
    (''SYNTAX_ERROR'', ''42601''), (''INSUFFICIENT_PRIVILEGE'', ''42501''),
    (''CANNOT_COERCE'', ''42846''), (''GROUPING_ERROR'', ''42803''),
    (''WINDOWING_ERROR'', ''42P20''), (''INVALID_RECURSION'', ''42P19''),
    (''INVALID_FOREIGN_KEY'', ''42830''), (''INVALID_FUNCTION_DEFINITION'', ''42P13''),
    (''NAME_TOO_LONG'', ''42622''), (''DUPLICATE_COLUMN'', ''42701''),
    (''DUPLICATE_CURSOR'', ''42P03''), (''DUPLICATE_DATABASE'', ''42P04''),
    (''DUPLICATE_FUNCTION'', ''42P05''), (''DUPLICATE_PREPARED_STATEMENT'', ''42P06''),
    (''DUPLICATE_SCHEMA'', ''42P07''), (''DUPLICATE_TABLE'', ''42P08''),
    (''DUPLICATE_ALIAS'', ''42712''), (''DUPLICATE_OBJECT'', ''42710''),
    (''AMBIGUOUS_COLUMN'', ''42702''), (''AMBIGUOUS_FUNCTION'', ''42725''),
    (''AMBIGUOUS_PARAMETER'', ''42P09''), (''UNDEFINED_COLUMN'', ''42703''),
    (''UNDEFINED_FUNCTION'', ''42883''), (''UNDEFINED_TABLE'', ''42P01''),
    (''UNDEFINED_PARAMETER'', ''42P02''), (''UNDEFINED_OBJECT'', ''42704''),
    (''WRONG_OBJECT_TYPE'', ''42809''), (''DISK_FULL'', ''53100''),
    (''OUT_OF_MEMORY'', ''53200''), (''TOO_MANY_CONNECTIONS'', ''53300''),
    (''CONFIGURATION_LIMIT_EXCEEDED'', ''53400''), (''STATEMENT_TOO_COMPLEX'', ''54001''),
    (''TOO_MANY_COLUMNS'', ''54011''), (''TOO_MANY_ARGUMENTS'', ''54023''),
    (''OBJECT_IN_USE'', ''55006''), (''CANT_CHANGE_RUNTIME_PARAM'', ''55P02''),
    (''LOCK_NOT_AVAILABLE'', ''55P03''), (''QUERY_CANCELED'', ''57014''),
    (''ADMIN_SHUTDOWN'', ''57P01''), (''CRASH_SHUTDOWN'', ''57P02''),
    (''CANNOT_CONNECT_NOW'', ''57P03''), (''DATABASE_DROPPED'', ''57P04''),
    (''IDLE_SESSION_TIMEOUT'', ''57P05''), (''IO_ERROR'', ''58030''),
    (''UNDEFINED_FILE'', ''58P01''), (''DUPLICATE_FILE'', ''58P02''),
    (''INTERNAL_ERROR'', ''XX000''), (''DATA_CORRUPTED'', ''XX001''),
    (''INDEX_CORRUPTED'', ''XX002'')]"

subsection \<open>Lemmas\<close>

lemma broken_iff_classify:
  "classify_error e = Broken \<longleftrightarrow> is_connection_broken e"
  by (cases e rule: classify_error.cases) (auto simp: pg_defs split: io_error_kind.splits)

lemma transient_iff_classify:
  "classify_error e = Transient \<longleftrightarrow> is_retryable e \<or> (\<exists>i. e = PgIo i \<and> kind i = TimedOut)"
  by (cases e rule: classify_error.cases) (auto simp: pg_defs split: io_error_kind.splits)

lemma transport_broken_agrees: "is_connection_broken (PgTransport t) = te_is_connection_broken t"
  by (cases t) auto

lemma set_field_code:
  "code (set_field e (c, v)) = (if c = CHR ''C'' then v else code e)"
  by (simp add: set_field_def)

lemma set_field_severity:
  "severity (set_field e (c, v)) = (if c = CHR ''S'' then v else severity e)"
  by (simp add: set_field_def)

lemma set_field_message:
  "message (set_field e (c, v)) = (if c = CHR ''M'' then v else message e)"
  by (simp add: set_field_def)

lemma set_field_position:
  "position (set_field e (c, v)) = (if c = CHR ''P'' then parse_uint u32_max v else position e)"
  by (simp add: set_field_def)

lemma set_field_unknown:
  assumes "c \<notin> set ''SVCMDHPpqWstcdnFLR''"
  shows "set_field e (c, v) = e"
  using assms by (simp add: set_field_def)

text \<open>The last field of a type decides; unknown types are skipped.\<close>

definition last_field :: "char \<Rightarrow> (char \<times> string) list \<Rightarrow> string option" where
  "last_field c fs = map_of (rev fs) c"

lemma from_fields_snoc: "from_fields (fs @ [f]) = set_field (from_fields fs) f"
  by (simp add: from_fields_def)

lemma last_field_snoc [simp]:
  "last_field c (fs @ [(d, v)]) = (if c = d then Some v else last_field c fs)"
  by (simp add: last_field_def)

lemma from_fields_code: "code (from_fields fs) = (case last_field (CHR ''C'') fs of None \<Rightarrow> [] | Some v \<Rightarrow> v)"
proof (induction fs rule: rev_induct)
  case Nil
  then show ?case by (simp add: from_fields_def default_server_error_def last_field_def)
next
  case (snoc f fs)
  then show ?case by (cases f) (simp add: from_fields_snoc set_field_code)
qed

lemma from_fields_severity:
  "severity (from_fields fs) = (case last_field (CHR ''S'') fs of None \<Rightarrow> [] | Some v \<Rightarrow> v)"
proof (induction fs rule: rev_induct)
  case Nil
  then show ?case by (simp add: from_fields_def default_server_error_def last_field_def)
next
  case (snoc f fs)
  then show ?case by (cases f) (simp add: from_fields_snoc set_field_severity)
qed

lemma from_fields_message:
  "message (from_fields fs) = (case last_field (CHR ''M'') fs of None \<Rightarrow> [] | Some v \<Rightarrow> v)"
proof (induction fs rule: rev_induct)
  case Nil
  then show ?case by (simp add: from_fields_def default_server_error_def last_field_def)
next
  case (snoc f fs)
  then show ?case by (cases f) (simp add: from_fields_snoc set_field_message)
qed

lemma from_fields_position:
  "position (from_fields fs) = Option.bind (last_field (CHR ''P'') fs) (parse_uint u32_max)"
proof (induction fs rule: rev_induct)
  case Nil
  then show ?case by (simp add: from_fields_def default_server_error_def last_field_def)
next
  case (snoc f fs)
  then show ?case by (cases f) (simp add: from_fields_snoc set_field_position)
qed

subsection \<open>Properties\<close>

text \<open>
  The reconnection classifier and the error predicates agree: an error is classified as broken
  exactly when \<open>is_connection_broken\<close> holds, and as transient exactly when it is retryable or an I/O
  time-out.  In particular no error is both retryable in place and a reason to reconnect.
\<close>

lemma classify_error_consistent:
  "(classify_error e = Broken \<longleftrightarrow> is_connection_broken e) \<and>
   (classify_error e = Transient \<longleftrightarrow> is_retryable e \<or> (\<exists>i. e = PgIo i \<and> kind i = TimedOut)) \<and>
   \<not> (is_retryable e \<and> is_connection_broken e)"
  using broken_iff_classify [of e] transient_iff_classify [of e] by auto

text \<open>
  Parsing the fields of an error response: for the severity, the SQLSTATE code, the message and
  the position the last field of the type decides, and it does not matter which other fields
  (known or unknown) surround it.
\<close>

lemma from_fields_last_wins:
  "code (from_fields fs) = (case last_field (CHR ''C'') fs of None \<Rightarrow> [] | Some v \<Rightarrow> v) \<and>
   severity (from_fields fs) = (case last_field (CHR ''S'') fs of None \<Rightarrow> [] | Some v \<Rightarrow> v) \<and>
   message (from_fields fs) = (case last_field (CHR ''M'') fs of None \<Rightarrow> [] | Some v \<Rightarrow> v) \<and>
   position (from_fields fs) = Option.bind (last_field (CHR ''P'') fs) (parse_uint u32_max)"
  using from_fields_code from_fields_severity from_fields_message from_fields_position by blast

text \<open>
  The table of SQLSTATE constants is well formed: every code has five characters, no code is
  listed twice, and the class of every code is one of the listed classes.
\<close>

lemma sqlstate_table_well_formed:
  "list_all (\<lambda>(nm, c). length c = 5 \<and> class_of c \<in> set (map snd sqlstate_classes)) sqlstate_codes
   \<and> distinct (map snd sqlstate_codes) \<and> distinct (map snd sqlstate_classes)"
  by code_simp

end
