(* ===== verification/Transport.thy ===== *)
theory Transport
  imports Pg_Error
begin

text \<open>
  The transport layer: the contract of the \<open>AsyncTransport\<close> trait (\<open>transport/mod.rs\<close>) as the locale
  \<open>async_transport\<close>, the in-memory \<open>MockTransport\<close> that implements it, and the buffering wrapper
  \<open>BufferedTransport\<close> (\<open>transport/buffered.rs\<close>), which implements the contract over any transport
  that does.  \<open>read\<close> into a slice of \<open>k\<close> bytes returns the bytes read (\<open>Ok(n)\<close> is a list of length
  \<open>n\<close>).
\<close>

type_synonym 't reader = "'t \<Rightarrow> nat \<Rightarrow> (transport_error, bytes) res \<times> 't"
type_synonym 't writer = "'t \<Rightarrow> bytes \<Rightarrow> (transport_error, unit) res \<times> 't"
type_synonym 't action = "'t \<Rightarrow> (transport_error, unit) res \<times> 't"

subsection \<open>MockTransport\<close>

record mock_transport =
  read_data :: bytes
  m_read_pos :: nat
  max_read_chunk :: nat
  written :: bytes
  closed :: bool
  flushed :: bool
  shutdown_called :: bool

definition mock_new :: "bytes \<Rightarrow> mock_transport" where
  "mock_new d = \<lparr> read_data = d, m_read_pos = 0, max_read_chunk = 0, written = [],
                  closed = False, flushed = False, shutdown_called = False \<rparr>"

definition with_max_read_chunk :: "nat \<Rightarrow> mock_transport \<Rightarrow> mock_transport" where
  "with_max_read_chunk n m = m\<lparr>max_read_chunk := n\<rparr>"

definition is_read_exhausted :: "mock_transport \<Rightarrow> bool" where
  "is_read_exhausted m = (length (read_data m) \<le> m_read_pos m)"

definition mock_read :: "mock_transport reader" where
  "mock_read m k =
     (if closed m then (Ok [], m)
      else if length (read_data m) \<le> m_read_pos m then (Ok [], m)
      else (let remaining = drop (m_read_pos m) (read_data m);
                to_read = min (length remaining) k;
                to_read = (if 0 < max_read_chunk m then min to_read (max_read_chunk m) else to_read)
            in (Ok (take to_read remaining), m\<lparr>m_read_pos := m_read_pos m + to_read\<rparr>)))"

definition mock_write :: "mock_transport \<Rightarrow> bytes \<Rightarrow> (transport_error, nat) res \<times> mock_transport" where
  "mock_write m buf =
     (if closed m then (Err TeConnectionReset, m)
      else (Ok (length buf), m\<lparr>written := written m @ buf\<rparr>))"

definition mock_write_all :: "mock_transport writer" where
  "mock_write_all m buf =
     (if closed m then (Err TeConnectionReset, m)
      else (Ok (), m\<lparr>written := written m @ buf\<rparr>))"

definition mock_flush :: "mock_transport action" where
  "mock_flush m = (Ok (), m\<lparr>flushed := True\<rparr>)"

definition mock_shutdown :: "mock_transport action" where
  "mock_shutdown m = (Ok (), m\<lparr>shutdown_called := True, closed := True\<rparr>)"

text \<open>\<open>MockTransport::read_exact\<close>: \<open>acc\<close> is the filled part of the buffer of \<open>k\<close> bytes.\<close>

function mock_read_exact ::
  "mock_transport \<Rightarrow> nat \<Rightarrow> bytes \<Rightarrow> (transport_error, bytes) res \<times> mock_transport"
where
  "mock_read_exact m k acc =
     (if length acc < k then
        (case mock_read m (k - length acc) of
           (Inl e, m') \<Rightarrow> (Err e, m')
         | (Inr bs, m') \<Rightarrow>
             if bs = [] then (Err TeUnexpectedEof, m') else mock_read_exact m' k (acc @ bs))
      else (Ok acc, m))"
  by pat_completeness auto
termination
proof (relation "measure (\<lambda>(m, k, acc). k - length acc)", goal_cases)
  case (2 m k acc r m' bs)
  then show ?case by (cases bs) auto
qed simp

declare mock_read_exact.simps [simp del]

subsection \<open>BufferedTransport\<close>

definition WRITE_BUFFER_FLUSH_THRESHOLD :: nat where "WRITE_BUFFER_FLUSH_THRESHOLD = 8192"
definition DEFAULT_READ_CAPACITY :: nat where "DEFAULT_READ_CAPACITY = 8192"

record 't buffered =
  inner :: 't
  read_buf :: bytes
  read_pos :: nat
  read_len :: nat
  write_buf :: bytes

definition with_capacity :: "'t \<Rightarrow> nat \<Rightarrow> 't buffered" where
  "with_capacity t read_cap =
     \<lparr> inner = t, read_buf = replicate read_cap 0, read_pos = 0, read_len = 0, write_buf = [] \<rparr>"

definition buffered_new :: "'t \<Rightarrow> 't buffered" where
  "buffered_new t = with_capacity t DEFAULT_READ_CAPACITY"

text \<open>\<open>copy_within(a..b, 0)\<close> on a slice.\<close>

definition copy_to_front :: "nat \<Rightarrow> nat \<Rightarrow> bytes \<Rightarrow> bytes" where
  "copy_to_front a b buf = take (b - a) (drop a buf) @ drop (b - a) buf"

definition compact_read :: "'t buffered \<Rightarrow> 't buffered" where
  "compact_read b =
     (if 0 < read_pos b then
        b\<lparr>read_buf := copy_to_front (read_pos b) (read_len b) (read_buf b),
          read_len := read_len b - read_pos b,
          read_pos := 0\<rparr>
      else b)"

definition ensure_read_capacity :: "'t buffered \<Rightarrow> nat \<Rightarrow> 't buffered" where
  "ensure_read_capacity b min_remaining =
     (let remaining = length (read_buf b) - read_len b in
      if remaining < min_remaining then
        (let new_len = max (length (read_buf b) * 2) (read_len b + min_remaining) in
         b\<lparr>read_buf := read_buf b @ replicate (new_len - length (read_buf b)) 0\<rparr>)
      else b)"

definition flush_write :: "'t writer \<Rightarrow> 't buffered action" where
  "flush_write wa b =
     (if write_buf b \<noteq> [] then
        (case wa (inner b) (write_buf b) of
           (Inl e, t) \<Rightarrow> (Err e, b\<lparr>inner := t\<rparr>)
         | (Inr u, t) \<Rightarrow> (Ok (), b\<lparr>inner := t, write_buf := []\<rparr>))
      else (Ok (), b))"

text \<open>Reading from the inner transport into \<open>read_buf[read_len..]\<close>.\<close>

definition refill :: "'t reader \<Rightarrow> 't buffered \<Rightarrow> (transport_error, nat) res \<times> 't buffered" where
  "refill rd b =
     (case rd (inner b) (length (read_buf b) - read_len b) of
        (Inl e, t) \<Rightarrow> (Err e, b\<lparr>inner := t\<rparr>)
      | (Inr bs, t) \<Rightarrow>
          (Ok (length bs),
           b\<lparr>inner := t,
             read_buf := take (read_len b) (read_buf b) @ bs @ drop (read_len b + length bs) (read_buf b)\<rparr>))"

definition available :: "'t buffered \<Rightarrow> bytes" where
  "available b = drop (read_pos b) (take (read_len b) (read_buf b))"

definition bt_read :: "'t reader \<Rightarrow> 't buffered reader" where
  "bt_read rd b k =
     (if read_pos b < read_len b then
        (let n = min k (length (available b));
             out = take n (available b);
             b1 = b\<lparr>read_pos := read_pos b + n\<rparr>;
             b2 = (if length (read_buf b1) div 2 < read_pos b1 then compact_read b1 else b1)
         in (Ok out, b2))
      else
        (let b1 = ensure_read_capacity (compact_read b) DEFAULT_READ_CAPACITY in
         (case refill rd b1 of
            (Inl e, b2) \<Rightarrow> (Err e, b2)
          | (Inr n, b2) \<Rightarrow>
              if n = 0 then (Ok [], b2)
              else (let b3 = b2\<lparr>read_len := read_len b2 + n\<rparr>;
                        to_copy = min k (length (available b3))
                    in (Ok (take to_copy (available b3)), b3\<lparr>read_pos := read_pos b3 + to_copy\<rparr>)))))"

definition bt_write :: "'t writer \<Rightarrow> 't buffered \<Rightarrow> bytes \<Rightarrow> (transport_error, nat) res \<times> 't buffered" where
  "bt_write wa b buf =
     (let b1 = b\<lparr>write_buf := write_buf b @ buf\<rparr> in
      if WRITE_BUFFER_FLUSH_THRESHOLD \<le> length (write_buf b1) then
        (case flush_write wa b1 of
           (Inl e, b2) \<Rightarrow> (Err e, b2)
         | (Inr u, b2) \<Rightarrow> (Ok (length buf), b2))
      else (Ok (length buf), b1))"

definition bt_write_all :: "'t writer \<Rightarrow> 't buffered writer" where
  "bt_write_all wa b buf =
     (let b1 = b\<lparr>write_buf := write_buf b @ buf\<rparr> in
      if WRITE_BUFFER_FLUSH_THRESHOLD \<le> length (write_buf b1) then flush_write wa b1
      else (Ok (), b1))"

definition bt_flush :: "'t writer \<Rightarrow> 't action \<Rightarrow> 't buffered action" where
  "bt_flush wa fl b =
     (case flush_write wa b of
        (Inl e, b1) \<Rightarrow> (Err e, b1)
      | (Inr u, b1) \<Rightarrow> (case fl (inner b1) of (r, t) \<Rightarrow> (r, b1\<lparr>inner := t\<rparr>)))"

definition bt_shutdown :: "'t writer \<Rightarrow> 't action \<Rightarrow> 't buffered action" where
  "bt_shutdown wa sd b =
     (case flush_write wa b of
        (Inl e, b1) \<Rightarrow> (Err e, b1)
      | (Inr u, b1) \<Rightarrow> (case sd (inner b1) of (r, t) \<Rightarrow> (r, b1\<lparr>inner := t\<rparr>)))"

lemma compact_exhausted [simp]:
  "\<not> read_pos b < read_len b \<Longrightarrow> read_pos (compact_read b) = 0"
  "\<not> read_pos b < read_len b \<Longrightarrow> read_len (compact_read b) = 0"
  by (simp_all add: compact_read_def)

lemma ensure_read_capacity_frame [simp]:
  "read_pos (ensure_read_capacity b k) = read_pos b"
  "read_len (ensure_read_capacity b k) = read_len b"
  "inner (ensure_read_capacity b k) = inner b"
  "write_buf (ensure_read_capacity b k) = write_buf b"
  by (simp_all add: ensure_read_capacity_def Let_def)

lemma refill_frame:
  assumes "refill rd b = (r, b')"
  shows "read_pos b' = read_pos b" "read_len b' = read_len b" "write_buf b' = write_buf b"
  using assms by (auto simp: refill_def split: prod.splits sum.splits)

text \<open>
  \<open>read_exact\<close>: \<open>acc\<close> is the filled part of the caller's buffer of \<open>k\<close> bytes.  The second error
  branch stands for the slice panic of a state with \<open>read_len\<close> beyond the buffer, which the
  invariant \<open>bt_inv\<close> excludes.
\<close>

function bt_read_exact_loop ::
  "'t reader \<Rightarrow> 't buffered \<Rightarrow> nat \<Rightarrow> bytes \<Rightarrow> (transport_error, bytes) res \<times> 't buffered"
where
  "bt_read_exact_loop rd b k acc =
     (if length acc < k then
        (if read_pos b < read_len b \<and> available b \<noteq> [] then
           (let to_copy = min (k - length acc) (length (available b)) in
            bt_read_exact_loop rd (b\<lparr>read_pos := read_pos b + to_copy\<rparr>) k
              (acc @ take to_copy (available b)))
         else if read_pos b < read_len b then (Err TeUnexpectedEof, b)
         else
           (case refill rd (ensure_read_capacity (compact_read b) (k - length acc)) of
              (Inl e, b2) \<Rightarrow> (Err e, b2)
            | (Inr n, b2) \<Rightarrow>
                if n = 0 then (Err TeUnexpectedEof, b2)
                else bt_read_exact_loop rd (b2\<lparr>read_len := read_len b2 + n\<rparr>) k acc))
      else (Ok acc, if length (read_buf b) div 2 < read_pos b then compact_read b else b))"
  by pat_completeness auto
termination
proof (relation "measure (\<lambda>(rd, b, k, acc).
    2 * (k - length acc) + (if read_pos b < read_len b then 0 else 1))", goal_cases)
  case (2 rd b k acc to_copy)
  then show ?case by (cases "available b") (auto simp: min_def)
next
  case (3 rd b k acc r b2 n)
  then have "refill rd (ensure_read_capacity (compact_read b) (k - length acc)) = (Inr n, b2)"
    by simp
  from refill_frame(1,2) [OF this] show ?case using 3 by simp
qed simp

declare bt_read_exact_loop.simps [simp del]

definition bt_read_exact :: "'t reader \<Rightarrow> 't buffered reader" where
  "bt_read_exact rd b k = bt_read_exact_loop rd b k []"

subsection \<open>The contract of a transport\<close>

text \<open>
  \<open>pend t\<close> are the bytes the peer has sent that the caller has not read yet, \<open>sent t\<close> the bytes
  accepted for the peer.  A successful read removes a prefix of \<open>pend\<close>, an empty read into a
  non-empty slice means the stream is over, an error loses nothing, and a successful write appends
  exactly the bytes given.
\<close>

locale async_transport =
  fixes rd :: "'t reader" and wa :: "'t writer"
    and pend :: "'t \<Rightarrow> bytes" and sent :: "'t \<Rightarrow> bytes" and invar :: "'t \<Rightarrow> bool"
  assumes read_ok: "invar t \<Longrightarrow> rd t k = (Inr bs, t') \<Longrightarrow>
      invar t' \<and> length bs \<le> k \<and> pend t = bs @ pend t' \<and> sent t' = sent t"
    and read_eof: "invar t \<Longrightarrow> rd t k = (Inr [], t') \<Longrightarrow> 0 < k \<Longrightarrow> pend t = []"
    and read_err: "invar t \<Longrightarrow> rd t k = (Inl e, t') \<Longrightarrow> invar t' \<and> pend t' = pend t \<and> sent t' = sent t"
    and write_ok: "invar t \<Longrightarrow> wa t bs = (Inr u, t') \<Longrightarrow>
      invar t' \<and> sent t' = sent t @ bs \<and> pend t' = pend t"
    and write_err: "invar t \<Longrightarrow> wa t bs = (Inl e, t') \<Longrightarrow> invar t' \<and> pend t' = pend t"

locale reliable_transport = async_transport +
  assumes read_total: "\<exists>bs t'. rd t k = (Inr bs, t')"

text \<open>The abstraction of a buffered transport: what is buffered comes before what is to come.\<close>

definition bt_inv :: "('t \<Rightarrow> bool) \<Rightarrow> 't buffered \<Rightarrow> bool" where
  "bt_inv invar b = (invar (inner b) \<and> read_pos b \<le> read_len b \<and> read_len b \<le> length (read_buf b))"

definition bt_pend :: "('t \<Rightarrow> bytes) \<Rightarrow> 't buffered \<Rightarrow> bytes" where
  "bt_pend pend b = available b @ pend (inner b)"

definition bt_sent :: "('t \<Rightarrow> bytes) \<Rightarrow> 't buffered \<Rightarrow> bytes" where
  "bt_sent sent b = sent (inner b) @ write_buf b"

lemma length_available: "bt_inv invar b \<Longrightarrow> length (available b) = read_len b - read_pos b"
  by (simp add: available_def bt_inv_def)

lemma available_compact [simp]: "bt_inv invar b \<Longrightarrow> available (compact_read b) = available b"
  by (auto simp: available_def compact_read_def copy_to_front_def bt_inv_def drop_take min_def)

lemma compact_frame [simp]:
  "inner (compact_read b) = inner b" "write_buf (compact_read b) = write_buf b"
  by (simp_all add: compact_read_def)

lemma bt_inv_compact [simp, intro]: "bt_inv invar b \<Longrightarrow> bt_inv invar (compact_read b)"
  by (auto simp: bt_inv_def compact_read_def copy_to_front_def)

lemma available_consume:
  "bt_inv invar b \<Longrightarrow> n \<le> length (available b) \<Longrightarrow>
   available (b\<lparr>read_pos := read_pos b + n\<rparr>) = drop n (available b)"
  by (simp add: available_def add.commute)

lemma bt_inv_consume:
  "bt_inv invar b \<Longrightarrow> n \<le> length (available b) \<Longrightarrow> bt_inv invar (b\<lparr>read_pos := read_pos b + n\<rparr>)"
  by (auto simp: available_def bt_inv_def)

lemma available_ensure [simp]:
  "bt_inv invar b \<Longrightarrow> available (ensure_read_capacity b k) = available b"
  by (auto simp: available_def ensure_read_capacity_def bt_inv_def Let_def)

lemma bt_inv_ensure [simp, intro]: "bt_inv invar b \<Longrightarrow> bt_inv invar (ensure_read_capacity b k)"
  by (auto simp: bt_inv_def ensure_read_capacity_def Let_def)

lemma available_prepare [simp]:
  "bt_inv invar b \<Longrightarrow> available (ensure_read_capacity (compact_read b) k) = available b"
  using available_ensure [OF bt_inv_compact] available_compact by metis

lemma ensure_capacity_room:
  assumes "bt_inv invar b"
  shows "k \<le> length (read_buf (ensure_read_capacity b k)) - read_len b"
  using assms by (auto simp: ensure_read_capacity_def bt_inv_def Let_def)

context async_transport
begin

lemma refill_ok:
  assumes "bt_inv invar b" "refill rd b = (Inr n, b')" "available b = []"
    and "n \<noteq> 0"
  shows "bt_inv invar (b'\<lparr>read_len := read_len b' + n\<rparr>)"
    and "bt_pend pend b = bt_pend pend (b'\<lparr>read_len := read_len b' + n\<rparr>)"
    and "length (available (b'\<lparr>read_len := read_len b' + n\<rparr>)) = n"
    and "bt_sent sent b' = bt_sent sent b"
proof -
  obtain bs t where r: "rd (inner b) (length (read_buf b) - read_len b) = (Inr bs, t)"
    "n = length bs"
    "b' = b\<lparr>inner := t, read_buf := take (read_len b) (read_buf b) @ bs
                 @ drop (read_len b + length bs) (read_buf b)\<rparr>"
    using assms(2) by (auto simp: refill_def split: prod.splits sum.splits)
  note ok = read_ok [OF _ r(1)]
  have i: "invar (inner b)" "read_len b \<le> length (read_buf b)" "read_pos b = read_len b"
    using assms(1,3) by (auto simp: bt_inv_def available_def)
  then show "bt_inv invar (b'\<lparr>read_len := read_len b' + n\<rparr>)"
    using ok r by (auto simp: bt_inv_def)
  have av: "available (b'\<lparr>read_len := read_len b' + n\<rparr>) = bs"
    using i r ok by (auto simp: available_def)
  then show "length (available (b'\<lparr>read_len := read_len b' + n\<rparr>)) = n" using r by simp
  show "bt_pend pend b = bt_pend pend (b'\<lparr>read_len := read_len b' + n\<rparr>)"
    using av assms(3) ok i r by (simp add: bt_pend_def)
  show "bt_sent sent b' = bt_sent sent b" using ok i r by (simp add: bt_sent_def)
qed

lemma refill_eof:
  assumes "bt_inv invar b" "refill rd b = (Inr 0, b')" "available b = []"
    and "read_len b < length (read_buf b)"
  shows "bt_inv invar b'" "bt_pend pend b = []" "bt_pend pend b' = []" "bt_sent sent b' = bt_sent sent b"
proof -
  obtain t where r: "rd (inner b) (length (read_buf b) - read_len b) = (Inr [], t)"
    "b' = b\<lparr>inner := t, read_buf := read_buf b\<rparr>"
    using assms(2) by (auto simp: refill_def split: prod.splits sum.splits)
  have i: "invar (inner b)" using assms(1) by (simp add: bt_inv_def)
  have e: "pend (inner b) = []" using read_eof [OF i r(1)] assms(4) by simp
  show "bt_inv invar b'" "bt_pend pend b = []" "bt_pend pend b' = []"
       "bt_sent sent b' = bt_sent sent b"
    using read_ok [OF i r(1)] r(2) e assms(1,3)
    by (auto simp: bt_inv_def bt_pend_def available_def bt_sent_def)
qed

lemma refill_err:
  assumes "bt_inv invar b" "refill rd b = (Inl e, b')"
  shows "bt_inv invar b' \<and> bt_pend pend b' = bt_pend pend b \<and> bt_sent sent b' = bt_sent sent b"
  using assms read_err
  by (fastforce simp: refill_def bt_inv_def bt_pend_def available_def bt_sent_def
      split: prod.splits sum.splits)

lemma bt_read_ok:
  assumes "bt_inv invar b" "bt_read rd b k = (Inr bs, b')"
  shows "bt_inv invar b' \<and> length bs \<le> k \<and> bt_pend pend b = bs @ bt_pend pend b'
         \<and> bt_sent sent b' = bt_sent sent b"
proof (cases "read_pos b < read_len b")
  case True
  let ?n = "min k (length (available b))"
  let ?b1 = "b\<lparr>read_pos := read_pos b + ?n\<rparr>"
  have i1: "bt_inv invar ?b1" using assms(1) by (rule bt_inv_consume) simp
  have av: "available ?b1 = drop ?n (available b)" using assms(1) by (rule available_consume) simp
  have "bs = take ?n (available b)" "b' = compact_read ?b1 \<or> b' = ?b1"
    using assms(2) True by (auto simp: bt_read_def Let_def split: if_splits)
  then show ?thesis using i1 av
    by (auto simp: bt_pend_def bt_sent_def)
next
  case False
  let ?b1 = "ensure_read_capacity (compact_read b) DEFAULT_READ_CAPACITY"
  have i1: "bt_inv invar ?b1" using assms(1) by auto
  have av: "available b = []" using False assms(1) by (simp add: available_def bt_inv_def)
  then have av1: "available ?b1 = []" using assms(1) by simp
  have p: "bt_pend pend ?b1 = bt_pend pend b" "bt_sent sent ?b1 = bt_sent sent b"
    using av av1 by (simp_all add: bt_pend_def bt_sent_def)
  obtain n b2 where r: "refill rd ?b1 = (Inr n, b2)"
    using assms(2) False by (auto simp: bt_read_def Let_def split: prod.splits sum.splits)
  show ?thesis
  proof (cases "n = 0")
    case True
    then have "bs = []" "b' = b2" using assms(2) False r by (auto simp: bt_read_def Let_def)
    moreover have "read_len ?b1 < length (read_buf ?b1)"
      using ensure_capacity_room [OF bt_inv_compact [OF assms(1)], of DEFAULT_READ_CAPACITY]
      by (simp add: DEFAULT_READ_CAPACITY_def)
    ultimately show ?thesis using refill_eof [OF i1 _ av1] r True p by auto
  next
    case nz: False
    let ?b3 = "b2\<lparr>read_len := read_len b2 + n\<rparr>"
    let ?c = "min k (length (available ?b3))"
    note ok = refill_ok [OF i1 r av1 nz]
    have "bs = take ?c (available ?b3)" "b' = ?b3\<lparr>read_pos := read_pos ?b3 + ?c\<rparr>"
      using assms(2) False r nz by (auto simp: bt_read_def Let_def)
    then show ?thesis
      using ok p bt_inv_consume [OF ok(1), of ?c] available_consume [OF ok(1), of ?c]
      by (auto simp: bt_pend_def bt_sent_def)
  qed
qed

lemma bt_read_eof:
  assumes "bt_inv invar b" "bt_read rd b k = (Inr [], b')" "0 < k"
  shows "bt_pend pend b = []"
proof (cases "read_pos b < read_len b")
  case True
  then have "length (available b) \<noteq> 0" using length_available [OF assms(1)] by simp
  then show ?thesis using assms(2,3) True
    by (auto simp: bt_read_def Let_def min_def split: if_splits)
next
  case False
  let ?b1 = "ensure_read_capacity (compact_read b) DEFAULT_READ_CAPACITY"
  have i1: "bt_inv invar ?b1" using assms(1) by auto
  have av: "available b = []" using False assms(1) by (simp add: available_def bt_inv_def)
  then have av1: "available ?b1 = []" using assms(1) by simp
  obtain n b2 where r: "refill rd ?b1 = (Inr n, b2)"
    using assms(2) False by (auto simp: bt_read_def Let_def split: prod.splits sum.splits)
  have "n = 0"
  proof (rule ccontr)
    assume nz: "n \<noteq> 0"
    then show False
      using assms(2,3) False r refill_ok(3) [OF i1 r av1 nz] by (auto simp: bt_read_def Let_def)
  qed
  moreover have "read_len ?b1 < length (read_buf ?b1)"
    using ensure_capacity_room [OF bt_inv_compact [OF assms(1)], of DEFAULT_READ_CAPACITY]
    by (simp add: DEFAULT_READ_CAPACITY_def)
  ultimately have "bt_pend pend ?b1 = []" using refill_eof(2) [OF i1 _ av1] r by auto
  then show ?thesis using av by (simp add: bt_pend_def)
qed

lemma bt_read_err:
  assumes "bt_inv invar b" "bt_read rd b k = (Inl e, b')"
  shows "bt_inv invar b' \<and> bt_pend pend b' = bt_pend pend b \<and> bt_sent sent b' = bt_sent sent b"
proof -
  let ?b1 = "ensure_read_capacity (compact_read b) DEFAULT_READ_CAPACITY"
  have F: "\<not> read_pos b < read_len b" and r: "refill rd ?b1 = (Inl e, b')"
    using assms(2) by (auto simp: bt_read_def Let_def split: if_splits prod.splits sum.splits)
  have i1: "bt_inv invar ?b1" using assms(1) by auto
  have "bt_pend pend ?b1 = bt_pend pend b" "bt_sent sent ?b1 = bt_sent sent b"
    using assms(1) by (simp_all add: bt_pend_def bt_sent_def)
  then show ?thesis using refill_err [OF i1 r] by simp
qed

lemma flush_write_ok:
  assumes "bt_inv invar b" "flush_write wa b = (Inr u, b')"
  shows "bt_inv invar b'" "bt_sent sent b' = bt_sent sent b" "bt_pend pend b' = bt_pend pend b"
    "write_buf b' = []"
  using assms write_ok [of "inner b" "write_buf b"]
  by (auto simp: flush_write_def bt_inv_def bt_sent_def bt_pend_def available_def
      split: if_splits prod.splits sum.splits)

lemma flush_write_err:
  assumes "bt_inv invar b" "flush_write wa b = (Inl e, b')"
  shows "bt_inv invar b'" "bt_pend pend b' = bt_pend pend b"
  using assms write_err [of "inner b" "write_buf b"]
  by (auto simp: flush_write_def bt_inv_def bt_sent_def bt_pend_def available_def
      split: if_splits prod.splits sum.splits)

lemma bt_extend_write [simp]:
  "bt_inv invar (b\<lparr>write_buf := w\<rparr>) = bt_inv invar b"
  "bt_pend pend (b\<lparr>write_buf := w\<rparr>) = bt_pend pend b"
  by (simp_all add: bt_inv_def bt_pend_def available_def)

lemma bt_write_all_ok:
  assumes "bt_inv invar b" "bt_write_all wa b bs = (Inr u, b')"
  shows "bt_inv invar b' \<and> bt_sent sent b' = bt_sent sent b @ bs \<and> bt_pend pend b' = bt_pend pend b"
proof -
  let ?b1 = "b\<lparr>write_buf := write_buf b @ bs\<rparr>"
  have i: "bt_inv invar ?b1" "bt_sent sent ?b1 = bt_sent sent b @ bs"
    "bt_pend pend ?b1 = bt_pend pend b" using assms(1) by (simp_all add: bt_sent_def)
  then show ?thesis using assms(2) flush_write_ok [OF i(1)]
    by (auto simp: bt_write_all_def Let_def split: if_splits)
qed

lemma bt_write_all_err:
  assumes "bt_inv invar b" "bt_write_all wa b bs = (Inl e, b')"
  shows "bt_inv invar b' \<and> bt_pend pend b' = bt_pend pend b"
proof -
  let ?b1 = "b\<lparr>write_buf := write_buf b @ bs\<rparr>"
  have i: "bt_inv invar ?b1" using assms(1) by simp
  then show ?thesis using assms(2) flush_write_err [OF i]
    by (auto simp: bt_write_all_def Let_def split: if_splits)
qed

text \<open>Wrapping a transport in a buffer gives a transport.\<close>

lemma buffered_transport:
  "async_transport (bt_read rd) (bt_write_all wa) (bt_pend pend) (bt_sent sent) (bt_inv invar)"
  by unfold_locales
    (fact bt_read_ok bt_read_eof bt_read_err bt_write_all_ok bt_write_all_err)+

end

subsection \<open>Exact reads\<close>

context reliable_transport
begin

lemma refill_total: "\<exists>n b'. refill rd b = (Inr n, b')"
  using read_total [of "inner b" "length (read_buf b) - read_len b"] by (auto simp: refill_def)

lemma buffered_reliable:
  "reliable_transport (bt_read rd) (bt_write_all wa) (bt_pend pend) (bt_sent sent) (bt_inv invar)"
proof (rule reliable_transport.intro [OF buffered_transport], unfold_locales)
  fix b k
  show "\<exists>bs b'. bt_read rd b k = (Inr bs, b')"
    using refill_total [of "ensure_read_capacity (compact_read b) DEFAULT_READ_CAPACITY"]
    by (auto simp: bt_read_def Let_def)
qed

text \<open>What \<open>read_exact\<close> owes its caller when \<open>acc\<close> of the \<open>k\<close> bytes are already there.\<close>

definition exact_post :: "'a buffered \<Rightarrow> nat \<Rightarrow> bytes \<Rightarrow> (transport_error, bytes) res \<times> 'a buffered \<Rightarrow> bool"
where
  "exact_post b k acc out = (case out of (r, b') \<Rightarrow>
     bt_inv invar b' \<and> bt_sent sent b' = bt_sent sent b \<and>
     (if k - length acc \<le> length (bt_pend pend b)
      then r = Ok (acc @ take (k - length acc) (bt_pend pend b))
           \<and> bt_pend pend b' = drop (k - length acc) (bt_pend pend b)
      else r = Err TeUnexpectedEof))"

lemma exact_post_consume:
  assumes "bt_inv invar b" "c \<le> length (available b)" "c \<le> k - length acc"
    and "exact_post (b\<lparr>read_pos := read_pos b + c\<rparr>) k (acc @ take c (available b)) out"
  shows "exact_post b k acc out"
proof -
  let ?b1 = "b\<lparr>read_pos := read_pos b + c\<rparr>" and ?n = "k - length acc"
  have len: "k - length (acc @ take c (available b)) = ?n - c" using assms(2) by simp
  have p: "bt_pend pend ?b1 = drop c (bt_pend pend b)" "take c (available b) = take c (bt_pend pend b)"
    using assms(2) available_consume [OF assms(1,2)] by (simp_all add: bt_pend_def)
  have "c \<le> length (bt_pend pend b)" using assms(2) by (simp add: bt_pend_def)
  then have cond: "?n - c \<le> length (bt_pend pend ?b1) \<longleftrightarrow> ?n \<le> length (bt_pend pend b)"
    using assms(3) p(1) by auto
  have tk: "take c (bt_pend pend b) @ take (?n - c) (drop c (bt_pend pend b)) = take ?n (bt_pend pend b)"
    using assms(3) by (metis le_add_diff_inverse take_add)
  have dr: "drop (?n - c) (drop c (bt_pend pend b)) = drop ?n (bt_pend pend b)"
    using assms(3) by (metis drop_drop le_add_diff_inverse2)
  have st: "bt_sent sent ?b1 = bt_sent sent b" by (simp add: bt_sent_def)
  show ?thesis using assms(4) unfolding exact_post_def len cond st
    by (simp only: p append_assoc tk dr)
qed

lemma exact_post_pend:
  assumes "bt_pend pend b = bt_pend pend b1" "bt_sent sent b1 = bt_sent sent b"
    and "exact_post b1 k acc out"
  shows "exact_post b k acc out"
  using assms by (auto simp: exact_post_def split: prod.splits)

lemma read_exact_loop:
  assumes "bt_inv invar b" "length acc \<le> k"
  shows "exact_post b k acc (bt_read_exact_loop rd b k acc)"
  using assms
proof (induction "2 * (k - length acc) + (if read_pos b < read_len b then 0 else 1)"
    arbitrary: b acc rule: less_induct)
  case less
  show ?case
  proof (cases "length acc < k")
    case False
    then show ?thesis using less.prems
      by (subst bt_read_exact_loop.simps) (simp add: exact_post_def bt_pend_def bt_sent_def)
  next
    case more: True
    show ?thesis
    proof (cases "read_pos b < read_len b")
      case True
      let ?c = "min (k - length acc) (length (available b))"
      let ?b1 = "b\<lparr>read_pos := read_pos b + ?c\<rparr>"
      have av: "0 < length (available b)" using True length_available [OF less.prems(1)] by simp
      have "exact_post ?b1 k (acc @ take ?c (available b))
          (bt_read_exact_loop rd ?b1 k (acc @ take ?c (available b)))"
        using av more bt_inv_consume [OF less.prems(1), of ?c]
        by (intro less.hyps; cases "available b") (auto simp: min_def True)
      then have "exact_post b k acc (bt_read_exact_loop rd ?b1 k (acc @ take ?c (available b)))"
        by (intro exact_post_consume [OF less.prems(1)]) auto
      then show ?thesis using True av more
        by (subst bt_read_exact_loop.simps) (auto simp: Let_def)
    next
      case False
      let ?b1 = "ensure_read_capacity (compact_read b) (k - length acc)"
      have i1: "bt_inv invar ?b1" using less.prems(1) by auto
      have av: "available b = []" using False less.prems(1) by (simp add: available_def bt_inv_def)
      then have av1: "available ?b1 = []" using less.prems(1) by simp
      have p: "bt_pend pend b = bt_pend pend ?b1" "bt_sent sent ?b1 = bt_sent sent b"
        using av av1 by (simp_all add: bt_pend_def bt_sent_def)
      obtain n b2 where r: "refill rd ?b1 = (Inr n, b2)" using refill_total by blast
      show ?thesis
      proof (cases "n = 0")
        case True
        have "read_len ?b1 < length (read_buf ?b1)"
          using ensure_capacity_room [OF bt_inv_compact [OF less.prems(1)], of "k - length acc"] more
          by simp
        from refill_eof [OF i1 r [unfolded True] av1 this] show ?thesis
          using False more r True p
          by (subst bt_read_exact_loop.simps) (auto simp: exact_post_def)
      next
        case nz: False
        let ?b3 = "b2\<lparr>read_len := read_len b2 + n\<rparr>"
        note ok = refill_ok [OF i1 r av1 nz]
        have "read_pos ?b3 < read_len ?b3"
          using refill_frame(1,2) [OF r] False nz by simp
        then have "exact_post ?b3 k acc (bt_read_exact_loop rd ?b3 k acc)"
          using ok less.prems False by (intro less.hyps) auto
        then have "exact_post b k acc (bt_read_exact_loop rd ?b3 k acc)"
          using ok p by (intro exact_post_pend [of b ?b3]) (auto simp: bt_sent_def)
        then show ?thesis using False more r nz
          by (subst bt_read_exact_loop.simps) simp
      qed
    qed
  qed
qed

lemma bt_read_exact_spec:
  assumes "bt_inv invar b"
  shows "fst (bt_read_exact rd b k) =
     (if k \<le> length (bt_pend pend b) then Ok (take k (bt_pend pend b)) else Err TeUnexpectedEof)"
    and "k \<le> length (bt_pend pend b) \<Longrightarrow>
     bt_pend pend (snd (bt_read_exact rd b k)) = drop k (bt_pend pend b)"
    and "bt_inv invar (snd (bt_read_exact rd b k))"
  using read_exact_loop [OF assms, of "[]" k]
  by (auto simp: exact_post_def bt_read_exact_def split: prod.splits if_splits)

end

subsection \<open>The mock and the buffered mock are transports\<close>

definition mock_pend :: "mock_transport \<Rightarrow> bytes" where
  "mock_pend m = (if closed m then [] else drop (m_read_pos m) (read_data m))"

interpretation mock: reliable_transport mock_read mock_write_all mock_pend written "\<lambda>_. True"
proof (unfold_locales, goal_cases)
  case (1 t k bs t')
  then show ?case
    by (auto simp: mock_read_def mock_pend_def Let_def intro!: take_drop_split split: if_splits)
next
  case (2 t k t')
  then show ?case
    by (auto simp: mock_read_def mock_pend_def Let_def split: if_splits)
next
  case (3 t k e t')
  then show ?case by (auto simp: mock_read_def Let_def split: if_splits)
next
  case (4 t bs u t')
  then show ?case by (auto simp: mock_write_all_def mock_pend_def split: if_splits)
next
  case (5 t bs e t')
  then show ?case by (auto simp: mock_write_all_def mock_pend_def split: if_splits)
next
  case (6 t k)
  then show ?case by (auto simp: mock_read_def Let_def)
qed

interpretation bmock: reliable_transport "bt_read mock_read" "bt_write_all mock_write_all"
  "bt_pend mock_pend" "bt_sent written" "bt_inv (\<lambda>_. True)"
  by (rule mock.buffered_reliable)

lemma mock_read_exact_loop:
  assumes "length acc \<le> k" "n = k - length acc"
  shows "if n \<le> length (mock_pend m)
     then fst (mock_read_exact m k acc) = Ok (acc @ take n (mock_pend m))
          \<and> mock_pend (snd (mock_read_exact m k acc)) = drop n (mock_pend m)
     else fst (mock_read_exact m k acc) = Err TeUnexpectedEof"
  using assms
proof (induction m k acc arbitrary: n rule: mock_read_exact.induct)
  case (1 m k acc)
  obtain bs m' where r: "mock_read m (k - length acc) = (Inr bs, m')" using mock.read_total by blast
  note ok = mock.read_ok [OF TrueI r]
  show ?case
  proof (cases "length acc < k \<and> bs \<noteq> []")
    case True
    have "length (acc @ bs) \<le> k" using True ok by auto
    from 1(1) [OF _ r [symmetric] refl _ this refl] True ok r 1(3) show ?thesis
      by (subst (1 2 3) mock_read_exact.simps) (auto split: if_splits)
  next
    case False
    then show ?thesis using r ok mock.read_eof [OF TrueI, of m "k - length acc" m'] 1(2,3)
      by (subst (1 2 3) mock_read_exact.simps) auto
  qed
qed

lemma mock_read_exact_spec:
  "fst (mock_read_exact m k []) = (if k \<le> length (mock_pend m) then Ok (take k (mock_pend m)) else Err TeUnexpectedEof)"
  "k \<le> length (mock_pend m) \<Longrightarrow> mock_pend (snd (mock_read_exact m k [])) = drop k (mock_pend m)"
  using mock_read_exact_loop [of "[]" k k m] by (simp_all split: if_splits)

subsection \<open>Properties\<close>

text \<open>A caller that asks for messages of the sizes \<open>ks\<close> with \<open>read_exact\<close> and gives up at the first error.\<close>

fun exact_reads :: "'t reader \<Rightarrow> 't \<Rightarrow> nat list \<Rightarrow> (transport_error, bytes) res list" where
  "exact_reads rx t [] = []"
| "exact_reads rx t (k # ks) =
     (case rx t k of (Inl e, _) \<Rightarrow> [Err e] | (Inr bs, t') \<Rightarrow> Ok bs # exact_reads rx t' ks)"

text \<open>The reference: cutting a byte sequence at the given sizes.\<close>

fun cut_at :: "bytes \<Rightarrow> nat list \<Rightarrow> (transport_error, bytes) res list" where
  "cut_at bs [] = []"
| "cut_at bs (k # ks) =
     (if k \<le> length bs then Ok (take k bs) # cut_at (drop k bs) ks else [Err TeUnexpectedEof])"

lemma exact_reads_cut:
  assumes "\<And>t k. iv t \<Longrightarrow> fst (rx t k) = (if k \<le> length (pd t) then Ok (take k (pd t)) else Err TeUnexpectedEof)"
    and "\<And>t k. iv t \<Longrightarrow> k \<le> length (pd t) \<Longrightarrow> pd (snd (rx t k)) = drop k (pd t)"
    and "\<And>t k. iv t \<Longrightarrow> iv (snd (rx t k))"
    and "iv t"
  shows "exact_reads rx t ks = cut_at (pd t) ks"
  using assms(4)
proof (induction ks arbitrary: t)
  case (Cons k ks)
  obtain r t' where r: "rx t k = (r, t')" by fastforce
  show ?case using assms(1,2,3) [OF Cons.prems, of k] Cons.IH [of t'] r by simp
qed simp

text \<open>
  Buffering is transparent: for a transport that hands out its bytes in chunks of any size, and
  for any capacity of the read buffer, a sequence of \<open>read_exact\<close> calls through
  \<open>BufferedTransport\<close> returns exactly what the same calls return on the transport itself, which is
  the incoming byte stream cut at the requested sizes, with \<open>UnexpectedEof\<close> for the first request
  that the stream cannot fill.
\<close>

lemma buffered_reads_transparent:
  "exact_reads (bt_read_exact mock_read) (with_capacity m cap) ks = cut_at (mock_pend m) ks \<and>
   exact_reads (\<lambda>m k. mock_read_exact m k []) m ks = cut_at (mock_pend m) ks"
proof
  have "bt_inv (\<lambda>_. True) (with_capacity m cap)" "bt_pend mock_pend (with_capacity m cap) = mock_pend m"
    by (simp_all add: with_capacity_def bt_inv_def bt_pend_def available_def)
  then show "exact_reads (bt_read_exact mock_read) (with_capacity m cap) ks = cut_at (mock_pend m) ks"
    using exact_reads_cut [of "bt_inv (\<lambda>_. True)" "bt_read_exact mock_read" "bt_pend mock_pend",
        OF mock.bt_read_exact_spec] by metis
  show "exact_reads (\<lambda>m k. mock_read_exact m k []) m ks = cut_at (mock_pend m) ks"
    by (rule exact_reads_cut [of "\<lambda>_. True"])
       (simp_all add: mock_read_exact_spec)
qed

text \<open>Writing a list of byte strings one after the other.\<close>

fun write_list :: "'t writer \<Rightarrow> 't \<Rightarrow> bytes list \<Rightarrow> (transport_error, unit) res \<times> 't" where
  "write_list wa t [] = (Ok (), t)"
| "write_list wa t (b # bs) = (case wa t b of (Inl e, t') \<Rightarrow> (Err e, t') | (Inr u, t') \<Rightarrow> write_list wa t' bs)"

lemma mock_flush_write:
  "\<not> closed (inner b) \<Longrightarrow> flush_write mock_write_all b =
     (Ok (), b\<lparr>inner := (inner b)\<lparr>written := written (inner b) @ write_buf b\<rparr>, write_buf := []\<rparr>)"
  by (simp add: flush_write_def mock_write_all_def)

lemma bt_write_list:
  assumes "\<not> closed (inner b)"
  shows "\<exists>b'. write_list (bt_write_all mock_write_all) b bs = (Ok (), b') \<and> \<not> closed (inner b') \<and>
     bt_sent written b' = bt_sent written b @ concat bs \<and>
     flushed (inner b') = flushed (inner b)"
  using assms
proof (induction bs arbitrary: b)
  case (Cons x bs)
  let ?b = "b\<lparr>write_buf := write_buf b @ x\<rparr>"
  obtain b1 where b1: "bt_write_all mock_write_all b x = (Ok (), b1)" "\<not> closed (inner b1)"
    "bt_sent written b1 = bt_sent written b @ x" "flushed (inner b1) = flushed (inner b)"
    using Cons.prems mock_flush_write [of ?b]
    by (cases "WRITE_BUFFER_FLUSH_THRESHOLD \<le> length (write_buf ?b)") (auto simp: bt_write_all_def Let_def bt_sent_def)
  then show ?case using Cons.IH [of b1] by simp
qed simp

text \<open>
  Nothing written through \<open>BufferedTransport\<close> is lost, duplicated or reordered: after any
  sequence of \<open>write_all\<close> calls, whatever their sizes relative to the flush threshold, a \<open>flush\<close>
  leaves the write buffer empty, the peer has received exactly the concatenation of what was
  written, and the inner transport has been flushed.
\<close>

lemma buffered_writes_delivered:
  assumes "\<not> closed (inner b)"
  shows "\<exists>b1 b2. write_list (bt_write_all mock_write_all) b bs = (Ok (), b1) \<and>
     bt_flush mock_write_all mock_flush b1 = (Ok (), b2) \<and> write_buf b2 = [] \<and>
     written (inner b2) = written (inner b) @ write_buf b @ concat bs \<and> flushed (inner b2)"
proof -
  obtain b1 where "write_list (bt_write_all mock_write_all) b bs = (Ok (), b1)" "\<not> closed (inner b1)"
    "bt_sent written b1 = bt_sent written b @ concat bs"
    using bt_write_list [OF assms] by blast
  then show ?thesis by (simp add: bt_flush_def mock_flush_write mock_flush_def bt_sent_def)
qed

end
