(* ===== verification/Protocol.thy ===== *)
theory Protocol
  imports Transport
begin

text \<open>
  The wire-protocol layer: format codes and transaction status (\<open>protocol/types.rs\<close>,
  \<open>types/format.rs\<close>), frontend and backend messages (\<open>protocol/frontend.rs\<close>,
  \<open>protocol/backend.rs\<close>), the bounded \<open>MessageBuffer\<close> (\<open>protocol/buffer.rs\<close>) and the \<open>Codec\<close> of
  \<open>auth/mod.rs\<close>.  The byte-level parser \<open>Message::parse\<close> and the byte-level encoders belong to the
  crate \<open>postgres_protocol\<close>; they are parameters (\<open>parse\<close>, and the record \<open>frontend_lib\<close>).
\<close>

subsection \<open>Codes\<close>

datatype format_code = Text | Binary

definition format_from_u16 :: "nat \<Rightarrow> format_code option" where
  "format_from_u16 v = (if v = 0 then Some Text else if v = 1 then Some Binary else None)"

definition format_to_u16 :: "format_code \<Rightarrow> nat" where
  "format_to_u16 f = (case f of Text \<Rightarrow> 0 | Binary \<Rightarrow> 1)"

definition format_to_i16 :: "format_code \<Rightarrow> int" where
  "format_to_i16 f = (case f of Text \<Rightarrow> 0 | Binary \<Rightarrow> 1)"

definition format_try_from :: "int \<Rightarrow> (string, format_code) res" where
  "format_try_from v = (if v = 0 then Ok Text else if v = 1 then Ok Binary
                        else Err ''invalid format code'')"

datatype transaction_status = TIdle | InTransaction | Failed

definition status_from_u8 :: "char \<Rightarrow> transaction_status option" where
  "status_from_u8 b = (if b = CHR ''I'' then Some TIdle
                       else if b = CHR ''T'' then Some InTransaction
                       else if b = CHR ''E'' then Some Failed else None)"

definition status_to_u8 :: "transaction_status \<Rightarrow> char" where
  "status_to_u8 s = (case s of TIdle \<Rightarrow> CHR ''I'' | InTransaction \<Rightarrow> CHR ''T'' | Failed \<Rightarrow> CHR ''E'')"

subsection \<open>Messages\<close>

record field_description =
  fd_name :: string
  table_oid :: nat
  column_id :: int
  type_oid :: nat
  type_size :: int
  type_modifier :: int
  fd_format :: int

datatype frontend_message =
    Startup "(string \<times> string) list"
  | SslRequest
  | CancelRequest int int
  | Query string
  | Parse string string "nat list"
  | Bind string string "format_code list" "bytes option list" "format_code list"
  | Describe char string
  | Execute string int
  | Close char string
  | Sync
  | Flush
  | FCopyData bytes
  | FCopyDone
  | CopyFail string
  | PasswordMessage bytes
  | SaslInitialResponse string bytes
  | SaslResponse bytes
  | Terminate

text \<open>
  Bodies of backend messages are read through accessors that may fail; a body is the result of its
  accessor.
\<close>

datatype backend_message =
    AuthenticationOk
  | AuthenticationCleartextPassword
  | AuthenticationMd5Password bytes
  | AuthenticationSasl "(io_error, string list) res"
  | AuthenticationSaslContinue bytes
  | AuthenticationSaslFinal bytes
  | AuthenticationOther
  | BackendKeyData int int
  | BindComplete
  | CloseComplete
  | CommandComplete "(io_error, string) res"
  | CopyData bytes
  | CopyDone
  | CopyInResponse nat "(io_error, nat list) res"
  | CopyOutResponse nat "(io_error, nat list) res"
  | DataRow "(io_error, bytes option list) res"
  | EmptyQueryResponse
  | ErrorResponse error_body
  | NoData
  | NoticeResponse error_body
  | NotificationResponse int "(io_error, string) res" "(io_error, string) res"
  | ParameterDescription "(io_error, nat list) res"
  | ParameterStatus "(io_error, string) res" "(io_error, string) res"
  | ParseComplete
  | PortalSuspended
  | ReadyForQuery char
  | RowDescription "(io_error, field_description list) res"

subsection \<open>Encoding\<close>

text \<open>The encoders of \<open>postgres_protocol::message::frontend\<close>: each appends one message to a buffer.\<close>

record frontend_lib =
  startup_message :: "(string \<times> string) list \<Rightarrow> bytes \<Rightarrow> (io_error, bytes) res"
  ssl_request :: "bytes \<Rightarrow> bytes"
  cancel_request :: "int \<Rightarrow> int \<Rightarrow> bytes \<Rightarrow> bytes"
  fl_query :: "string \<Rightarrow> bytes \<Rightarrow> (io_error, bytes) res"
  fl_parse :: "string \<Rightarrow> string \<Rightarrow> nat list \<Rightarrow> bytes \<Rightarrow> (io_error, bytes) res"
  fl_bind :: "string \<Rightarrow> string \<Rightarrow> int list \<Rightarrow> bytes option list \<Rightarrow> int list \<Rightarrow> bytes \<Rightarrow> (unit, bytes) res"
  fl_describe :: "char \<Rightarrow> string \<Rightarrow> bytes \<Rightarrow> (io_error, bytes) res"
  fl_execute :: "string \<Rightarrow> int \<Rightarrow> bytes \<Rightarrow> (io_error, bytes) res"
  fl_close :: "char \<Rightarrow> string \<Rightarrow> bytes \<Rightarrow> (io_error, bytes) res"
  fl_sync :: "bytes \<Rightarrow> bytes"
  fl_flush :: "bytes \<Rightarrow> bytes"
  copy_data :: "bytes \<Rightarrow> bytes \<Rightarrow> (io_error, bytes) res"
  copy_done :: "bytes \<Rightarrow> bytes"
  copy_fail :: "string \<Rightarrow> bytes \<Rightarrow> (io_error, bytes) res"
  password_message :: "bytes \<Rightarrow> bytes \<Rightarrow> (io_error, bytes) res"
  sasl_initial_response :: "string \<Rightarrow> bytes \<Rightarrow> bytes \<Rightarrow> (io_error, bytes) res"
  sasl_response :: "bytes \<Rightarrow> bytes \<Rightarrow> (io_error, bytes) res"
  terminate :: "bytes \<Rightarrow> bytes"

definition bind_failed :: protocol_error where
  "bind_failed = PrIo \<lparr>kind = InvalidInput, io_message = ''bind encoding failed''\<rparr>"

fun encode :: "frontend_lib \<Rightarrow> frontend_message \<Rightarrow> bytes \<Rightarrow> (protocol_error, bytes) res" where
  "encode l (Startup ps) buf = map_err PrIo (startup_message l ps buf)"
| "encode l SslRequest buf = Ok (ssl_request l buf)"
| "encode l (CancelRequest pid key) buf = Ok (cancel_request l pid key buf)"
| "encode l (Query sql) buf = map_err PrIo (fl_query l sql buf)"
| "encode l (Parse nm sql pts) buf = map_err PrIo (fl_parse l nm sql pts buf)"
| "encode l (Bind portal stmt pf ps rf) buf =
     map_err (\<lambda>_. bind_failed)
       (fl_bind l portal stmt (map format_to_i16 pf) ps (map format_to_i16 rf) buf)"
| "encode l (Describe v nm) buf = map_err PrIo (fl_describe l v nm buf)"
| "encode l (Execute portal n) buf = map_err PrIo (fl_execute l portal n buf)"
| "encode l (Close v nm) buf = map_err PrIo (fl_close l v nm buf)"
| "encode l Sync buf = Ok (fl_sync l buf)"
| "encode l Flush buf = Ok (fl_flush l buf)"
| "encode l (FCopyData d) buf = map_err PrIo (copy_data l d buf)"
| "encode l FCopyDone buf = Ok (copy_done l buf)"
| "encode l (CopyFail m) buf = map_err PrIo (copy_fail l m buf)"
| "encode l (PasswordMessage p) buf = map_err PrIo (password_message l p buf)"
| "encode l (SaslInitialResponse m d) buf = map_err PrIo (sasl_initial_response l m d buf)"
| "encode l (SaslResponse d) buf = map_err PrIo (sasl_response l d buf)"
| "encode l Terminate buf = Ok (terminate l buf)"

subsection \<open>MessageBuffer\<close>

definition DEFAULT_MAX_BUFFERED_BYTES :: nat where
  "DEFAULT_MAX_BUFFERED_BYTES = 8 * 1024 * 1024"

record message_buffer =
  mb_inner :: bytes
  max_buffered_bytes :: nat

definition message_buffer_new :: message_buffer where
  "message_buffer_new = \<lparr> mb_inner = [], max_buffered_bytes = DEFAULT_MAX_BUFFERED_BYTES \<rparr>"

definition from_bytesmut :: "bytes \<Rightarrow> message_buffer" where
  "from_bytesmut b = \<lparr> mb_inner = b, max_buffered_bytes = DEFAULT_MAX_BUFFERED_BYTES \<rparr>"

definition with_max_buffered_bytes :: "nat \<Rightarrow> message_buffer" where
  "with_max_buffered_bytes n = \<lparr> mb_inner = [], max_buffered_bytes = n \<rparr>"

definition set_max_buffered_bytes :: "message_buffer \<Rightarrow> nat \<Rightarrow> message_buffer" where
  "set_max_buffered_bytes b n = b\<lparr>max_buffered_bytes := n\<rparr>"

definition extend :: "message_buffer \<Rightarrow> bytes \<Rightarrow> message_buffer" where
  "extend b d = b\<lparr>mb_inner := mb_inner b @ d\<rparr>"

definition try_extend :: "message_buffer \<Rightarrow> bytes \<Rightarrow> (protocol_error, unit) res \<times> message_buffer" where
  "try_extend b d =
     (let act = saturating_add usize_max (length (mb_inner b)) (length d) in
      if max_buffered_bytes b < act
      then (Err (PrBufferLimitExceeded (max_buffered_bytes b) act), b)
      else (Ok (), b\<lparr>mb_inner := mb_inner b @ d\<rparr>))"

type_synonym 'm parser = "bytes \<Rightarrow> (io_error, 'm option) res \<times> bytes"

definition next_message ::
  "'m parser \<Rightarrow> message_buffer \<Rightarrow> (protocol_error, 'm option) res \<times> message_buffer"
where
  "next_message parse b =
     (if max_buffered_bytes b < length (mb_inner b)
      then (Err (PrBufferLimitExceeded (max_buffered_bytes b) (length (mb_inner b))), b)
      else (case parse (mb_inner b) of (r, rest) \<Rightarrow> (map_err PrIo r, b\<lparr>mb_inner := rest\<rparr>)))"

definition clear_buffer :: "message_buffer \<Rightarrow> message_buffer" where
  "clear_buffer b = b\<lparr>mb_inner := []\<rparr>"

subsection \<open>Codec\<close>

record codec =
  c_read_buf :: message_buffer
  c_write_buf :: bytes

definition codec_new :: codec where
  "codec_new = \<lparr> c_read_buf = message_buffer_new, c_write_buf = [] \<rparr>"

text \<open>
  \<open>Codec::read_message\<close>.  \<open>script\<close> holds the results of the reads of the transport in order: an
  error, or the bytes one \<open>read\<close> returned (none at the end of the stream).  The loop waits when the
  script is used up: \<open>None\<close>.
\<close>

fun read_message ::
  "'m parser \<Rightarrow> message_buffer \<Rightarrow> (transport_error, bytes) res list \<Rightarrow>
   (auth_error, 'm) res option \<times> message_buffer \<times> (transport_error, bytes) res list"
where
  "read_message parse b [] =
     (case next_message parse b of
        (Inl e, b') \<Rightarrow> (Some (Err (AeProtocol e)), b', [])
      | (Inr (Some m), b') \<Rightarrow> (Some (Ok m), b', [])
      | (Inr None, b') \<Rightarrow> (None, b', []))"
| "read_message parse b (x # script) =
     (case next_message parse b of
        (Inl e, b') \<Rightarrow> (Some (Err (AeProtocol e)), b', x # script)
      | (Inr (Some m), b') \<Rightarrow> (Some (Ok m), b', x # script)
      | (Inr None, b') \<Rightarrow>
          (case x of
             Inl te \<Rightarrow> (Some (Err (AeTransport te)), b', script)
           | Inr chunk \<Rightarrow>
               if chunk = [] then (Some (Err (AeTransport TeUnexpectedEof)), b', script)
               else (case try_extend b' chunk of
                       (Inl e, b'') \<Rightarrow> (Some (Err (AeProtocol e)), b'', script)
                     | (Inr u, b'') \<Rightarrow> read_message parse b'' script)))"

definition encode_to_buffer :: "frontend_lib \<Rightarrow> codec \<Rightarrow> frontend_message \<Rightarrow> (auth_error, unit) res \<times> codec" where
  "encode_to_buffer l c msg =
     (case encode l msg [] of
        Inl e \<Rightarrow> (Err (AeProtocol e), c\<lparr>c_write_buf := []\<rparr>)
      | Inr buf \<Rightarrow> (Ok (), c\<lparr>c_write_buf := buf\<rparr>))"

definition encode_and_write ::
  "frontend_lib \<Rightarrow> 't writer \<Rightarrow> codec \<Rightarrow> 't \<Rightarrow> frontend_message \<Rightarrow> (auth_error, unit) res \<times> codec \<times> 't"
where
  "encode_and_write l wa c t msg =
     (case encode_to_buffer l c msg of
        (Inl e, c') \<Rightarrow> (Err e, c', t)
      | (Inr u, c') \<Rightarrow>
          (case wa t (c_write_buf c') of (r, t') \<Rightarrow> (map_err AeTransport r, c', t')))"

definition send ::
  "frontend_lib \<Rightarrow> 't writer \<Rightarrow> 't action \<Rightarrow> codec \<Rightarrow> 't \<Rightarrow> frontend_message \<Rightarrow>
   (auth_error, unit) res \<times> codec \<times> 't"
where
  "send l wa fl c t msg =
     (case encode_and_write l wa c t msg of
        (Inl e, c', t') \<Rightarrow> (Err e, c', t')
      | (Inr u, c', t') \<Rightarrow> (case fl t' of (r, t'') \<Rightarrow> (map_err AeTransport r, c', t'')))"

subsection \<open>Lemmas: buffer bound\<close>

lemma try_extend_bound:
  assumes "try_extend b d = (Inr u, b')" "max_buffered_bytes b < usize_max"
  shows "length (mb_inner b') \<le> max_buffered_bytes b'" "mb_inner b' = mb_inner b @ d"
    "max_buffered_bytes b' = max_buffered_bytes b"
  using assms saturating_add_gt [OF assms(2)]
  by (auto simp: try_extend_def Let_def split: if_splits)

lemma try_extend_ok:
  assumes "length (mb_inner b) + length d \<le> max_buffered_bytes b"
  shows "try_extend b d = (Ok (), b\<lparr>mb_inner := mb_inner b @ d\<rparr>)"
  using assms by (simp add: try_extend_def saturating_add_def Let_def)

lemma try_extend_err:
  assumes "try_extend b d = (Inl e, b')"
  shows "b' = b"
  using assms by (auto simp: try_extend_def Let_def split: if_splits)

lemma next_message_limit:
  "max_buffered_bytes (snd (next_message parse b)) = max_buffered_bytes b"
  by (simp add: next_message_def split: prod.splits)

text \<open>
  A parser that only consumes: it never grows the buffer.
\<close>

definition consuming :: "'m parser \<Rightarrow> bool" where
  "consuming parse = (\<forall>b. length (snd (parse b)) \<le> length b)"

lemma next_message_length:
  assumes "consuming parse"
  shows "length (mb_inner (snd (next_message parse b))) \<le> length (mb_inner b)"
  using assms by (auto simp: next_message_def consuming_def split: prod.splits)
    (metis snd_conv)

lemma read_message_bound:
  assumes "consuming parse" "max_buffered_bytes b < usize_max"
    "length (mb_inner b) \<le> max_buffered_bytes b"
  shows "length (mb_inner (fst (snd (read_message parse b script)))) \<le> max_buffered_bytes b"
  using assms(2,3)
proof (induction script arbitrary: b)
  case Nil
  then show ?case using next_message_length [OF assms(1), of b] 
    by (auto split: prod.splits sum.splits option.splits)
next
  case (Cons x script)
  obtain r b1 where n: "next_message parse b = (r, b1)" by fastforce
  have b1: "length (mb_inner b1) \<le> max_buffered_bytes b" "max_buffered_bytes b1 = max_buffered_bytes b"
    using next_message_length [OF assms(1), of b] next_message_limit [of parse b] n Cons.prems by auto
  show ?case
  proof (cases "\<exists>chunk. r = Inr None \<and> x = Inr chunk \<and> chunk \<noteq> []")
    case True
    then obtain chunk where c: "r = Inr None" "x = Inr chunk" "chunk \<noteq> []" by blast
    obtain r2 b2 where t: "try_extend b1 chunk = (r2, b2)" by fastforce
    show ?thesis
    proof (cases r2)
      case (Inl e)
      then show ?thesis using n c t b1 try_extend_err [of b1 chunk e b2] by simp
    next
      case (Inr u)
      note e = try_extend_bound [OF t [unfolded Inr]]
      then have "length (mb_inner (fst (snd (read_message parse b2 script)))) \<le> max_buffered_bytes b2"
        using b1 Cons.prems by (intro Cons.IH) auto
      then show ?thesis using n c t Inr e b1 Cons.prems by simp
    qed
  next
    case False
    then show ?thesis using n b1 by (auto split: prod.splits sum.splits option.splits)
  qed
qed

subsection \<open>Lemmas: segmentation independence\<close>

text \<open>
  What the codec relies on of \<open>Message::parse\<close>: an incomplete message leaves the buffer alone, and
  the outcome for a complete message (or a malformed header) does not change when more bytes follow.
\<close>

definition framing :: "'m parser \<Rightarrow> bool" where
  "framing parse =
     ((\<forall>b r. parse b = (Ok None, r) \<longrightarrow> r = b) \<and>
      (\<forall>b m r x. parse b = (Ok (Some m), r) \<longrightarrow> parse (b @ x) = (Ok (Some m), r @ x)) \<and>
      (\<forall>b e r x. parse b = (Err e, r) \<longrightarrow> fst (parse (b @ x)) = Err e))"

lemma framing_prefix:
  assumes "framing parse" "parse (p @ x) = (Ok (Some m), r)"
  shows "parse p = (Ok None, p) \<or> (\<exists>r'. parse p = (Ok (Some m), r') \<and> r = r' @ x)"
proof -
  obtain q r' where p: "parse p = (q, r')" by fastforce
  show ?thesis
  proof (cases q)
    case (Inl e)
    then show ?thesis using assms p unfolding framing_def by (metis Inl_Inr_False fst_conv)
  next
    case (Inr o1)
    then show ?thesis using assms p unfolding framing_def
      by (cases o1) (fastforce)+
  qed
qed

text \<open>All the bytes the codec still has to interpret, and a script without errors or end.\<close>

definition stream_bytes :: "message_buffer \<Rightarrow> (transport_error, bytes) res list \<Rightarrow> bytes" where
  "stream_bytes b script = mb_inner b @ concat (map (\<lambda>x. case x of Inl e \<Rightarrow> [] | Inr c \<Rightarrow> c) script)"

definition data_script :: "(transport_error, bytes) res list \<Rightarrow> bool" where
  "data_script script = (\<forall>x\<in>set script. \<exists>c. x = Inr c \<and> c \<noteq> [])"

lemma read_message_stream:
  assumes "framing parse" "data_script script"
    and "length (stream_bytes b script) \<le> max_buffered_bytes b"
    and "parse (stream_bytes b script) = (Ok (Some m), rest)"
  shows "\<exists>b' script'. read_message parse b script = (Some (Ok m), b', script')
           \<and> stream_bytes b' script' = rest \<and> data_script script'
           \<and> max_buffered_bytes b' = max_buffered_bytes b"
  using assms(2-4)
proof (induction script arbitrary: b)
  case Nil
  then show ?case by (simp add: next_message_def stream_bytes_def)
next
  case (Cons x script)
  then obtain c where c: "x = Inr c" "c \<noteq> []" "data_script script" by (auto simp: data_script_def)
  let ?x = "concat (map (\<lambda>x. case x of Inl e \<Rightarrow> [] | Inr c \<Rightarrow> c) script)"
  have lim: "\<not> max_buffered_bytes b < length (mb_inner b)"
    using Cons.prems by (simp add: stream_bytes_def)
  have pp: "parse (mb_inner b @ c @ ?x) = (Ok (Some m), rest)"
    using Cons.prems c by (simp add: stream_bytes_def)
  from framing_prefix [OF assms(1) this] show ?case
  proof
    assume n: "parse (mb_inner b) = (Ok None, mb_inner b)"
    let ?b = "b\<lparr>mb_inner := mb_inner b @ c\<rparr>"
    have "try_extend b c = (Ok (), ?b)"
      using Cons.prems c by (intro try_extend_ok) (simp add: stream_bytes_def)
    moreover have "next_message parse b = (Ok None, b)" using n lim by (simp add: next_message_def)
    ultimately have "read_message parse b (x # script) = read_message parse ?b script"
      using c by simp
    moreover have "stream_bytes ?b script = stream_bytes b (x # script)"
      using c by (simp add: stream_bytes_def)
    ultimately show ?thesis using Cons.IH [OF c(3), of ?b] Cons.prems c by simp
  next
    assume "\<exists>r'. parse (mb_inner b) = (Ok (Some m), r') \<and> rest = r' @ c @ ?x"
    then show ?thesis using lim c Cons.prems(1)
      by (auto simp: next_message_def stream_bytes_def)
  qed
qed

text \<open>Reading \<open>n\<close> messages one after the other.\<close>

fun read_messages ::
  "'m parser \<Rightarrow> nat \<Rightarrow> message_buffer \<Rightarrow> (transport_error, bytes) res list \<Rightarrow>
   (auth_error, 'm) res option list"
where
  "read_messages parse 0 b script = []"
| "read_messages parse (Suc n) b script =
     (case read_message parse b script of
        (r, b', script') \<Rightarrow> r # read_messages parse n b' script')"

text \<open>The messages at the front of a byte sequence, when there are \<open>n\<close> of them.\<close>

fun parse_n :: "'m parser \<Rightarrow> nat \<Rightarrow> bytes \<Rightarrow> 'm list option" where
  "parse_n parse 0 b = Some []"
| "parse_n parse (Suc n) b =
     (case parse b of
        (Inr (Some m), rest) \<Rightarrow> map_option ((#) m) (parse_n parse n rest)
      | _ \<Rightarrow> None)"

text \<open>
  The codec does not depend on how the network cuts the byte stream: if the bytes still to be
  interpreted (those buffered, then those of the reads to come, which may split messages anywhere or
  join several) start with \<open>n\<close> complete messages and fit the buffer limit, then \<open>n\<close> calls of
  \<open>read_message\<close> return exactly these messages, in order, none waiting and none failing.  Of the
  parser of the \<open>postgres_protocol\<close> crate it needs only that an incomplete message is left in the
  buffer, that a complete one is parsed the same whatever follows, and that it never adds bytes.
\<close>

lemma codec_segmentation_independent:
  assumes "framing parse" "consuming parse" "data_script script"
    and "length (stream_bytes b script) \<le> max_buffered_bytes b"
    and "parse_n parse n (stream_bytes b script) = Some ms"
  shows "read_messages parse n b script = map (\<lambda>m. Some (Ok m)) ms"
  using assms(3-)
proof (induction n arbitrary: b script ms)
  case (Suc n)
  obtain m rest ms' where p: "parse (stream_bytes b script) = (Ok (Some m), rest)"
    "parse_n parse n rest = Some ms'" "ms = m # ms'"
    using Suc.prems(3) by (auto split: prod.splits sum.splits option.splits)
  from read_message_stream [OF assms(1) Suc.prems(1,2) p(1)] obtain b' script' where
    r: "read_message parse b script = (Some (Ok m), b', script')" "stream_bytes b' script' = rest"
       "data_script script'" "max_buffered_bytes b' = max_buffered_bytes b" by blast
  have "length rest \<le> length (stream_bytes b script)"
    using assms(2) p(1) unfolding consuming_def by (metis snd_conv)
  then have "read_messages parse n b' script' = map (\<lambda>m. Some (Ok m)) ms'"
    using Suc.prems r p by (intro Suc.IH) auto
  then show ?case using r p by simp
qed simp

text \<open>A parser with one length byte, at which the hypotheses on the parser hold.\<close>

definition length_byte_parser :: "bytes parser" where
  "length_byte_parser b =
     (case b of
        [] \<Rightarrow> (Ok None, b)
      | n # rest \<Rightarrow> if unat n \<le> length rest then (Ok (Some (take (unat n) rest)), drop (unat n) rest)
                     else (Ok None, b))"

lemma length_byte_framing: "framing length_byte_parser"
  by (auto simp: framing_def length_byte_parser_def split: list.splits if_splits)

lemma length_byte_consuming: "consuming length_byte_parser"
  by (auto simp: consuming_def length_byte_parser_def split: list.splits)

text \<open>The buffer after a number of calls of \<open>read_message\<close>.\<close>

fun buffer_after :: "'m parser \<Rightarrow> nat \<Rightarrow> message_buffer \<Rightarrow> (transport_error, bytes) res list \<Rightarrow> message_buffer" where
  "buffer_after parse 0 b script = b"
| "buffer_after parse (Suc n) b script =
     (case read_message parse b script of (r, b', script') \<Rightarrow> buffer_after parse n b' script')"

lemma read_message_limit:
  "max_buffered_bytes (fst (snd (read_message parse b script))) = max_buffered_bytes b"
proof (induction script arbitrary: b)
  case Nil
  then show ?case using next_message_limit [of parse b] by (auto split: prod.splits sum.splits option.splits)
next
  case (Cons x script)
  obtain r b1 where n: "next_message parse b = (r, b1)" by fastforce
  then have "max_buffered_bytes b1 = max_buffered_bytes b" using next_message_limit [of parse b] by simp
  then show ?case using n Cons.IH
    by (auto simp: try_extend_def Let_def split: sum.splits option.splits)
qed

text \<open>
  C30.  The memory held for unparsed input is bounded: however many messages are read, and whatever the
  peer sends (errors, floods of bytes that never form a message), the buffer never holds more than
  \<open>max_buffered_bytes\<close>.
\<close>

theorem codec_buffer_bounded:
  assumes "consuming parse" "max_buffered_bytes b < usize_max" "length (mb_inner b) \<le> max_buffered_bytes b"
  shows "length (mb_inner (buffer_after parse n b script)) \<le> max_buffered_bytes b"
  using assms(2,3)
proof (induction n arbitrary: b script)
  case (Suc n)
  obtain r b' script' where r: "read_message parse b script = (r, b', script')" by (rule prod_cases3)
  then show ?case
    using Suc read_message_bound [OF assms(1) Suc.prems, of script] read_message_limit [of parse b script]
    by (metis (no_types, lifting) buffer_after.simps(2) case_prod_conv fst_conv snd_conv)
qed simp

theorem codec_buffer_bounded_witness:
  "length (mb_inner (buffer_after length_byte_parser 3 (with_max_buffered_bytes 4)
     [Ok [200, 1, 2, 3], Ok [4, 5, 6, 7], Ok [8, 9]])) \<le> 4"
  using codec_buffer_bounded [OF length_byte_consuming, of "with_max_buffered_bytes 4" 3
      "[Ok [200, 1, 2, 3], Ok [4, 5, 6, 7], Ok [8, 9]]"]
  by (simp add: with_max_buffered_bytes_def usize_max_def)

end
