(* ===== verification/Statement_Cache.thy ===== *)
theory Statement_Cache
  imports Protocol
begin

text \<open>
  Prepared statements (the data of \<open>query/prepared.rs\<close>) and their least-recently-used cache
  (\<open>query/cache.rs\<close>).  The hash map is an association list with one entry per key; only the order in
  which \<open>clear\<close> returns the statements depends on that choice.  The abstract view of a cache is the
  list of its statements, most recently used first; the locale \<open>lru_cache\<close> states the contract over
  that view.
\<close>

record prepared_statement =
  ps_name :: string
  ps_sql :: string
  param_types :: "nat list"
  ps_columns :: "field_description list"

record statement_cache =
  cache :: "(string \<times> prepared_statement) list"
  capacity :: nat
  order :: "string list"

definition cache_new :: "nat \<Rightarrow> statement_cache" where
  "cache_new n = \<lparr> cache = [], capacity = n, order = [] \<rparr>"

definition cache_len :: "statement_cache \<Rightarrow> nat" where
  "cache_len c = length (cache c)"

definition cache_is_empty :: "statement_cache \<Rightarrow> bool" where
  "cache_is_empty c = (cache c = [])"

definition retain_ne :: "string \<Rightarrow> string list \<Rightarrow> string list" where
  "retain_ne s xs = filter (\<lambda>x. x \<noteq> s) xs"

definition map_remove :: "string \<Rightarrow> (string \<times> 'v) list \<Rightarrow> (string \<times> 'v) list" where
  "map_remove k m = filter (\<lambda>p. fst p \<noteq> k) m"

definition cache_get :: "statement_cache \<Rightarrow> string \<Rightarrow> prepared_statement option \<times> statement_cache" where
  "cache_get c sql =
     (if map_of (cache c) sql \<noteq> None
      then (map_of (cache c) sql, c\<lparr>order := sql # retain_ne sql (order c)\<rparr>)
      else (None, c))"

definition cache_insert ::
  "statement_cache \<Rightarrow> prepared_statement \<Rightarrow> prepared_statement option \<times> statement_cache"
where
  "cache_insert c stmt =
     (let sql = ps_sql stmt;
          ord = retain_ne sql (order c);
          (evicted, ord', m) =
            (if capacity c \<le> length (cache c) \<and> map_of (cache c) sql = None
             then (if ord = [] then (None, ord, cache c)
                   else (let old_sql = last ord
                         in (map_of (cache c) old_sql, butlast ord, map_remove old_sql (cache c))))
             else (None, ord, cache c))
      in (evicted, c\<lparr>cache := amap_insert sql stmt m, order := sql # ord'\<rparr>))"

definition cache_remove :: "statement_cache \<Rightarrow> string \<Rightarrow> prepared_statement option \<times> statement_cache" where
  "cache_remove c sql =
     (map_of (cache c) sql,
      c\<lparr>cache := map_remove sql (cache c), order := retain_ne sql (order c)\<rparr>)"

definition cache_clear :: "statement_cache \<Rightarrow> prepared_statement list \<times> statement_cache" where
  "cache_clear c = (map snd (cache c), c\<lparr>cache := [], order := []\<rparr>)"

lemma find_snoc_other: "\<not> P x \<Longrightarrow> find P (xs @ [x]) = find P xs"
  by (induction xs) auto

subsection \<open>Contract of a least-recently-used cache\<close>

locale lru_cache =
  fixes new :: "nat \<Rightarrow> 'c"
    and get :: "'c \<Rightarrow> 'k \<Rightarrow> 'v option \<times> 'c"
    and ins :: "'c \<Rightarrow> 'v \<Rightarrow> 'v option \<times> 'c"
    and rem :: "'c \<Rightarrow> 'k \<Rightarrow> 'v option \<times> 'c"
    and key :: "'v \<Rightarrow> 'k" and cap :: "'c \<Rightarrow> nat"
    and recency :: "'c \<Rightarrow> 'v list" and invar :: "'c \<Rightarrow> bool"
  assumes new_spec: "invar (new n) \<and> recency (new n) = [] \<and> cap (new n) = n"
    and keys_distinct: "invar c \<Longrightarrow> distinct (map key (recency c))"
    and get_spec: "invar c \<Longrightarrow> get c k = (r, c') \<Longrightarrow>
      invar c' \<and> cap c' = cap c \<and> r = find (\<lambda>v. key v = k) (recency c) \<and>
      recency c' = (case r of None \<Rightarrow> recency c
                    | Some v \<Rightarrow> v # filter (\<lambda>x. key x \<noteq> k) (recency c))"
    and ins_spec: "invar c \<Longrightarrow> ins c v = (e, c') \<Longrightarrow>
      invar c' \<and> cap c' = cap c \<and>
      (if cap c \<le> length (recency c) \<and> key v \<notin> key ` set (recency c) \<and> recency c \<noteq> []
       then e = Some (last (recency c)) \<and> recency c' = v # butlast (recency c)
       else e = None \<and> recency c' = v # filter (\<lambda>x. key x \<noteq> key v) (recency c))"
    and rem_spec: "invar c \<Longrightarrow> rem c k = (r, c') \<Longrightarrow>
      invar c' \<and> cap c' = cap c \<and> r = find (\<lambda>v. key v = k) (recency c) \<and>
      recency c' = filter (\<lambda>x. key x \<noteq> k) (recency c)"
begin

definition contents :: "'c \<Rightarrow> 'k \<Rightarrow> 'v option" where
  "contents c k = find (\<lambda>v. key v = k) (recency c)"

lemma find_key_map_of: "find (\<lambda>v. key v = k) xs = map_of (map (\<lambda>v. (key v, v)) xs) k"
  by (induction xs) auto

lemma get_after_insert:
  assumes "invar c" "ins c v = (e, c')"
  shows "fst (get c' (key v)) = Some v"
proof -
  obtain r d where g: "get c' (key v) = (r, d)" by fastforce
  have i: "invar c'" using ins_spec [OF assms] by simp
  have "\<exists>xs. recency c' = v # xs" using ins_spec [OF assms] by (auto split: if_splits)
  then show ?thesis using get_spec [OF i g] g by auto
qed

lemma insert_length:
  assumes "invar c" "ins c v = (e, c')"
  shows "length (recency c') \<le> max (length (recency c)) (max 1 (cap c))"
proof -
  let ?L = "recency c" and ?f = "filter (\<lambda>x. key x \<noteq> key v) (recency c)"
  note s = ins_spec [OF assms]
  have le: "length ?f \<le> length ?L" by simp
  consider (evict) "cap c \<le> length ?L \<and> key v \<notin> key ` set ?L \<and> ?L \<noteq> []"
    | (present) "key v \<in> key ` set ?L" | (room) "length ?L < cap c" "recency c' = v # ?f"
    | (empty) "?L = []"
    using s by fastforce
  then show ?thesis
  proof cases
    case evict
    then show ?thesis using s by (cases ?L rule: rev_cases) auto
  next
    case present
    then have "length ?f < length ?L" by (auto intro!: length_filter_less)
    then show ?thesis using s present by simp
  next
    case room
    then have "Suc (length ?f) \<le> cap c" using le by linarith
    then show ?thesis using room by simp
  next
    case empty
    then show ?thesis using s by simp
  qed
qed

lemma insert_bound:
  assumes "invar c" "ins c v = (e, c')" "length (recency c) \<le> max 1 (cap c)"
  shows "length (recency c') \<le> max 1 (cap c')"
  using insert_length [OF assms(1,2)] ins_spec [OF assms(1,2)] assms(3) by auto

lemma get_bound:
  assumes "invar c" "get c k = (r, c')"
  shows "length (recency c') = length (recency c)"
proof (cases r)
  case None
  then show ?thesis using get_spec [OF assms] by simp
next
  case (Some v)
  note g = get_spec [OF assms]
  have v: "v \<in> set (recency c)" "key v = k"
    using g Some by (auto dest!: sym [of "Some v"] simp: find_Some_iff)
  have "length (filter (\<lambda>x. key x = k) (recency c)) = 1"
  proof -
    have "distinct (map key (filter (\<lambda>x. key x = k) (recency c)))"
      using keys_distinct [OF assms(1)] by (simp add: distinct_map_filter)
    moreover have "set (map key (filter (\<lambda>x. key x = k) (recency c))) = {k}" using v by auto
    ultimately show ?thesis by (metis card.empty card_insert_disjoint distinct_card empty_iff
          finite.emptyI length_map One_nat_def)
  qed
  then have "Suc (length (filter (\<lambda>x. key x \<noteq> k) (recency c))) = length (recency c)"
    using sum_length_filter_compl [of "\<lambda>x. key x = k" "recency c"] by simp
  then show ?thesis using g Some by simp
qed

lemma insert_keeps_others:
  assumes "invar c" "ins c v = (e, c')" "k \<noteq> key v" "\<forall>x. e = Some x \<longrightarrow> key x \<noteq> k"
  shows "contents c' k = contents c k"
proof -
  note s = ins_spec [OF assms(1,2)]
  let ?L = "recency c"
  show ?thesis
  proof (cases "cap c \<le> length ?L \<and> key v \<notin> key ` set ?L \<and> ?L \<noteq> []")
    case True
    then have r: "recency c' = v # butlast ?L" "key (last ?L) \<noteq> k" using s assms(4) by auto
    have "?L = butlast ?L @ [last ?L]" using True by simp
    then have "find (\<lambda>v. key v = k) ?L = find (\<lambda>v. key v = k) (butlast ?L)"
      using r(2) find_snoc_other [of "\<lambda>v. key v = k" "last ?L" "butlast ?L"] by simp
    then show ?thesis using r assms(3) by (simp add: contents_def)
  next
    case False
    then have "recency c' = v # filter (\<lambda>x. key x \<noteq> key v) ?L" using s by auto
    moreover have "find (\<lambda>v. key v = k) (filter (\<lambda>x. key x \<noteq> key v) xs) = find (\<lambda>v. key v = k) xs" for xs
      using assms(3) by (induction xs) auto
    ultimately show ?thesis using assms(3) by (simp add: contents_def)
  qed
qed

end

subsection \<open>The statement cache implements the contract\<close>

definition cache_inv :: "statement_cache \<Rightarrow> bool" where
  "cache_inv c = (distinct (map fst (cache c)) \<and> distinct (order c)
     \<and> set (order c) = fst ` set (cache c) \<and> (\<forall>(k, s)\<in>set (cache c). ps_sql s = k))"

definition cache_recency :: "statement_cache \<Rightarrow> prepared_statement list" where
  "cache_recency c = map (\<lambda>k. the (map_of (cache c) k)) (order c)"

lemma cache_inv_lookup:
  assumes "cache_inv c" "k \<in> set (order c)"
  shows "\<exists>s. map_of (cache c) k = Some s \<and> ps_sql s = k"
proof -
  have "k \<in> fst ` set (cache c)" using assms by (simp add: cache_inv_def)
  then obtain s where s: "map_of (cache c) k = Some s" by (metis map_of_eq_None_iff option.exhaust)
  then show ?thesis using assms(1) map_of_SomeD [OF s] by (auto simp: cache_inv_def)
qed

lemma cache_inv_None:
  assumes "cache_inv c"
  shows "map_of (cache c) k = None \<longleftrightarrow> k \<notin> set (order c)"
  using assms by (simp add: cache_inv_def map_of_eq_None_iff)

lemma cache_inv_length: "cache_inv c \<Longrightarrow> length (order c) = length (cache c)"
  unfolding cache_inv_def by (metis distinct_card length_map list.set_map)

lemma recency_keys: "cache_inv c \<Longrightarrow> map ps_sql (cache_recency c) = order c"
  unfolding cache_recency_def using cache_inv_lookup by (fastforce intro: map_idI)

lemma recency_length [simp]: "length (cache_recency c) = length (order c)"
  by (simp add: cache_recency_def)

lemma recency_find:
  assumes "cache_inv c"
  shows "find (\<lambda>s. ps_sql s = k) (cache_recency c) = map_of (cache c) k"
proof -
  have key: "ps_sql (the (map_of (cache c) x)) = x" if "x \<in> set (order c)" for x
    using cache_inv_lookup [OF assms that] by auto
  have "find (\<lambda>s. ps_sql s = k) (map (\<lambda>x. the (map_of (cache c) x)) xs) =
      (if k \<in> set xs then Some (the (map_of (cache c) k)) else None)" if "set xs \<subseteq> set (order c)" for xs
    using that by (induction xs) (auto simp: key)
  from this [of "order c"] show ?thesis
    using cache_inv_None [OF assms, of k] unfolding cache_recency_def by auto
qed

lemma recency_filter:
  assumes "cache_inv c"
  shows "filter (\<lambda>s. ps_sql s \<noteq> k) (cache_recency c) =
         map (\<lambda>x. the (map_of (cache c) x)) (retain_ne k (order c))"
proof -
  have key: "ps_sql (the (map_of (cache c) x)) = x" if "x \<in> set (order c)" for x
    using cache_inv_lookup [OF assms that] by auto
  have "filter (\<lambda>s. ps_sql s \<noteq> k) (map (\<lambda>x. the (map_of (cache c) x)) xs) =
        map (\<lambda>x. the (map_of (cache c) x)) (retain_ne k xs)" if "set xs \<subseteq> set (order c)" for xs
    using that by (induction xs) (auto simp: retain_ne_def key)
  then show ?thesis by (simp add: cache_recency_def)
qed

lemma map_of_map_remove: "map_of (map_remove k m) = (map_of m)(k := None)"
  by (induction m) (auto simp: map_remove_def fun_eq_iff)

lemma keys_map_remove: "fst ` set (map_remove k m) = fst ` set m - {k}"
  by (auto simp: map_remove_def)

lemma set_map_remove: "set (map_remove k m) \<subseteq> set m"
  by (auto simp: map_remove_def)

lemma distinct_map_remove: "distinct (map fst m) \<Longrightarrow> distinct (map fst (map_remove k m))"
  by (simp add: map_remove_def distinct_map_filter)

lemma set_amap_insert: "set (amap_insert k v m) \<subseteq> insert (k, v) (set m)"
  by (induction k v m rule: amap_insert.induct) auto

lemma cache_get_spec:
  assumes "cache_inv c" "cache_get c k = (r, c')"
  shows "cache_inv c' \<and> capacity c' = capacity c \<and> r = find (\<lambda>v. ps_sql v = k) (cache_recency c) \<and>
      cache_recency c' = (case r of None \<Rightarrow> cache_recency c
                    | Some v \<Rightarrow> v # filter (\<lambda>x. ps_sql x \<noteq> k) (cache_recency c))"
proof (cases "map_of (cache c) k")
  case None
  then show ?thesis using assms recency_find [OF assms(1)] by (simp add: cache_get_def)
next
  case (Some s)
  then have c': "c' = c\<lparr>order := k # retain_ne k (order c)\<rparr>" "r = Some s"
    using assms(2) by (auto simp: cache_get_def)
  have "k \<in> set (order c)" using Some cache_inv_None [OF assms(1), of k] by auto
  then have "cache_inv c'" using assms(1) c' by (auto simp: cache_inv_def retain_ne_def)
  then show ?thesis
    using c' Some recency_find [OF assms(1)] recency_filter [OF assms(1), of k]
    by (simp add: cache_recency_def)
qed

lemma cache_remove_spec:
  assumes "cache_inv c" "cache_remove c k = (r, c')"
  shows "cache_inv c' \<and> capacity c' = capacity c \<and> r = find (\<lambda>v. ps_sql v = k) (cache_recency c) \<and>
      cache_recency c' = filter (\<lambda>x. ps_sql x \<noteq> k) (cache_recency c)"
proof -
  have c': "c' = c\<lparr>cache := map_remove k (cache c), order := retain_ne k (order c)\<rparr>"
    "r = map_of (cache c) k" using assms(2) by (auto simp: cache_remove_def)
  have "cache_inv c'" using assms(1) set_map_remove [of k "cache c"] unfolding c' cache_inv_def
    by (auto simp: retain_ne_def keys_map_remove distinct_map_remove)
  moreover have "cache_recency c' = map (\<lambda>x. the (map_of (cache c) x)) (retain_ne k (order c))"
    using c' by (auto simp: cache_recency_def retain_ne_def map_of_map_remove)
  ultimately show ?thesis
    using c' recency_find [OF assms(1)] recency_filter [OF assms(1), of k] by simp
qed

text \<open>Storing a statement under its key at the front of a list of other keys.\<close>

lemma cache_store_inv:
  assumes "distinct (map fst m)" "distinct ord" "\<forall>(k, s)\<in>set m. ps_sql s = k"
    and "set ord = fst ` set m - {ps_sql v}"
  shows "cache_inv (c\<lparr>cache := amap_insert (ps_sql v) v m, order := ps_sql v # ord\<rparr>)"
    and "cache_recency (c\<lparr>cache := amap_insert (ps_sql v) v m, order := ps_sql v # ord\<rparr>)
         = v # map (\<lambda>x. the (map_of m x)) ord"
  using assms set_amap_insert [of "ps_sql v" v m]
  by (auto simp: cache_inv_def cache_recency_def distinct_amap_insert)

lemma cache_insert_spec:
  assumes "cache_inv c" "cache_insert c v = (e, c')"
  shows "cache_inv c' \<and> capacity c' = capacity c \<and>
      (if capacity c \<le> length (cache_recency c) \<and> ps_sql v \<notin> ps_sql ` set (cache_recency c)
          \<and> cache_recency c \<noteq> []
       then e = Some (last (cache_recency c)) \<and> cache_recency c' = v # butlast (cache_recency c)
       else e = None \<and> cache_recency c' = v # filter (\<lambda>x. ps_sql x \<noteq> ps_sql v) (cache_recency c))"
    (is "_ \<and> _ \<and> (if ?ev then _ else _)")
proof -
  let ?k = "ps_sql v"
  have keys: "ps_sql ` set (cache_recency c) = set (order c)"
    using recency_keys [OF assms(1)] by (metis list.set_map)
  have len: "length (cache_recency c) = length (cache c)"
    using cache_inv_length [OF assms(1)] by simp
  note inv = assms(1) [unfolded cache_inv_def]
  show ?thesis
  proof (cases ?ev)
    case True
    then have k: "?k \<notin> set (order c)" "order c \<noteq> []" "map_of (cache c) ?k = None"
      "retain_ne ?k (order c) = order c"
      using keys cache_inv_None [OF assms(1)]
      by (auto simp: cache_recency_def retain_ne_def filter_id_conv)
    obtain ys y where o: "order c = ys @ [y]" using k(2) by (cases "order c" rule: rev_cases) auto
    let ?m = "map_remove y (cache c)"
    have r: "e = map_of (cache c) y" "c' = c\<lparr>cache := amap_insert ?k v ?m, order := ?k # ys\<rparr>"
      using assms(2) True k len o by (auto simp: cache_insert_def Let_def)
    have d: "distinct ys" "y \<notin> set ys" "fst ` set (cache c) = insert y (set ys)"
      using inv o by auto
    have st: "distinct (map fst ?m)" "\<forall>(k, s)\<in>set ?m. ps_sql s = k" "set ys = fst ` set ?m - {?k}"
      using inv d k(1) o set_map_remove [of y "cache c"]
      by (auto simp: distinct_map_remove keys_map_remove)
    have "map (\<lambda>x. the (map_of ?m x)) ys = butlast (cache_recency c)"
      using d o by (auto simp: cache_recency_def map_of_map_remove)
    moreover have "e = Some (last (cache_recency c))"
      using r(1) cache_inv_lookup [OF assms(1), of y] o by (auto simp: cache_recency_def)
    ultimately show ?thesis
      using True r(2) cache_store_inv [OF st(1) d(1) st(2) st(3), of c] by simp
  next
    case False
    then have "\<not> (capacity c \<le> length (cache c) \<and> map_of (cache c) ?k = None
                  \<and> retain_ne ?k (order c) \<noteq> [])"
      using keys len cache_inv_None [OF assms(1), of ?k]
      by (auto simp: cache_recency_def retain_ne_def)
    then have r: "e = None" "c' = c\<lparr>cache := amap_insert ?k v (cache c), order := ?k # retain_ne ?k (order c)\<rparr>"
      using assms(2) by (auto simp: cache_insert_def Let_def split: if_splits)
    have st: "distinct (retain_ne ?k (order c))" "set (retain_ne ?k (order c)) = fst ` set (cache c) - {?k}"
      using inv by (auto simp: retain_ne_def)
    show ?thesis
      using False r cache_store_inv [of "cache c" "retain_ne ?k (order c)" v c] inv st
        recency_filter [OF assms(1), of ?k] by auto
  qed
qed

interpretation sc: lru_cache cache_new cache_get cache_insert cache_remove ps_sql capacity
  cache_recency cache_inv
proof (unfold_locales, goal_cases)
  case (1 n)
  then show ?case by (simp add: cache_new_def cache_inv_def cache_recency_def)
next
  case (2 c)
  then show ?case using recency_keys [OF 2] by (simp add: cache_inv_def)
next
  case (3 c k r c')
  then show ?case by (rule cache_get_spec)
next
  case (4 c v e c')
  then show ?case by (rule cache_insert_spec)
next
  case (5 c k r c')
  then show ?case by (rule cache_remove_spec)
qed

subsection \<open>Sequences of operations\<close>

datatype cache_op = OpGet string | OpInsert prepared_statement | OpRemove string | OpClear

fun cache_step :: "statement_cache \<Rightarrow> cache_op \<Rightarrow> statement_cache" where
  "cache_step c (OpGet k) = snd (cache_get c k)"
| "cache_step c (OpInsert s) = snd (cache_insert c s)"
| "cache_step c (OpRemove k) = snd (cache_remove c k)"
| "cache_step c OpClear = snd (cache_clear c)"

definition cache_run :: "statement_cache \<Rightarrow> cache_op list \<Rightarrow> statement_cache" where
  "cache_run c ops = foldl cache_step c ops"

lemma cache_step_inv:
  assumes "cache_inv c" "length (cache_recency c) \<le> max 1 (capacity c)"
  shows "cache_inv (cache_step c op) \<and> capacity (cache_step c op) = capacity c
         \<and> length (cache_recency (cache_step c op)) \<le> max 1 (capacity c)"
proof (cases op)
  case (OpGet k)
  obtain r c' where g: "cache_get c k = (r, c')" by fastforce
  then show ?thesis using OpGet assms sc.get_spec [OF assms(1) g] sc.get_bound [OF assms(1) g] by simp
next
  case (OpInsert s)
  obtain e c' where g: "cache_insert c s = (e, c')" by fastforce
  then show ?thesis using OpInsert sc.ins_spec [OF assms(1) g] sc.insert_bound [OF assms(1) g assms(2)]
    by simp
next
  case (OpRemove k)
  obtain r c' where g: "cache_remove c k = (r, c')" by fastforce
  then show ?thesis
    using OpRemove assms sc.rem_spec [OF assms(1) g]
      length_filter_le [of "\<lambda>x. ps_sql x \<noteq> k" "cache_recency c"] by simp
next
  case OpClear
  then show ?thesis by (simp add: cache_clear_def cache_inv_def cache_recency_def)
qed

lemma cache_run_inv:
  assumes "cache_inv c" "length (cache_recency c) \<le> max 1 (capacity c)"
  shows "cache_inv (cache_run c ops) \<and> capacity (cache_run c ops) = capacity c
         \<and> length (cache_recency (cache_run c ops)) \<le> max 1 (capacity c)"
  using assms
proof (induction ops arbitrary: c)
  case Nil
  then show ?case by (simp add: cache_run_def)
next
  case (Cons op ops)
  from cache_step_inv [OF Cons.prems, of op] Cons.IH [of "cache_step c op"]
  show ?case by (simp add: cache_run_def)
qed

subsection \<open>Properties\<close>

text \<open>The reference: a bounded list of statements, most recently used first.\<close>

fun lru_step :: "nat \<Rightarrow> prepared_statement list \<Rightarrow> cache_op \<Rightarrow> prepared_statement list" where
  "lru_step n xs (OpGet k) =
     (case find (\<lambda>s. ps_sql s = k) xs of
        None \<Rightarrow> xs
      | Some s \<Rightarrow> s # filter (\<lambda>x. ps_sql x \<noteq> k) xs)"
| "lru_step n xs (OpInsert s) =
     (if n \<le> length xs \<and> ps_sql s \<notin> ps_sql ` set xs \<and> xs \<noteq> [] then s # butlast xs
      else s # filter (\<lambda>x. ps_sql x \<noteq> ps_sql s) xs)"
| "lru_step n xs (OpRemove k) = filter (\<lambda>x. ps_sql x \<noteq> k) xs"
| "lru_step n xs OpClear = []"

definition lru_of :: "nat \<Rightarrow> cache_op list \<Rightarrow> prepared_statement list" where
  "lru_of n ops = foldl (lru_step n) [] ops"

lemma cache_step_lru:
  assumes "cache_inv c"
  shows "cache_recency (cache_step c op) = lru_step (capacity c) (cache_recency c) op"
proof (cases op)
  case (OpGet k)
  obtain r c' where g: "cache_get c k = (r, c')" by fastforce
  then show ?thesis using OpGet sc.get_spec [OF assms g] by simp
next
  case (OpInsert s)
  obtain e c' where g: "cache_insert c s = (e, c')" by fastforce
  then show ?thesis using OpInsert sc.ins_spec [OF assms g] by (simp split: if_splits)
next
  case (OpRemove k)
  obtain r c' where g: "cache_remove c k = (r, c')" by fastforce
  then show ?thesis using OpRemove sc.rem_spec [OF assms g] by simp
next
  case OpClear
  then show ?thesis by (simp add: cache_clear_def cache_recency_def)
qed

lemma cache_run_lru:
  assumes "cache_inv c" "length (cache_recency c) \<le> max 1 (capacity c)"
  shows "cache_recency (cache_run c ops) = foldl (lru_step (capacity c)) (cache_recency c) ops"
  using assms
proof (induction ops arbitrary: c)
  case (Cons op ops)
  note st = cache_step_inv [OF Cons.prems, of op]
  have "cache_recency (cache_run (cache_step c op) ops)
      = foldl (lru_step (capacity (cache_step c op))) (cache_recency (cache_step c op)) ops"
    using st by (intro Cons.IH) simp_all
  then show ?case using st cache_step_lru [OF Cons.prems(1), of op] by (simp add: cache_run_def)
qed (simp add: cache_run_def)

lemma cache_new_ok:
  "cache_inv (cache_new n)" "length (cache_recency (cache_new n)) \<le> max 1 (capacity (cache_new n))"
  "cache_recency (cache_new n) = []" "capacity (cache_new n) = n"
  by (simp_all add: cache_new_def cache_inv_def cache_recency_def)

text \<open>
  C31.  The statement cache is a least-recently-used cache: after any sequence of operations on a new
  cache, \<open>get\<close> returns what the reference list holds under the SQL text, \<open>insert\<close> of a new text into a
  full cache evicts exactly the statement at the end of that list (the one used least recently) and
  otherwise evicts nothing, and \<open>remove\<close> returns the statement it drops.
\<close>

theorem cache_refines_lru:
  "fst (cache_get (cache_run (cache_new n) ops) k) = find (\<lambda>s. ps_sql s = k) (lru_of n ops) \<and>
   fst (cache_remove (cache_run (cache_new n) ops) k) = find (\<lambda>s. ps_sql s = k) (lru_of n ops) \<and>
   fst (cache_insert (cache_run (cache_new n) ops) s) =
     (if n \<le> length (lru_of n ops) \<and> ps_sql s \<notin> ps_sql ` set (lru_of n ops) \<and> lru_of n ops \<noteq> []
      then Some (last (lru_of n ops)) else None) \<and>
   cache_len (cache_run (cache_new n) ops) = length (lru_of n ops)"
proof -
  let ?c = "cache_run (cache_new n) ops"
  have i: "cache_inv ?c" "capacity ?c = n" "cache_recency ?c = lru_of n ops"
    using cache_run_inv [OF cache_new_ok(1,2)] cache_run_lru [OF cache_new_ok(1,2)]
    by (simp_all add: cache_new_ok lru_of_def)
  show ?thesis
    using sc.get_spec [OF i(1) prod.collapse [symmetric]] sc.rem_spec [OF i(1) prod.collapse [symmetric]]
      sc.ins_spec [OF i(1) prod.collapse [symmetric]] i(2,3) cache_inv_length [OF i(1)] recency_length [of ?c]
    by (auto simp: cache_len_def split: if_splits)
qed

text \<open>
  After any sequence of operations on a new cache the hash map and the recency list describe the
  same statements, each once and under its own SQL text, and the cache holds at most \<open>capacity\<close>
  statements (one, if the capacity is zero).
\<close>

lemma cache_bounded:
  "cache_inv (cache_run (cache_new n) ops) \<and> cache_len (cache_run (cache_new n) ops) \<le> max 1 n"
  using cache_run_inv [OF cache_new_ok(1,2) [of n], of ops] cache_inv_length [of "cache_run (cache_new n) ops"]
  by (simp add: cache_len_def cache_new_ok)

text \<open>
  What has just been inserted is found, and an insertion touches no other statement than the one
  it evicts.
\<close>

lemma cache_insert_lookup:
  assumes "cache_inv c" "cache_insert c s = (evicted, c')"
  shows "fst (cache_get c' (ps_sql s)) = Some s \<and>
     (\<forall>k. k \<noteq> ps_sql s \<and> evicted = None \<longrightarrow> fst (cache_get c' k) = fst (cache_get c k)) \<and>
     (\<forall>e k. evicted = Some e \<and> k \<noteq> ps_sql s \<and> k \<noteq> ps_sql e \<longrightarrow> fst (cache_get c' k) = fst (cache_get c k)) \<and>
     (\<forall>e. evicted = Some e \<longrightarrow> fst (cache_get c' (ps_sql e)) = None)"
proof -
  have i: "cache_inv c'" using sc.ins_spec [OF assms] by simp
  have g: "fst (cache_get d k) = sc.contents d k" if "cache_inv d" for d k
    using sc.get_spec [OF that prod.collapse [symmetric]] by (simp add: sc.contents_def)
  have "sc.contents c' (ps_sql e) = None" if e: "evicted = Some e" for e
  proof -
    have r: "e = last (cache_recency c)" "cache_recency c' = s # butlast (cache_recency c)"
      "cache_recency c \<noteq> []" "ps_sql s \<notin> ps_sql ` set (cache_recency c)"
      using sc.ins_spec [OF assms] e by (auto split: if_splits)
    then have "cache_recency c = butlast (cache_recency c) @ [e]" by simp
    then have "distinct (map ps_sql (butlast (cache_recency c)) @ [ps_sql e])"
      using sc.keys_distinct [OF assms(1)] by (metis list.simps(8,9) map_append)
    moreover have "ps_sql s \<noteq> ps_sql e" using r by auto
    ultimately show ?thesis using r(2)
      by (simp add: sc.contents_def find_None_iff image_iff) metis
  qed
  then show ?thesis
    using sc.get_after_insert [OF assms] sc.insert_keeps_others [OF assms] g [OF i] g [OF assms(1)] by auto
qed

end
