(* ===== verification/Retry.thy ===== *)
theory Retry
  imports Pg_Error
begin

text \<open>
  Retry loops and back-off: \<open>ReconnectConfig\<close> and \<open>StaleConfig\<close> (\<open>reconnect/config.rs\<close>),
  \<open>RetryPolicy\<close> (\<open>reconnect/retry.rs\<close>) and the two helpers of \<open>error/retry.rs\<close>.  A \<open>Duration\<close> is
  its number of nanoseconds; multiplying a \<open>Duration\<close> past its range panics, which is \<open>None\<close>.
  The operation that is retried is a state transformer \<open>f\<close>; sleeping is recorded in a list.
  The loops share the contract \<open>retry_loop\<close>.
\<close>

subsection \<open>Durations and back-off\<close>

definition duration_max :: nat where
  "duration_max = u64_max * 1000000000 + 999999999"

definition millis :: "nat \<Rightarrow> nat" where "millis n = n * 1000000"
definition secs :: "nat \<Rightarrow> nat" where "secs n = n * 1000000000"

definition duration_mul :: "nat \<Rightarrow> nat \<Rightarrow> nat option" where
  "duration_mul d k = (if d * k \<le> duration_max then Some (d * k) else None)"

record reconnect_config =
  enabled :: bool
  max_attempts :: nat
  initial_delay :: nat
  max_delay :: nat
  rebuild_session_flag :: bool
  allow_mid_transaction :: bool
  on_before_reconnect :: bool

definition default_reconnect_config :: reconnect_config where
  "default_reconnect_config = \<lparr> enabled = False, max_attempts = 3, initial_delay = millis 100,
     max_delay = secs 10, rebuild_session_flag = True, allow_mid_transaction = False,
     on_before_reconnect = False \<rparr>"

definition reconnect_config_enabled :: reconnect_config where
  "reconnect_config_enabled = default_reconnect_config\<lparr>enabled := True\<rparr>"

definition clone_reconnect_config :: "reconnect_config \<Rightarrow> reconnect_config" where
  "clone_reconnect_config c = c\<lparr>on_before_reconnect := False\<rparr>"

definition reconnect_delay_for_attempt :: "reconnect_config \<Rightarrow> nat \<Rightarrow> nat option" where
  "reconnect_delay_for_attempt c attempt =
     (let multiplier = saturating_pow u32_max 2 (attempt - 1) in
      map_option (\<lambda>d. min d (max_delay c)) (duration_mul (initial_delay c) multiplier))"

record stale_config =
  stale_threshold :: nat
  ping_on_stale :: bool

definition default_stale_config :: stale_config where
  "default_stale_config = \<lparr> stale_threshold = secs 30, ping_on_stale = True \<rparr>"

record retry_policy =
  rp_max_attempts :: nat
  rp_initial_delay :: nat
  rp_max_delay :: nat

definition default_retry_policy :: retry_policy where
  "default_retry_policy =
     \<lparr> rp_max_attempts = 3, rp_initial_delay = millis 100, rp_max_delay = secs 10 \<rparr>"

definition no_retry :: retry_policy where
  "no_retry = \<lparr> rp_max_attempts = 1, rp_initial_delay = 0, rp_max_delay = 0 \<rparr>"

definition fixed_delay :: "nat \<Rightarrow> nat \<Rightarrow> retry_policy" where
  "fixed_delay n d = \<lparr> rp_max_attempts = n, rp_initial_delay = d, rp_max_delay = d \<rparr>"

definition exponential_backoff :: "nat \<Rightarrow> nat \<Rightarrow> nat \<Rightarrow> retry_policy" where
  "exponential_backoff n d m = \<lparr> rp_max_attempts = n, rp_initial_delay = d, rp_max_delay = m \<rparr>"

definition policy_delay_for_attempt :: "retry_policy \<Rightarrow> nat \<Rightarrow> nat option" where
  "policy_delay_for_attempt p attempt =
     (let multiplier = saturating_pow u32_max 2 (attempt - 1) in
      map_option (\<lambda>d. min d (rp_max_delay p)) (duration_mul (rp_initial_delay p) multiplier))"

subsection \<open>The loops\<close>

text \<open>
  \<open>RetryPolicy::retry\<close>.  The error \<open>None\<close> is the panic of the delay computation.
\<close>

function policy_retry ::
  "retry_policy \<Rightarrow> ('s \<Rightarrow> ('e, 'a) res \<times> 's) \<Rightarrow> nat \<Rightarrow> 's \<Rightarrow> nat list \<Rightarrow>
   ('e option, 'a) res \<times> ('s \<times> nat list)"
where
  "policy_retry p f attempt s slept =
     (let attempt' = attempt + 1; (r, s') = f s in
      case r of
        Inr v \<Rightarrow> (Inr v, (s', slept))
      | Inl err \<Rightarrow>
          if rp_max_attempts p \<le> attempt' then (Inl (Some err), (s', slept))
          else (case policy_delay_for_attempt p attempt' of
                  None \<Rightarrow> (Inl None, (s', slept))
                | Some d \<Rightarrow> policy_retry p f attempt' s' (slept @ [d])))"
  by pat_completeness auto
termination
  by (relation "measure (\<lambda>(p, f, attempt, s, slept). rp_max_attempts p - attempt)") auto

declare policy_retry.simps [simp del]

function with_retry_err ::
  "nat \<Rightarrow> ('c \<Rightarrow> (pg_error, 'a) res \<times> 'c) \<Rightarrow> nat \<Rightarrow> 'c \<Rightarrow> (pg_error, 'a) res \<times> 'c"
where
  "with_retry_err max_retries f attempt conn =
     (let (r, conn') = f conn in
      case r of
        Inr v \<Rightarrow> (Inr v, conn')
      | Inl (PgServer e) \<Rightarrow>
          if is_serialization_failure e \<and> attempt < max_retries
          then with_retry_err max_retries f (attempt + 1) conn'
          else if is_deadlock_detected e \<and> attempt < max_retries
          then with_retry_err max_retries f (attempt + 1) conn'
          else (Inl (PgServer e), conn')
      | Inl e \<Rightarrow> (Inl e, conn'))"
  by pat_completeness auto
termination
  by (relation "measure (\<lambda>(m, f, attempt, c). m - attempt)") auto

declare with_retry_err.simps [simp del]

function with_retry_any ::
  "nat \<Rightarrow> ('c \<Rightarrow> (pg_error, 'a) res \<times> 'c) \<Rightarrow> nat \<Rightarrow> 'c \<Rightarrow> (pg_error, 'a) res \<times> 'c"
where
  "with_retry_any max_retries f attempt conn =
     (let (r, conn') = f conn in
      case r of
        Inr v \<Rightarrow> (Inr v, conn')
      | Inl e \<Rightarrow>
          if is_retryable e \<and> attempt < max_retries
          then with_retry_any max_retries f (attempt + 1) conn'
          else (Inl e, conn'))"
  by pat_completeness auto
termination
  by (relation "measure (\<lambda>(m, f, attempt, c). m - attempt)") auto

declare with_retry_any.simps [simp del]

subsection \<open>The contract of a bounded retry loop\<close>

text \<open>The state before the \<open>k\<close>-th call of an operation that starts with attempt number \<open>n\<close>.\<close>

fun iter_op :: "(nat \<Rightarrow> 's \<Rightarrow> 'r \<times> 's) \<Rightarrow> nat \<Rightarrow> nat \<Rightarrow> 's \<Rightarrow> 's" where
  "iter_op f n 0 s = s"
| "iter_op f n (Suc k) s = iter_op f (Suc n) k (snd (f n s))"

lemma iter_op_const_Suc: "iter_op (\<lambda>_. g) n k s = iter_op (\<lambda>_. g) m k s"
  by (induction k arbitrary: n m s) auto

text \<open>The attempt that ends a loop with retry decision \<open>again\<close>.\<close>

definition stops_at ::
  "(nat \<Rightarrow> 's \<Rightarrow> ('e, 'a) res \<times> 's) \<Rightarrow> ('e \<Rightarrow> nat \<Rightarrow> bool) \<Rightarrow> nat \<Rightarrow> 's \<Rightarrow> bool"
where
  "stops_at op again n s = (case fst (op n s) of Inr v \<Rightarrow> True | Inl e \<Rightarrow> \<not> again e n)"

text \<open>
  \<open>op\<close> is one attempt, \<open>again e n\<close> the decision to retry after error \<open>e\<close> of attempt \<open>n\<close>, \<open>limit\<close>
  the attempt number from which no retry happens.
\<close>

locale retry_loop =
  fixes op :: "nat \<Rightarrow> 's \<Rightarrow> ('e, 'a) res \<times> 's"
    and run :: "nat \<Rightarrow> 's \<Rightarrow> ('e, 'a) res \<times> 's"
    and again :: "'e \<Rightarrow> nat \<Rightarrow> bool"
    and limit :: nat
  assumes run_eq: "run n s = (case op n s of
             (Inr v, s') \<Rightarrow> (Inr v, s')
           | (Inl e, s') \<Rightarrow> if again e n then run (Suc n) s' else (Inl e, s'))"
    and again_bounded: "again e n \<Longrightarrow> n < limit"
begin

lemma run_stops: "stops_at op again n s \<Longrightarrow> run n s = op n s"
  by (subst run_eq) (auto simp: stops_at_def split: prod.splits sum.splits)

lemma run_continues: "\<not> stops_at op again n s \<Longrightarrow> run n s = run (Suc n) (snd (op n s))"
  by (subst run_eq) (auto simp: stops_at_def split: prod.splits sum.splits)

lemma stops_at_limit: "limit \<le> n \<Longrightarrow> stops_at op again n s"
  using again_bounded by (force simp: stops_at_def split: sum.splits)

lemma run_attempt:
  "\<exists>k. k \<le> limit - n \<and> run n s = op (n + k) (iter_op op n k s) \<and> stops_at op again (n + k) (iter_op op n k s)
     \<and> (\<forall>j<k. \<not> stops_at op again (n + j) (iter_op op n j s))"
proof (induction "limit - n" arbitrary: n s)
  case 0
  then have "stops_at op again n s" by (intro stops_at_limit) simp
  then show ?case by (intro exI [of _ 0]) (simp add: run_stops)
next
  case (Suc m)
  show ?case
  proof (cases "stops_at op again n s")
    case True
    then show ?thesis by (intro exI [of _ 0]) (simp add: run_stops)
  next
    case False
    from Suc(2) have "m = limit - Suc n" by simp
    from Suc(1) [OF this, of "snd (op n s)"] obtain k where k: "k \<le> limit - Suc n"
      "run (Suc n) (snd (op n s)) = op (Suc n + k) (iter_op op (Suc n) k (snd (op n s)))"
      "stops_at op again (Suc n + k) (iter_op op (Suc n) k (snd (op n s)))"
      "\<forall>j<k. \<not> stops_at op again (Suc n + j) (iter_op op (Suc n) j (snd (op n s)))" by blast
    have "\<not> stops_at op again (n + j) (iter_op op n j s)" if "j < Suc k" for j
      using k(4) that False by (cases j) auto
    then show ?thesis using k False Suc(2)
      by (intro exI [of _ "Suc k"]) (auto simp: run_continues)
  qed
qed

lemma run_ok_iff:
  "(\<exists>v. fst (run n s) = Inr v) \<longleftrightarrow>
   (\<exists>k. (\<exists>v. fst (op (n + k) (iter_op op n k s)) = Inr v)
        \<and> (\<forall>j<k. \<not> stops_at op again (n + j) (iter_op op n j s)))"
  (is "?L \<longleftrightarrow> (\<exists>k. ?R k)")
proof -
  obtain k where k: "run n s = op (n + k) (iter_op op n k s)" "stops_at op again (n + k) (iter_op op n k s)"
    "\<forall>j<k. \<not> stops_at op again (n + j) (iter_op op n j s)" using run_attempt by blast
  have "k = i" if "?R i" for i
  proof -
    have "stops_at op again (n + i) (iter_op op n i s)" using that by (auto simp: stops_at_def)
    then show ?thesis using k(2,3) that by (metis linorder_neqE_nat)
  qed
  then show ?thesis using k by metis
qed

end

lemma with_retry_err_eq:
  "with_retry_err m f n s = (case f s of
      (Inr v, s') \<Rightarrow> (Inr v, s')
    | (Inl e, s') \<Rightarrow> if (\<exists>se. e = PgServer se \<and> (is_serialization_failure se \<or> is_deadlock_detected se))
                        \<and> n < m
                    then with_retry_err m f (Suc n) s' else (Inl e, s'))"
  by (subst with_retry_err.simps) (auto split: prod.splits sum.splits pg_error.splits)

interpretation wre: retry_loop "\<lambda>_. f" "with_retry_err m f"
  "\<lambda>e n. (\<exists>se. e = PgServer se \<and> (is_serialization_failure se \<or> is_deadlock_detected se)) \<and> n < m" m
  for f m
  by unfold_locales (subst with_retry_err_eq, auto)

interpretation wra: retry_loop "\<lambda>_. f" "with_retry_any m f" "\<lambda>e n. is_retryable e \<and> n < m" m
  for f m
proof (unfold_locales, goal_cases)
  case (1 n s)
  show ?case by (subst with_retry_any.simps) (auto split: prod.splits sum.splits)
qed simp

text \<open>One attempt of the policy loop with the sleep that follows it.\<close>

definition policy_attempt ::
  "retry_policy \<Rightarrow> ('s \<Rightarrow> ('e, 'a) res \<times> 's) \<Rightarrow> nat \<Rightarrow> 's \<times> nat list \<Rightarrow>
   ('e option, 'a) res \<times> ('s \<times> nat list)"
where
  "policy_attempt p f n st =
     (let (s, slept) = st; (r, s') = f s in
      case r of
        Inr v \<Rightarrow> (Inr v, (s', slept))
      | Inl e \<Rightarrow> if rp_max_attempts p \<le> n + 1 then (Inl (Some e), (s', slept))
                else (case policy_delay_for_attempt p (n + 1) of
                        None \<Rightarrow> (Inl None, (s', slept))
                      | Some d \<Rightarrow> (Inl (Some e), (s', slept @ [d]))))"

interpretation pol: retry_loop "policy_attempt p f"
  "\<lambda>n st. policy_retry p f n (fst st) (snd st)" "\<lambda>e n. e \<noteq> None \<and> n + 1 < rp_max_attempts p"
  "rp_max_attempts p - 1"
  for p f
proof (unfold_locales, goal_cases)
  case (1 n s)
  show ?case
    by (subst policy_retry.simps)
      (auto simp: policy_attempt_def split: prod.splits sum.splits option.splits)
qed auto

subsection \<open>Facts about the back-off\<close>

lemma pow_mono_sat: "a \<le> b \<Longrightarrow> saturating_pow m 2 a \<le> saturating_pow m 2 b"
proof -
  assume "a \<le> b"
  then have "(2::nat) ^ a \<le> 2 ^ b" by (intro power_increasing) simp_all
  then show ?thesis unfolding saturating_pow_def by (rule min.mono) simp
qed

lemma policy_delay_Some:
  "policy_delay_for_attempt p a = Some d \<longleftrightarrow>
   rp_initial_delay p * saturating_pow u32_max 2 (a - 1) \<le> duration_max \<and>
   d = min (rp_initial_delay p * saturating_pow u32_max 2 (a - 1)) (rp_max_delay p)"
  by (auto simp: policy_delay_for_attempt_def duration_mul_def Let_def)

lemma policy_delay_no_panic:
  assumes "rp_initial_delay p * u32_max \<le> duration_max"
  shows "policy_delay_for_attempt p a \<noteq> None"
proof -
  have "rp_initial_delay p * saturating_pow u32_max 2 (a - 1) \<le> rp_initial_delay p * u32_max"
    by (simp add: saturating_pow_def)
  also note assms
  finally show ?thesis by (simp add: policy_delay_for_attempt_def duration_mul_def Let_def)
qed

lemma policy_delay_mono:
  assumes "policy_delay_for_attempt p a = Some d" "policy_delay_for_attempt p b = Some d'" "a \<le> b"
  shows "d \<le> d'"
proof -
  have "saturating_pow u32_max 2 (a - 1) \<le> saturating_pow u32_max 2 (b - 1)"
    using assms(3) by (intro pow_mono_sat) simp
  then have "rp_initial_delay p * saturating_pow u32_max 2 (a - 1)
      \<le> rp_initial_delay p * saturating_pow u32_max 2 (b - 1)" by simp
  then show ?thesis using assms(1,2) unfolding policy_delay_Some by linarith
qed

subsection \<open>Properties\<close>

definition retried :: "(pg_error, 'a) res \<Rightarrow> bool" where
  "retried r = (case r of Inl (PgServer se) \<Rightarrow> is_serialization_failure se \<or> is_deadlock_detected se | _ \<Rightarrow> False)"

lemma stops_at_retried:
  "stops_at (\<lambda>_. f) (\<lambda>e n. (\<exists>se. e = PgServer se \<and> (is_serialization_failure se \<or> is_deadlock_detected se)) \<and> n < m)
     j s \<longleftrightarrow> \<not> retried (fst (f s)) \<or> m \<le> j"
proof (cases "fst (f s)")
  case (Inl e)
  then show ?thesis by (cases e) (auto simp: retried_def stops_at_def)
qed (simp add: retried_def stops_at_def)

text \<open>
  \<open>with_retry\<close> of \<open>error/retry.rs\<close> returns exactly what some attempt number \<open>k \<le> max_retries\<close> of the
  operation returned; every earlier attempt failed with a serialization failure or a deadlock, and
  the attempt that is returned either succeeded, failed with another error, or was the last allowed
  one.  So the loop always ends, after at most \<open>max_retries + 1\<close> calls.
\<close>

lemma with_retry_returns_attempt:
  fixes f :: "'c \<Rightarrow> (pg_error, 'a) res \<times> 'c"
  shows "\<exists>k. k \<le> m \<and> with_retry_err m f 0 s = f (iter_op (\<lambda>_. f) 0 k s) \<and>
     list_all (\<lambda>j. retried (fst (f (iter_op (\<lambda>_. f) 0 j s)))) [0..<k] \<and>
     (k = m \<or> \<not> retried (fst (f (iter_op (\<lambda>_. f) 0 k s))))"
proof -
  obtain k where k: "k \<le> m" "with_retry_err m f 0 s = f (iter_op (\<lambda>_. f) 0 k s)"
    "stops_at (\<lambda>_. f) (\<lambda>e n. (\<exists>se. e = PgServer se \<and> (is_serialization_failure se \<or> is_deadlock_detected se)) \<and> n < m)
       k (iter_op (\<lambda>_. f) 0 k s)"
    "\<forall>j<k. \<not> stops_at (\<lambda>_. f) (\<lambda>e n. (\<exists>se. e = PgServer se \<and> (is_serialization_failure se \<or> is_deadlock_detected se)) \<and> n < m)
       j (iter_op (\<lambda>_. f) 0 j s)"
    using wre.run_attempt [of m 0 f s] by auto
  then show ?thesis unfolding stops_at_retried
    by (intro exI [of _ k]) (auto simp: list_all_iff)
qed

lemma with_retry_returns_attempt_witness:
  "\<exists>k. k \<le> 3 \<and> with_retry_err 3 (\<lambda>n::nat. if n < 2 then (Err PgTimeout, n + 1) else (Ok n, n)) 0 0
     = (\<lambda>n. if n < 2 then (Err PgTimeout, n + 1) else (Ok n, n))
         (iter_op (\<lambda>_ n. if n < 2 then (Err PgTimeout, n + 1) else (Ok n, n)) 0 k 0)"
  using with_retry_returns_attempt [of 3 "\<lambda>n::nat. if n < 2 then (Err PgTimeout, n + 1) else (Ok n, n)" 0] by blast

lemma policy_retry_sleeps:
  assumes "policy_retry p f n s slept = (r, (s', slept'))"
  shows "\<exists>ds. slept' = slept @ ds \<and> length ds \<le> rp_max_attempts p - (n + 1) \<and>
     (\<forall>i<length ds. policy_delay_for_attempt p (n + 1 + i) = Some (ds ! i)) \<and>
     (r = Inl None \<longrightarrow> (\<exists>a. policy_delay_for_attempt p a = None))"
  using assms
proof (induction p f n s slept rule: policy_retry.induct)
  case (1 p f n s slept)
  obtain q s1 where f: "f s = (q, s1)" by fastforce
  show ?case
  proof (cases "\<exists>e d. q = Inl e \<and> \<not> rp_max_attempts p \<le> n + 1 \<and> policy_delay_for_attempt p (n + 1) = Some d")
    case True
    then obtain e d where q: "q = Inl e" "\<not> rp_max_attempts p \<le> n + 1"
      "policy_delay_for_attempt p (n + 1) = Some d" by blast
    have "policy_retry p f (n + 1) s1 (slept @ [d]) = (r, (s', slept'))"
      using 1(2) f q by (subst (asm) policy_retry.simps) (simp add: Let_def)
    from 1(1) [OF refl f [symmetric] refl q(1,2,3) this] obtain ds where
      ds: "slept' = (slept @ [d]) @ ds" "length ds \<le> rp_max_attempts p - (n + 1 + 1)"
      "\<forall>i<length ds. policy_delay_for_attempt p (n + 1 + 1 + i) = Some (ds ! i)"
      "r = Inl None \<longrightarrow> (\<exists>a. policy_delay_for_attempt p a = None)" by blast
    have "policy_delay_for_attempt p (n + 1 + i) = Some ((d # ds) ! i)" if "i < length (d # ds)" for i
      using that ds(3) q(3) by (cases i) auto
    then show ?thesis using ds q(2) by (intro exI [of _ "d # ds"]) auto
  next
    case False
    then show ?thesis using 1(2) f
      by (subst (asm) policy_retry.simps) (auto simp: Let_def split: sum.splits if_splits option.splits)
  qed
qed

text \<open>
  \<open>RetryPolicy::retry\<close> sleeps at most \<open>max_attempts - 1\<close> times, the \<open>i\<close>-th sleep is the back-off of
  attempt \<open>i\<close> and none is longer than the configured maximum; the loop panics only if a back-off
  overflows.
\<close>

lemma policy_retry_bounded:
  assumes "policy_retry p f 0 s [] = (r, (s', slept))"
  shows "length slept \<le> rp_max_attempts p - 1 \<and>
     (\<forall>i<length slept. policy_delay_for_attempt p (i + 1) = Some (slept ! i) \<and> slept ! i \<le> rp_max_delay p) \<and>
     (rp_initial_delay p * u32_max \<le> duration_max \<longrightarrow> r \<noteq> Inl None)"
proof -
  obtain ds where ds: "slept = [] @ ds" "length ds \<le> rp_max_attempts p - (0 + 1)"
    "\<forall>i<length ds. policy_delay_for_attempt p (0 + 1 + i) = Some (ds ! i)"
    "r = Inl None \<longrightarrow> (\<exists>a. policy_delay_for_attempt p a = None)"
    using policy_retry_sleeps [OF assms] by blast
  have "policy_delay_for_attempt p (i + 1) = Some (slept ! i) \<and> slept ! i \<le> rp_max_delay p"
    if "i < length slept" for i
    using ds(1,3) that policy_delay_Some [of p "i + 1" "slept ! i"] by simp
  moreover have "r \<noteq> Inl None" if "rp_initial_delay p * u32_max \<le> duration_max"
    using ds(4) policy_delay_no_panic [OF that] by (metis option.distinct(1))
  ultimately show ?thesis using ds(1,2) by auto
qed

text \<open>
  Exponential back-off: for the first 32 attempts the delay is exactly \<open>initial * 2^(n-1)\<close>
  capped by the maximum, it never exceeds the maximum, never decreases from one attempt to a later
  one, and computing it cannot overflow unless the initial delay exceeds \<open>u64::MAX\<close> seconds divided
  by \<open>u32::MAX\<close>.
\<close>

lemma backoff_exact:
  assumes "rp_initial_delay p * u32_max \<le> duration_max" "1 \<le> a" "a \<le> b"
  shows "\<exists>d d'. policy_delay_for_attempt p a = Some d \<and> policy_delay_for_attempt p b = Some d' \<and>
     d \<le> d' \<and> d' \<le> rp_max_delay p \<and>
     (a \<le> 32 \<longrightarrow> d = min (rp_initial_delay p * 2 ^ (a - 1)) (rp_max_delay p))"
proof -
  obtain d d' where d: "policy_delay_for_attempt p a = Some d" "policy_delay_for_attempt p b = Some d'"
    using policy_delay_no_panic [OF assms(1)] by blast
  have "saturating_pow u32_max 2 (a - 1) = 2 ^ (a - 1)" if "a \<le> 32"
  proof -
    have "(2::nat) ^ (a - 1) \<le> 2 ^ 31" using that by (intro power_increasing) auto
    then show ?thesis by (simp add: saturating_pow_def u32_max_def)
  qed
  then show ?thesis using d policy_delay_mono [OF d assms(3)] unfolding policy_delay_Some by auto
qed

lemma backoff_exact_witness:
  "\<exists>d d'. policy_delay_for_attempt default_retry_policy 3 = Some d \<and>
     policy_delay_for_attempt default_retry_policy 40 = Some d' \<and> d \<le> d' \<and> d' \<le> secs 10 \<and> d = millis 400"
  using backoff_exact [of default_retry_policy 3 40]
  by (auto simp: default_retry_policy_def u32_max_def duration_max_def u64_max_def millis_def secs_def)

end
