(* ===== verification/Config.thy ===== *)
theory Config
  imports Retry
begin

text \<open>
  Connection configuration (\<open>config.rs\<close>, the \<open>SslMode\<close> of \<open>transport/tls.rs\<close> and the reconnection
  settings of \<open>reconnect/env.rs\<close>): defaults, builder methods, the startup parameters, and the three
  ways to obtain a configuration: a \<open>key=value\<close> string, a URI (the \<open>url\<close> crate's parser is the
  parameter \<open>url_parse\<close>) and the process environment (the parameter \<open>env\<close>).  The configuration is the
  one of the default feature set, where \<open>tls\<close> is on.
\<close>

subsection \<open>Data\<close>

datatype ssl_mode = Disable | Prefer | Require | VerifyCa | VerifyFull

datatype target_session_attrs = Any | ReadWrite | ReadOnly

datatype config_error =
    InvalidValue string | MissingField string | ParseError string | InvalidTimeout string string

definition to_lower :: "char \<Rightarrow> char" where
  "to_lower c = (let n = of_char c in if 65 \<le> n \<and> n \<le> (90::nat) then char_of (n + 32) else c)"

definition to_lowercase :: "string \<Rightarrow> string" where
  "to_lowercase s = map to_lower s"

definition ssl_mode_from_str :: "string \<Rightarrow> (transport_error, ssl_mode) res" where
  "ssl_mode_from_str s =
     (let l = to_lowercase s in
      if l = ''disable'' then Ok Disable
      else if l = ''prefer'' then Ok Prefer
      else if l = ''require'' then Ok Require
      else if l = ''verify-ca'' then Ok VerifyCa
      else if l = ''verify-full'' then Ok VerifyFull
      else Err (TeInvalidConfig (''invalid sslmode: '' @ s)))"

fun show_ssl_mode :: "ssl_mode \<Rightarrow> string" where
  "show_ssl_mode Disable = ''disable''"
| "show_ssl_mode Prefer = ''prefer''"
| "show_ssl_mode Require = ''require''"
| "show_ssl_mode VerifyCa = ''verify-ca''"
| "show_ssl_mode VerifyFull = ''verify-full''"

definition target_session_attrs_from_str :: "string \<Rightarrow> (config_error, target_session_attrs) res" where
  "target_session_attrs_from_str s =
     (let l = to_lowercase s in
      if l = ''any'' then Ok Any
      else if l = ''read-write'' then Ok ReadWrite
      else if l = ''read-only'' then Ok ReadOnly
      else Err (InvalidValue (''invalid target_session_attrs: '' @ s)))"

record config =
  host :: string
  port :: nat
  user :: string
  password :: "string option"
  database :: "string option"
  application_name :: "string option"
  ssl_mode :: ssl_mode
  options :: "(string \<times> string) list"
  connect_timeout :: "nat option"
  statement_timeout :: "nat option"
  target_attrs :: target_session_attrs
  accept_invalid_certs :: bool
  allow_insecure_auth :: bool
  keepalive :: "nat option"
  reconnect_cfg :: reconnect_config
  stale_cfg :: stale_config

definition config_new :: config where
  "config_new = \<lparr> host = ''localhost'', port = 5432, user = ''postgres'', password = None,
     database = None, application_name = None, ssl_mode = VerifyFull, options = [],
     connect_timeout = None, statement_timeout = None, target_attrs = Any,
     accept_invalid_certs = False, allow_insecure_auth = False, keepalive = None,
     reconnect_cfg = default_reconnect_config, stale_cfg = default_stale_config \<rparr>"

definition use_tls :: "bool \<Rightarrow> config \<Rightarrow> config" where
  "use_tls b c =
     (if b then (if ssl_mode c = Disable then c\<lparr>ssl_mode := VerifyFull\<rparr> else c)
      else c\<lparr>ssl_mode := Disable\<rparr>)"

definition add_option :: "string \<Rightarrow> string \<Rightarrow> config \<Rightarrow> config" where
  "add_option k v c = c\<lparr>options := options c @ [(k, v)]\<rparr>"

definition enable_reconnect :: "config \<Rightarrow> config" where
  "enable_reconnect c = c\<lparr>reconnect_cfg := reconnect_config_enabled\<rparr>"

definition max_reconnect_attempts :: "nat \<Rightarrow> config \<Rightarrow> config" where
  "max_reconnect_attempts n c = c\<lparr>reconnect_cfg := (reconnect_cfg c)\<lparr>max_attempts := n\<rparr>\<rparr>"

definition set_stale_threshold :: "nat \<Rightarrow> config \<Rightarrow> config" where
  "set_stale_threshold n c = c\<lparr>stale_cfg := (stale_cfg c)\<lparr>stale_threshold := n\<rparr>\<rparr>"

definition get_use_tls :: "config \<Rightarrow> bool" where
  "get_use_tls c = (ssl_mode c \<noteq> Disable)"

definition startup_params :: "config \<Rightarrow> (string \<times> string) list" where
  "startup_params c =
     [(''user'', user c),
      (''database'', case database c of Some d \<Rightarrow> d | None \<Rightarrow> user c),
      (''client_encoding'', ''UTF8'')] @
     (case application_name c of None \<Rightarrow> [] | Some a \<Rightarrow> [(''application_name'', a)]) @
     (case statement_timeout c of None \<Rightarrow> []
      | Some t \<Rightarrow> [(''statement_timeout'', show_nat (t div 1000000) @ ''ms'')]) @
     options c"

subsection \<open>Integer parse errors\<close>

fun int_error_from :: "nat \<Rightarrow> nat \<Rightarrow> string \<Rightarrow> string" where
  "int_error_from m acc [] = []"
| "int_error_from m acc (c # cs) =
     (case digit_val c of
        None \<Rightarrow> ''invalid digit found in string''
      | Some d \<Rightarrow> if m < 10 * acc + d then ''number too large to fit in target type''
                  else int_error_from m (10 * acc + d) cs)"

definition int_error :: "nat \<Rightarrow> string \<Rightarrow> string" where
  "int_error m s =
     (if s = [] then ''cannot parse integer from empty string''
      else if s = ''+'' \<or> s = ''-'' then ''invalid digit found in string''
      else int_error_from m 0 (if hd s = CHR ''+'' then tl s else s))"

definition u16_max :: nat where "u16_max = 65535"

definition parse_bool :: "string \<Rightarrow> bool option" where
  "parse_bool s = (if s = ''true'' then Some True else if s = ''false'' then Some False else None)"

subsection \<open>Reconnection parameters\<close>

definition got :: "string \<Rightarrow> string \<Rightarrow> string" where
  "got pre v = pre @ [CHR 0x27] @ v @ [CHR 0x27]"

definition parse_reconnect_params ::
  "reconnect_config \<Rightarrow> stale_config \<Rightarrow> string \<Rightarrow> string \<Rightarrow> (string, reconnect_config \<times> stale_config) res"
where
  "parse_reconnect_params r st key v =
     (if key = ''reconnect'' then
        (case parse_bool v of
           None \<Rightarrow> Err (got ''invalid value for 'reconnect': expected 'true' or 'false', got '' v)
         | Some b \<Rightarrow> Ok (r\<lparr>enabled := b\<rparr>, st))
      else if key = ''reconnect_max_attempts'' then
        (case parse_uint u32_max v of
           None \<Rightarrow> Err (got ''invalid value for 'reconnect_max_attempts': expected integer, got '' v)
         | Some n \<Rightarrow> Ok (r\<lparr>max_attempts := n\<rparr>, st))
      else if key = ''reconnect_initial_delay_ms'' then
        (case parse_uint u64_max v of
           None \<Rightarrow> Err (got ''invalid value for 'reconnect_initial_delay_ms': expected integer, got '' v)
         | Some n \<Rightarrow> Ok (r\<lparr>initial_delay := millis n\<rparr>, st))
      else if key = ''reconnect_max_delay_ms'' then
        (case parse_uint u64_max v of
           None \<Rightarrow> Err (got ''invalid value for 'reconnect_max_delay_ms': expected integer, got '' v)
         | Some n \<Rightarrow> Ok (r\<lparr>max_delay := millis n\<rparr>, st))
      else if key = ''stale_threshold_secs'' then
        (case parse_uint u64_max v of
           None \<Rightarrow> Err (got ''invalid value for 'stale_threshold_secs': expected integer, got '' v)
         | Some n \<Rightarrow> Ok (r, st\<lparr>stale_threshold := secs n\<rparr>))
      else Err (''unknown reconnection parameter: '' @ key))"

definition env_error :: "string \<Rightarrow> string \<Rightarrow> string \<Rightarrow> config_error" where
  "env_error var ex v = InvalidValue (var @ '': expected '' @ ex @ '', got '' @ [CHR 0x27] @ v @ [CHR 0x27])"

definition apply_env ::
  "(string \<Rightarrow> string option) \<Rightarrow> string \<Rightarrow> (string \<Rightarrow> 'c \<Rightarrow> (config_error, 'c) res) \<Rightarrow> 'c \<Rightarrow> (config_error, 'c) res"
where
  "apply_env env var f c = (case env var of None \<Rightarrow> Ok c | Some v \<Rightarrow> f v c)"

definition apply_reconnect_env ::
  "(string \<Rightarrow> string option) \<Rightarrow> reconnect_config \<times> stale_config \<Rightarrow>
   (config_error, reconnect_config \<times> stale_config) res"
where
  "apply_reconnect_env env rs =
     bind_res (apply_env env ''PGRECONNECT'' (\<lambda>v (r, st).
        case parse_bool v of
          None \<Rightarrow> Err (env_error ''PGRECONNECT'' ([CHR 0x27] @ ''true' or 'false'' @ [CHR 0x27]) v)
        | Some b \<Rightarrow> Ok (r\<lparr>enabled := b\<rparr>, st)) rs) (\<lambda>rs.
     bind_res (apply_env env ''PGRECONNECT_ATTEMPTS'' (\<lambda>v (r, st).
        case parse_uint u32_max v of
          None \<Rightarrow> Err (env_error ''PGRECONNECT_ATTEMPTS'' ''integer'' v)
        | Some n \<Rightarrow> Ok (r\<lparr>max_attempts := n\<rparr>, st)) rs) (\<lambda>rs.
     bind_res (apply_env env ''PGRECONNECT_DELAY_MS'' (\<lambda>v (r, st).
        case parse_uint u64_max v of
          None \<Rightarrow> Err (env_error ''PGRECONNECT_DELAY_MS'' ''integer'' v)
        | Some n \<Rightarrow> Ok (r\<lparr>initial_delay := millis n\<rparr>, st)) rs) (\<lambda>rs.
     bind_res (apply_env env ''PGRECONNECT_MAX_DELAY_MS'' (\<lambda>v (r, st).
        case parse_uint u64_max v of
          None \<Rightarrow> Err (env_error ''PGRECONNECT_MAX_DELAY_MS'' ''integer'' v)
        | Some n \<Rightarrow> Ok (r\<lparr>max_delay := millis n\<rparr>, st)) rs) (\<lambda>rs.
     apply_env env ''PGSTALE_THRESHOLD_SECS'' (\<lambda>v (r, st).
        case parse_uint u64_max v of
          None \<Rightarrow> Err (env_error ''PGSTALE_THRESHOLD_SECS'' ''integer'' v)
        | Some n \<Rightarrow> Ok (r, st\<lparr>stale_threshold := secs n\<rparr>)) rs))))"

subsection \<open>Key-value connection strings\<close>

text \<open>The loop runs over \<open>s.chars()\<close>.\<close>

fun tokenize_loop :: "string list \<Rightarrow> string \<Rightarrow> bool \<Rightarrow> string list \<Rightarrow> string list \<times> string \<times> bool" where
  "tokenize_loop [] current in_quote tokens = (tokens, current, in_quote)"
| "tokenize_loop (ch # s) current in_quote tokens =
     (if ch = [CHR 0x27] then tokenize_loop s (current @ ch) (\<not> in_quote) tokens
      else if is_whitespace ch \<and> \<not> in_quote then
        (if current \<noteq> [] then tokenize_loop s [] in_quote (tokens @ [current])
         else tokenize_loop s current in_quote tokens)
      else tokenize_loop s (current @ ch) in_quote tokens)"

definition tokenize_key_value :: "string \<Rightarrow> (config_error, string list) res" where
  "tokenize_key_value s =
     (case tokenize_loop (utf8_chars s) [] False [] of (tokens, current, in_quote) \<Rightarrow>
        if in_quote then Err (ParseError ''unclosed single quote in connection string'')
        else Ok (if current \<noteq> [] then tokens @ [current] else tokens))"

text \<open>\<open>splitn(2, '=')\<close>: the key, and the rest after the first equals sign if there is one.\<close>

fun split_eq :: "string \<Rightarrow> string \<times> string option" where
  "split_eq [] = ([], None)"
| "split_eq (c # s) = (if c = CHR ''='' then ([], Some s)
                       else (case split_eq s of (k, v) \<Rightarrow> (c # k, v)))"

definition unquote :: "string \<Rightarrow> string" where
  "unquote v =
     (case v of
        c # s \<Rightarrow> if c = CHR 0x27 \<and> s \<noteq> [] \<and> last s = CHR 0x27 then butlast s else v
      | [] \<Rightarrow> v)"

definition reconnect_keys :: "string list" where
  "reconnect_keys = [''reconnect'', ''reconnect_max_attempts'', ''reconnect_initial_delay_ms'',
                     ''reconnect_max_delay_ms'', ''stale_threshold_secs'']"

definition set_reconnect :: "string \<Rightarrow> string \<Rightarrow> config \<Rightarrow> (config_error, config) res" where
  "set_reconnect key v c =
     (case parse_reconnect_params (reconnect_cfg c) (stale_cfg c) key v of
        Inl e \<Rightarrow> Err (InvalidValue e)
      | Inr (r, st) \<Rightarrow> Ok (c\<lparr>reconnect_cfg := r, stale_cfg := st\<rparr>))"

definition set_connect_timeout :: "string \<Rightarrow> string \<Rightarrow> config \<Rightarrow> (config_error, config) res" where
  "set_connect_timeout field v c =
     (case parse_uint u64_max v of
        Some n \<Rightarrow> Ok (c\<lparr>connect_timeout := Some (secs n)\<rparr>)
      | None \<Rightarrow> Err (InvalidTimeout field v))"

definition set_key :: "string \<Rightarrow> string \<Rightarrow> config \<Rightarrow> (config_error, config) res" where
  "set_key key v c =
     (if key = ''host'' then Ok (c\<lparr>host := v\<rparr>)
      else if key = ''port'' then
        (case parse_uint u16_max v of
           None \<Rightarrow> Err (InvalidValue (''invalid port: '' @ int_error u16_max v))
         | Some n \<Rightarrow> Ok (c\<lparr>port := n\<rparr>))
      else if key = ''user'' then Ok (c\<lparr>user := v\<rparr>)
      else if key = ''password'' then Ok (c\<lparr>password := Some v\<rparr>)
      else if key = ''dbname'' \<or> key = ''database'' then Ok (c\<lparr>database := Some v\<rparr>)
      else if key = ''application_name'' then Ok (c\<lparr>application_name := Some v\<rparr>)
      else if key = ''sslmode'' then
        (case ssl_mode_from_str v of
           Inl e \<Rightarrow> Err (InvalidValue (show_transport_error e))
         | Inr m \<Rightarrow> Ok (c\<lparr>ssl_mode := m\<rparr>))
      else if key = ''connect_timeout'' then set_connect_timeout ''connect_timeout'' v c
      else if key = ''target_session_attrs'' then
        bind_res (target_session_attrs_from_str v) (\<lambda>a. Ok (c\<lparr>target_attrs := a\<rparr>))
      else if key \<in> set reconnect_keys then set_reconnect key v c
      else Ok (add_option key v c))"

fun apply_tokens :: "string list \<Rightarrow> config \<Rightarrow> (config_error, config) res" where
  "apply_tokens [] c = Ok c"
| "apply_tokens (t # ts) c =
     (case split_eq t of
        (key, None) \<Rightarrow> Err (ParseError (''missing value for '' @ key))
      | (key, Some v) \<Rightarrow> bind_res (set_key key (unquote v) c) (apply_tokens ts))"

definition from_key_value :: "string \<Rightarrow> (config_error, config) res" where
  "from_key_value s =
     bind_res (tokenize_key_value s) (\<lambda>tokens. apply_tokens tokens config_new)"

subsection \<open>URIs\<close>

text \<open>What the client reads of a parsed \<open>url::Url\<close>.\<close>

record url =
  scheme :: string
  host_str :: "string option"
  url_port :: "nat option"
  username :: string
  url_password :: "string option"
  path :: string
  query_pairs :: "(string \<times> string) list"

definition set_query_pair :: "string \<times> string \<Rightarrow> config \<Rightarrow> (config_error, config) res" where
  "set_query_pair kv c =
     (let (key, v) = kv in
      if key = ''sslmode'' then
        (case ssl_mode_from_str v of
           Inl e \<Rightarrow> Err (InvalidValue (show_transport_error e))
         | Inr m \<Rightarrow> Ok (c\<lparr>ssl_mode := m\<rparr>))
      else if key = ''connect_timeout'' then set_connect_timeout ''connect_timeout'' v c
      else if key = ''application_name'' then Ok (c\<lparr>application_name := Some v\<rparr>)
      else if key = ''target_session_attrs'' then
        bind_res (target_session_attrs_from_str v) (\<lambda>a. Ok (c\<lparr>target_attrs := a\<rparr>))
      else if key \<in> set reconnect_keys then set_reconnect key v c
      else Ok (add_option key v c))"

fun apply_query_pairs :: "(string \<times> string) list \<Rightarrow> config \<Rightarrow> (config_error, config) res" where
  "apply_query_pairs [] c = Ok c"
| "apply_query_pairs (kv # kvs) c = bind_res (set_query_pair kv c) (apply_query_pairs kvs)"

definition from_uri :: "(string \<Rightarrow> (string, url) res) \<Rightarrow> string \<Rightarrow> (config_error, config) res" where
  "from_uri url_parse uri =
     (case url_parse uri of
        Inl e \<Rightarrow> Err (ParseError (''invalid URI: '' @ e))
      | Inr u \<Rightarrow>
          if scheme u \<noteq> ''postgresql'' \<and> scheme u \<noteq> ''postgres'' then
            Err (ParseError (''expected scheme 'postgresql' or 'postgres', got '' @ [CHR 0x27] @ scheme u @ [CHR 0x27]))
          else
            (let c = config_new\<lparr>
                  host := (case host_str u of Some h \<Rightarrow> h | None \<Rightarrow> ''localhost''),
                  port := (case url_port u of Some p \<Rightarrow> p | None \<Rightarrow> 5432)\<rparr>;
                 c = (case url_password u of Some p \<Rightarrow> c\<lparr>password := Some p\<rparr> | None \<Rightarrow> c);
                 c = (if username u \<noteq> [] then c\<lparr>user := username u\<rparr> else c);
                 c = (if 1 < length (path u) then c\<lparr>database := Some (tl (path u))\<rparr> else c)
             in apply_query_pairs (query_pairs u) c))"

subsection \<open>Environment\<close>

definition from_env :: "(string \<Rightarrow> string option) \<Rightarrow> (config_error, config) res" where
  "from_env env =
     bind_res (apply_env env ''PGHOST'' (\<lambda>v c. Ok (c\<lparr>host := v\<rparr>)) config_new) (\<lambda>c.
     bind_res (apply_env env ''PGPORT'' (\<lambda>v c.
        case parse_uint u16_max v of
          None \<Rightarrow> Err (InvalidValue (''PGPORT: '' @ int_error u16_max v))
        | Some n \<Rightarrow> Ok (c\<lparr>port := n\<rparr>)) c) (\<lambda>c.
     bind_res (apply_env env ''PGDATABASE'' (\<lambda>v c. Ok (c\<lparr>database := Some v\<rparr>)) c) (\<lambda>c.
     bind_res (apply_env env ''PGUSER'' (\<lambda>v c. Ok (c\<lparr>user := v\<rparr>)) c) (\<lambda>c.
     bind_res (apply_env env ''PGPASSWORD'' (\<lambda>v c. Ok (c\<lparr>password := Some v\<rparr>)) c) (\<lambda>c.
     bind_res (apply_env env ''PGSSLMODE'' (\<lambda>v c.
        case ssl_mode_from_str v of
          Inl e \<Rightarrow> Err (InvalidValue (''PGSSLMODE: '' @ show_transport_error e))
        | Inr m \<Rightarrow> Ok (c\<lparr>ssl_mode := m\<rparr>)) c) (\<lambda>c.
     bind_res (apply_env env ''PGCONNECT_TIMEOUT'' (set_connect_timeout ''PGCONNECT_TIMEOUT'') c) (\<lambda>c.
     bind_res (apply_env env ''PGAPPNAME'' (\<lambda>v c. Ok (c\<lparr>application_name := Some v\<rparr>)) c) (\<lambda>c.
     bind_res (apply_reconnect_env env (reconnect_cfg c, stale_cfg c)) (\<lambda>(r, st).
     Ok (c\<lparr>reconnect_cfg := r, stale_cfg := st\<rparr>))))))))))"

subsection \<open>Lemmas: SSL modes\<close>

lemma ssl_mode_round_trip: "ssl_mode_from_str (show_ssl_mode m) = Ok m"
  by (cases m) (simp_all add: ssl_mode_from_str_def to_lowercase_def to_lower_def Let_def)

subsection \<open>Lemmas: printing a configuration as a key-value string\<close>

text \<open>
  The reference printer: \<open>key='value'\<close> items separated by spaces.  Values without a single quote
  read back unchanged, whatever blanks or equals signs they contain.
\<close>

definition quote_item :: "string \<times> string \<Rightarrow> string" where
  "quote_item kv = fst kv @ ''='' @ [CHR 0x27] @ snd kv @ [CHR 0x27]"

definition plain_key :: "string \<Rightarrow> bool" where
  "plain_key k = (starts_char k \<and> CHR 0x27 \<notin> set k \<and> CHR ''='' \<notin> set k \<and> (\<forall>w\<in>set (utf8_chars k). \<not> is_whitespace w))"

definition plain_value :: "string \<Rightarrow> bool" where
  "plain_value v = (starts_char v \<and> CHR 0x27 \<notin> set v)"

lemma utf8_chars_quote: "CHR 0x27 \<notin> set s \<Longrightarrow> [CHR 0x27] \<notin> set (utf8_chars s)"
  using concat_utf8_chars [of s] by (metis UN_I list.set_intros(1) set_concat)

lemma tokenize_plain:
  "\<forall>w\<in>set ws. \<not> is_whitespace w \<and> w \<noteq> [CHR 0x27] \<Longrightarrow>
   tokenize_loop (ws @ s) cur q ts = tokenize_loop s (cur @ concat ws) q ts"
  by (induction ws arbitrary: cur) auto

lemma tokenize_quoted:
  "[CHR 0x27] \<notin> set ws \<Longrightarrow> tokenize_loop (ws @ s) cur True ts = tokenize_loop s (cur @ concat ws) True ts"
  by (induction ws arbitrary: cur) auto

lemma quote_item_chars:
  assumes "plain_key k" "plain_value v" "starts_char s"
  shows "utf8_chars (quote_item (k, v) @ s) =
    utf8_chars k @ [''='', [CHR 0x27]] @ utf8_chars v @ [[CHR 0x27]] @ utf8_chars s"
proof -
  have q: "utf8_chars (CHR 0x27 # s) = [CHR 0x27] # utf8_chars s" using utf8_chars_Cons [OF assms(3)] .
  have "utf8_chars (v @ CHR 0x27 # s) = utf8_chars v @ [CHR 0x27] # utf8_chars s"
    unfolding q [symmetric] by (rule utf8_chars_append) (simp add: is_cont_def)
  moreover have "starts_char (v @ CHR 0x27 # s)"
    using assms(2) by (cases v) (auto simp: plain_value_def is_cont_def)
  ultimately have "utf8_chars (CHR 0x27 # v @ CHR 0x27 # s) = [CHR 0x27] # utf8_chars v @ [CHR 0x27] # utf8_chars s"
    using utf8_chars_Cons by metis
  moreover have "starts_char (CHR 0x27 # r)" "starts_char (CHR ''='' # r)" for r by (simp_all add: is_cont_def)
  ultimately show ?thesis
    unfolding quote_item_def fst_conv snd_conv append_assoc append_Cons append_Nil
    by (simp only: utf8_chars_append utf8_chars_Cons append_Cons append_Nil)
qed

lemma tokenize_item:
  assumes "plain_key k" "plain_value v" "starts_char s"
  shows "tokenize_loop (utf8_chars (quote_item (k, v) @ s)) [] False ts =
    tokenize_loop (utf8_chars s) (quote_item (k, v)) False ts"
proof -
  let ?v = "utf8_chars v @ [[CHR 0x27]] @ utf8_chars s"
  have "tokenize_loop (utf8_chars k @ [''='', [CHR 0x27]] @ ?v) [] False ts =
        tokenize_loop ([''='', [CHR 0x27]] @ ?v) k False ts"
    using assms(1) utf8_chars_quote [of k] tokenize_plain [of "utf8_chars k" _ "[]"]
    by (metis append_Nil concat_utf8_chars plain_key_def)
  also have "\<dots> = tokenize_loop ?v (k @ [CHR ''='', CHR 0x27]) True ts"
    by (simp add: is_ws_def)
  also have "\<dots> = tokenize_loop ([[CHR 0x27]] @ utf8_chars s) (k @ [CHR ''='', CHR 0x27] @ v) True ts"
    using assms(2) utf8_chars_quote [of v] tokenize_quoted [of "utf8_chars v"] by (simp add: plain_value_def)
  finally show ?thesis unfolding quote_item_chars [OF assms] by (simp add: quote_item_def)
qed

lemma quote_item_nonempty [simp]: "quote_item kv \<noteq> []"
  by (simp add: quote_item_def)

lemma tokenize_items:
  assumes "\<forall>(k, v)\<in>set kvs. plain_key k \<and> plain_value v"
  shows "tokenize_key_value (join '' '' (map quote_item kvs)) = Ok (map quote_item kvs)"
proof -
  have "\<exists>toks cur. tokenize_loop (utf8_chars (join '' '' (map quote_item kvs))) [] False ts = (toks, cur, False)
        \<and> (if cur \<noteq> [] then toks @ [cur] else toks) = ts @ map quote_item kvs" for ts
    using assms
  proof (induction kvs arbitrary: ts rule: induct_list012)
    case (2 kv)
    then show ?case using tokenize_item [of "fst kv" "snd kv" "[]" ts] by (cases kv) auto
  next
    case (3 kv kv' kvs)
    obtain k v where kv: "kv = (k, v)" "plain_key k" "plain_value v" using 3(3) by (cases kv) auto
    let ?s = "join '' '' (map quote_item (kv' # kvs))"
    have "starts_char (quote_item kv' @ s')" for s'
      using 3(3) by (cases kv') (auto simp: quote_item_def plain_key_def starts_char_def hd_append is_cont_def)
    then have s: "starts_char ?s" by (cases kvs) (auto, metis append_Nil2)
    have "tokenize_loop (utf8_chars (quote_item kv @ '' '' @ ?s)) [] False ts =
          tokenize_loop (utf8_chars ?s) [] False (ts @ [quote_item kv])"
      using tokenize_item [OF kv(2,3), of "'' '' @ ?s" ts] kv(1) utf8_chars_Cons [OF s, of "CHR '' ''"]
      by (simp add: is_ws_def is_cont_def del: utf8_chars.simps)
    then show ?case using 3(2) [of "ts @ [quote_item kv]"] 3(3) by (simp del: utf8_chars.simps)
  qed simp
  from this [of "[]"] show ?thesis
    by (auto simp: tokenize_key_value_def)
qed

lemma split_eq_item: "CHR ''='' \<notin> set k \<Longrightarrow> split_eq (k @ CHR ''='' # v) = (k, Some v)"
  by (induction k) auto

lemma unquote_quoted [simp]: "unquote (CHR 0x27 # v @ [CHR 0x27]) = v"
  by (simp add: unquote_def)

fun set_keys :: "(string \<times> string) list \<Rightarrow> config \<Rightarrow> (config_error, config) res" where
  "set_keys [] c = Ok c"
| "set_keys ((k, v) # kvs) c = bind_res (set_key k v c) (set_keys kvs)"

lemma apply_tokens_items:
  assumes "\<forall>(k, v)\<in>set kvs. plain_key k \<and> plain_value v"
  shows "apply_tokens (map quote_item kvs) c = set_keys kvs c"
  using assms
proof (induction kvs arbitrary: c)
  case (Cons kv kvs)
  obtain k v where kv: "kv = (k, v)" "plain_key k" using Cons(2) by (cases kv) auto
  have "apply_tokens (map quote_item kvs) = set_keys kvs" using Cons by auto
  moreover have "split_eq (quote_item kv) = (k, Some (CHR 0x27 # v @ [CHR 0x27]))"
    using kv split_eq_item [of k] by (simp add: quote_item_def plain_key_def)
  ultimately show ?case using kv by simp
qed simp

text \<open>
  The key-value parser reads back what is printed: a connection string made of items
  \<open>key='value'\<close>, whose values may contain blanks, equals signs and anything else but the quote
  character itself, configures exactly the listed keys with exactly the listed values, in order, and
  reports an error exactly when one of the keys rejects its value.
\<close>

lemma from_key_value_items:
  assumes "\<forall>(k, v)\<in>set kvs. plain_key k \<and> plain_value v"
  shows "from_key_value (join '' '' (map quote_item kvs)) = set_keys kvs config_new"
  using tokenize_items [OF assms] apply_tokens_items [OF assms] by (simp add: from_key_value_def)

end
