(* ===== verification/Auth.thy ===== *)
theory Auth
  imports Protocol Config
begin

text \<open>
  The message channel of a connection and the authentication exchange (\<open>auth/mod.rs\<close>,
  \<open>auth/scram.rs\<close>, \<open>auth/cleartext.rs\<close>, \<open>auth/md5.rs\<close>), together with the SSL negotiation that
  precedes it (\<open>transport/tls.rs\<close>, \<open>apply_tls\<close> of \<open>connection.rs\<close>).

  A \<open>channel\<close> is a codec with its transport as the layers above see them: \<open>inbox\<close> holds the results
  of the coming calls of \<open>Codec::read_message\<close> (waiting for more is \<open>Pending\<close>), \<open>outbox\<close> the messages
  written so far, \<open>write_faults\<close> the outcomes of the coming writes (success when it is used up).
  The SCRAM state machine and the MD5 hash belong to \<open>postgres_protocol\<close> and are parameters.
\<close>

datatype ('e, 'a) outcome = Ret "('e, 'a) res" | Pending

record channel =
  inbox :: "(auth_error, backend_message) res list"
  outbox :: "frontend_message list"
  write_faults :: "auth_error option list"
  secure :: bool
  tls_server_end_point :: "bytes option"
  shut_down :: bool

definition recv :: "'x channel_scheme \<Rightarrow> (auth_error, backend_message) outcome \<times> 'x channel_scheme" where
  "recv ch = (case inbox ch of [] \<Rightarrow> (Pending, ch) | r # rs \<Rightarrow> (Ret r, ch\<lparr>inbox := rs\<rparr>))"

definition chan_write ::
  "frontend_message list \<Rightarrow> 'x channel_scheme \<Rightarrow> (auth_error, unit) res \<times> 'x channel_scheme"
where
  "chan_write msgs ch =
     (case write_faults ch of
        [] \<Rightarrow> (Ok (), ch\<lparr>outbox := outbox ch @ msgs\<rparr>)
      | None # fs \<Rightarrow> (Ok (), ch\<lparr>outbox := outbox ch @ msgs, write_faults := fs\<rparr>)
      | Some e # fs \<Rightarrow> (Err e, ch\<lparr>write_faults := fs\<rparr>))"

abbreviation chan_send :: "frontend_message \<Rightarrow> 'x channel_scheme \<Rightarrow> (auth_error, unit) res \<times> 'x channel_scheme" where
  "chan_send msg \<equiv> chan_write [msg]"

subsection \<open>SSL negotiation\<close>

datatype tls_verification_policy = InsecureNoVerify | VerifyCaOnly | VerifyFullPolicy

record tls_config =
  tls_mode :: ssl_mode
  server_name :: string
  tls_accept_invalid_certs :: bool

definition verification_policy :: "tls_config \<Rightarrow> tls_verification_policy" where
  "verification_policy c =
     (if tls_accept_invalid_certs c \<or> tls_mode c = Require then InsecureNoVerify
      else if tls_mode c = VerifyCa then VerifyCaOnly
      else VerifyFullPolicy)"

datatype ('t, 's) pg_transport = Plain 't | Tls 's

definition is_tls :: "('t, 's) pg_transport \<Rightarrow> bool" where
  "is_tls t = (case t of Plain _ \<Rightarrow> False | Tls _ \<Rightarrow> True)"

definition SSL_REQUEST :: bytes where
  "SSL_REQUEST = [0x00, 0x00, 0x00, 0x08, 0x04, 0xD2, 0x16, 0x2F]"

definition MAX_SSL_NEGOTIATION_ERROR_LEN :: int where
  "MAX_SSL_NEGOTIATION_ERROR_LEN = 8 * 1024"

text \<open>\<open>{:02x}\<close> of a byte, and the scalar value of a byte written in UTF-8.\<close>

definition hex_byte :: "nat \<Rightarrow> string" where
  "hex_byte n = (if n < 16 then ''0'' else []) @ hex_lower n"

definition latin1_utf8 :: "nat \<Rightarrow> string" where
  "latin1_utf8 n = (if n < 128 then [char_of n] else [char_of (192 + n div 64), char_of (128 + n mod 64)])"

text \<open>
  \<open>negotiate_tls\<close> on a transport with exact reads \<open>rx\<close>, writes \<open>wa\<close> and flush \<open>fl\<close>.  \<open>clock\<close> is the
  outcome of the early time check, \<open>handshake\<close> the building of the session and the handshake under a policy (modelled
  in \<open>Tls_Stream\<close> and \<open>Tls_Verify\<close>), \<open>lossy\<close> the rendering of the server's text.
\<close>

definition negotiate_tls ::
  "(transport_error, unit) res \<Rightarrow> 't reader \<Rightarrow> 't writer \<Rightarrow> 't action \<Rightarrow>
   ('t \<Rightarrow> tls_verification_policy \<Rightarrow> string \<Rightarrow> (transport_error, 's) res) \<Rightarrow> (bytes \<Rightarrow> string) \<Rightarrow>
   't \<Rightarrow> tls_config \<Rightarrow> (transport_error, ('t, 's) pg_transport) res"
where
  "negotiate_tls clock rx wa fl handshake lossy t c =
     (case clock of Inl e \<Rightarrow> Err e | Inr u \<Rightarrow>
      (case wa t SSL_REQUEST of (Inl e, t1) \<Rightarrow> Err e | (Inr u, t1) \<Rightarrow>
      (case fl t1 of (Inl e, t2) \<Rightarrow> Err e | (Inr u, t2) \<Rightarrow>
      (case rx t2 1 of (Inl e, t3) \<Rightarrow> Err e | (Inr resp, t3) \<Rightarrow>
       (let b = char_of (unat (hd resp)) in
        if b = CHR ''S'' then
          (case handshake t3 (verification_policy c) (server_name c) of
             Inl e \<Rightarrow> Err e | Inr s \<Rightarrow> Ok (Tls s))
        else if b = CHR ''N'' then
          (case tls_mode c of
             Disable \<Rightarrow> Ok (Plain t3)
           | Prefer \<Rightarrow> Ok (Plain t3)
           | Require \<Rightarrow> Err TeTlsNotSupported
           | VerifyCa \<Rightarrow> Err TeTlsNotSupported
           | VerifyFull \<Rightarrow> Err TeTlsNotSupported)
        else if b = CHR ''E'' then
          (case rx t3 4 of (Inl e, t4) \<Rightarrow> Err e | (Inr lb, t4) \<Rightarrow>
           (let len = from_be_sint 4 lb in
            if len < 4 then
              Err (TeTlsHandshake ''server sent malformed error response during SSL negotiation'')
            else if MAX_SSL_NEGOTIATION_ERROR_LEN < len then
              Err (TeTlsHandshake (''server sent oversized SSL negotiation error response: ''
                     @ show_int len @ '' bytes''))
            else
              (case rx t4 (nat (len - 4)) of (Inl e, t5) \<Rightarrow> Err e
               | (Inr eb, t5) \<Rightarrow> Err (TeTlsHandshake (''server rejected SSL request: '' @ lossy eb)))))
        else Err (TeTlsHandshake (''unexpected response byte during SSL negotiation: 0x''
               @ hex_byte (unat (hd resp)) @ '' ('' @ [CHR 0x27] @ latin1_utf8 (unat (hd resp))
               @ [CHR 0x27] @ '')'')))))))"

text \<open>\<open>apply_tls\<close> of \<open>connection.rs\<close>.\<close>

definition apply_tls ::
  "(transport_error, unit) res \<Rightarrow> 't reader \<Rightarrow> 't writer \<Rightarrow> 't action \<Rightarrow>
   ('t \<Rightarrow> tls_verification_policy \<Rightarrow> string \<Rightarrow> (transport_error, 's) res) \<Rightarrow> (bytes \<Rightarrow> string) \<Rightarrow>
   't \<Rightarrow> config \<Rightarrow> (pg_error, ('t, 's) pg_transport) res"
where
  "apply_tls clock rx wa fl handshake lossy t c =
     (if ssl_mode c = Disable then Ok (Plain t)
      else map_err PgTransport
        (negotiate_tls clock rx wa fl handshake lossy t
           \<lparr> tls_mode = ssl_mode c, server_name = host c,
             tls_accept_invalid_certs = accept_invalid_certs c \<rparr>))"

subsection \<open>Error fields and server parameters\<close>

fun format_error_fields_loop :: "string \<Rightarrow> error_body \<Rightarrow> (auth_error, string) res" where
  "format_error_fields_loop msg [] = Ok msg"
| "format_error_fields_loop msg (Inl e # fs) = Err (AeIo e)"
| "format_error_fields_loop msg (Inr (t, v) # fs) =
     (if t = CHR ''M'' then
        (case v of
           None \<Rightarrow> format_error_fields_loop msg fs
         | Some s \<Rightarrow> format_error_fields_loop (if msg \<noteq> [] then msg @ ''; '' @ s else msg @ s) fs)
      else format_error_fields_loop msg fs)"

definition format_error_fields :: "error_body \<Rightarrow> (auth_error, string) res" where
  "format_error_fields b = format_error_fields_loop [] b"

definition server_error_result :: "error_body \<Rightarrow> (auth_error, 'a) res" where
  "server_error_result b = bind_res (format_error_fields b) (\<lambda>m. Err (AeServerError m))"

record server_params =
  process_id :: int
  secret_key :: int
  server_version :: string
  server_encoding :: string
  client_encoding :: string
  params :: "(string \<times> string) list"

definition default_server_params :: server_params where
  "default_server_params = \<lparr> process_id = 0, secret_key = 0, server_version = [],
     server_encoding = [], client_encoding = [], params = [] \<rparr>"

definition set_server_param :: "string \<Rightarrow> string \<Rightarrow> server_params \<Rightarrow> server_params" where
  "set_server_param nm v p =
     (let p1 = (if nm = ''server_version'' then p\<lparr>server_version := v\<rparr>
                else if nm = ''server_encoding'' then p\<lparr>server_encoding := v\<rparr>
                else if nm = ''client_encoding'' then p\<lparr>client_encoding := v\<rparr>
                else p)
      in p1\<lparr>params := amap_insert nm v (params p1)\<rparr>)"

fun read_startup_params_loop ::
  "(auth_error, backend_message) res list \<Rightarrow> server_params \<Rightarrow> 'x channel_scheme \<Rightarrow>
   (auth_error, server_params) outcome \<times> 'x channel_scheme"
where
  "read_startup_params_loop [] p ch = (Pending, ch\<lparr>inbox := []\<rparr>)"
| "read_startup_params_loop (Inl e # ms) p ch = (Ret (Err e), ch\<lparr>inbox := ms\<rparr>)"
| "read_startup_params_loop (Inr m # ms) p ch =
     (case m of
        BackendKeyData pid key \<Rightarrow>
          read_startup_params_loop ms (p\<lparr>process_id := pid, secret_key := key\<rparr>) ch
      | ParameterStatus nm v \<Rightarrow>
          (case nm of Inl e \<Rightarrow> (Ret (Err (AeIo e)), ch\<lparr>inbox := ms\<rparr>) | Inr n \<Rightarrow>
          (case v of Inl e \<Rightarrow> (Ret (Err (AeIo e)), ch\<lparr>inbox := ms\<rparr>) | Inr w \<Rightarrow>
             read_startup_params_loop ms (set_server_param n w p) ch))
      | ReadyForQuery s \<Rightarrow> (Ret (Ok p), ch\<lparr>inbox := ms\<rparr>)
      | ErrorResponse b \<Rightarrow> (Ret (server_error_result b), ch\<lparr>inbox := ms\<rparr>)
      | _ \<Rightarrow> read_startup_params_loop ms p ch)"

definition read_startup_params ::
  "'x channel_scheme \<Rightarrow> (auth_error, server_params) outcome \<times> 'x channel_scheme"
where
  "read_startup_params ch = read_startup_params_loop (inbox ch) default_server_params ch"

subsection \<open>Password methods\<close>

definition cleartext_auth :: "config \<Rightarrow> 'x channel_scheme \<Rightarrow> (auth_error, unit) res \<times> 'x channel_scheme" where
  "cleartext_auth c ch =
     (case password c of
        None \<Rightarrow> (Err PasswordRequired, ch)
      | Some p \<Rightarrow> chan_send (PasswordMessage (bytes_of p)) ch)"

definition md5_auth ::
  "(bytes \<Rightarrow> bytes \<Rightarrow> bytes \<Rightarrow> string) \<Rightarrow> config \<Rightarrow> bytes \<Rightarrow> 'x channel_scheme \<Rightarrow>
   (auth_error, unit) res \<times> 'x channel_scheme"
where
  "md5_auth md5_hash c salt ch =
     (case password c of
        None \<Rightarrow> (Err PasswordRequired, ch)
      | Some p \<Rightarrow> chan_send (PasswordMessage (bytes_of (md5_hash (bytes_of (user c)) (bytes_of p) salt))) ch)"

subsection \<open>SCRAM\<close>

datatype channel_binding = Unsupported | Unrequested | TlsServerEndPoint bytes

record 'sc scram_lib =
  scram_new :: "bytes \<Rightarrow> channel_binding \<Rightarrow> 'sc"
  scram_message :: "'sc \<Rightarrow> bytes"
  scram_update :: "'sc \<Rightarrow> bytes \<Rightarrow> (string, 'sc) res"
  scram_finish :: "'sc \<Rightarrow> bytes \<Rightarrow> (string, unit) res"

definition SCRAM_SHA_256 :: string where "SCRAM_SHA_256 = ''SCRAM-SHA-256''"
definition SCRAM_SHA_256_PLUS :: string where "SCRAM_SHA_256_PLUS = ''SCRAM-SHA-256-PLUS''"

definition select_scram_mechanism ::
  "bytes option \<Rightarrow> string list \<Rightarrow> (auth_error, string \<times> channel_binding) res"
where
  "select_scram_mechanism binding mechanisms =
     (case (SCRAM_SHA_256_PLUS \<in> set mechanisms, binding) of
        (True, Some b) \<Rightarrow> Ok (SCRAM_SHA_256_PLUS, TlsServerEndPoint b)
      | _ \<Rightarrow>
          if SCRAM_SHA_256 \<in> set mechanisms then
            Ok (SCRAM_SHA_256, if binding \<noteq> None then Unrequested else Unsupported)
          else Err (UnsupportedSaslMechanisms mechanisms))"

definition scram_auth ::
  "'sc scram_lib \<Rightarrow> config \<Rightarrow> string list \<Rightarrow> 'x channel_scheme \<Rightarrow>
   (auth_error, unit) outcome \<times> 'x channel_scheme"
where
  "scram_auth l c mechanisms ch =
     (case password c of None \<Rightarrow> (Ret (Err PasswordRequired), ch) | Some p \<Rightarrow>
     (case select_scram_mechanism (tls_server_end_point ch) mechanisms of
        Inl e \<Rightarrow> (Ret (Err e), ch) | Inr (mechanism, binding) \<Rightarrow>
     (let scram = scram_new l (bytes_of p) binding in
     (case chan_send (SaslInitialResponse mechanism (scram_message l scram)) ch of
        (Inl e, ch1) \<Rightarrow> (Ret (Err e), ch1) | (Inr _, ch1) \<Rightarrow>
     (case recv ch1 of
        (Pending, ch2) \<Rightarrow> (Pending, ch2)
      | (Ret (Inl e), ch2) \<Rightarrow> (Ret (Err e), ch2)
      | (Ret (Inr m), ch2) \<Rightarrow>
     (case m of
        AuthenticationSaslContinue server_first \<Rightarrow>
          (case scram_update l scram server_first of
             Inl e \<Rightarrow> (Ret (Err (AeScram e)), ch2) | Inr scram2 \<Rightarrow>
          (case chan_send (SaslResponse (scram_message l scram2)) ch2 of
             (Inl e, ch3) \<Rightarrow> (Ret (Err e), ch3) | (Inr _, ch3) \<Rightarrow>
          (case recv ch3 of
             (Pending, ch4) \<Rightarrow> (Pending, ch4)
           | (Ret (Inl e), ch4) \<Rightarrow> (Ret (Err e), ch4)
           | (Ret (Inr m2), ch4) \<Rightarrow>
               (case m2 of
                  AuthenticationSaslFinal server_final \<Rightarrow>
                    (Ret (map_err AeScram (scram_finish l scram2 server_final)), ch4)
                | ErrorResponse b \<Rightarrow> (Ret (server_error_result b), ch4)
                | _ \<Rightarrow> (Ret (Err UnexpectedMessage), ch4)))))
      | ErrorResponse b \<Rightarrow> (Ret (server_error_result b), ch2)
      | _ \<Rightarrow> (Ret (Err UnexpectedMessage), ch2)))))))"

lemma recv_frame:
  assumes "recv ch = (r, ch')"
  shows "outbox ch' = outbox ch" "write_faults ch' = write_faults ch" "secure ch' = secure ch"
    "tls_server_end_point ch' = tls_server_end_point ch" "length (inbox ch') \<le> length (inbox ch)"
  using assms by (auto simp: recv_def split: list.splits)

lemma recv_shrinks: "recv ch = (Ret r, ch') \<Longrightarrow> length (inbox ch') < length (inbox ch)"
  by (auto simp: recv_def split: list.splits)

lemma chan_write_frame:
  assumes "chan_write ms ch = (r, ch')"
  shows "inbox ch' = inbox ch" "secure ch' = secure ch"
    "tls_server_end_point ch' = tls_server_end_point ch"
    "outbox ch' = outbox ch \<or> outbox ch' = outbox ch @ ms"
  using assms by (auto simp: chan_write_def split: list.splits option.splits)

lemma scram_auth_inbox:
  assumes "scram_auth l c ms ch = (r, ch')"
  shows "length (inbox ch') \<le> length (inbox ch)"
  using assms
  by (auto simp: scram_auth_def Let_def dest!: recv_frame(5) chan_write_frame(1)
      split: option.splits sum.splits prod.splits outcome.splits backend_message.splits)

lemma cleartext_auth_inbox: "cleartext_auth c ch = (r, ch') \<Longrightarrow> inbox ch' = inbox ch"
  by (auto simp: cleartext_auth_def dest!: chan_write_frame(1) split: option.splits)

lemma md5_auth_inbox: "md5_auth h c salt ch = (r, ch') \<Longrightarrow> inbox ch' = inbox ch"
  by (auto simp: md5_auth_def dest!: chan_write_frame(1) split: option.splits)

subsection \<open>The dispatcher\<close>

function authenticate ::
  "'sc scram_lib \<Rightarrow> (bytes \<Rightarrow> bytes \<Rightarrow> bytes \<Rightarrow> string) \<Rightarrow> config \<Rightarrow> 'x channel_scheme \<Rightarrow>
   (auth_error, server_params) outcome \<times> 'x channel_scheme"
where
  "authenticate l md5_hash c ch =
     (case recv ch of
        (Pending, ch1) \<Rightarrow> (Pending, ch1)
      | (Ret (Inl e), ch1) \<Rightarrow> (Ret (Err e), ch1)
      | (Ret (Inr m), ch1) \<Rightarrow>
          (case m of
             AuthenticationOk \<Rightarrow> read_startup_params ch1
           | AuthenticationCleartextPassword \<Rightarrow>
               if \<not> secure ch1 \<and> \<not> allow_insecure_auth c
               then (Ret (Err (InsecureAuthentication ''cleartext password'')), ch1)
               else (case cleartext_auth c ch1 of
                       (Inl e, ch2) \<Rightarrow> (Ret (Err e), ch2)
                     | (Inr _, ch2) \<Rightarrow> authenticate l md5_hash c ch2)
           | AuthenticationMd5Password salt \<Rightarrow>
               if \<not> secure ch1 \<and> \<not> allow_insecure_auth c
               then (Ret (Err (InsecureAuthentication ''MD5'')), ch1)
               else (case md5_auth md5_hash c salt ch1 of
                       (Inl e, ch2) \<Rightarrow> (Ret (Err e), ch2)
                     | (Inr _, ch2) \<Rightarrow> authenticate l md5_hash c ch2)
           | AuthenticationSasl body \<Rightarrow>
               (case body of
                  Inl e \<Rightarrow> (Ret (Err (AeIo e)), ch1)
                | Inr mechanisms \<Rightarrow>
                    (case scram_auth l c mechanisms ch1 of
                       (Pending, ch2) \<Rightarrow> (Pending, ch2)
                     | (Ret (Inl e), ch2) \<Rightarrow> (Ret (Err e), ch2)
                     | (Ret (Inr _), ch2) \<Rightarrow> authenticate l md5_hash c ch2))
           | ErrorResponse b \<Rightarrow> (Ret (server_error_result b), ch1)
           | _ \<Rightarrow> (Ret (Err UnexpectedMessage), ch1)))"
  by pat_completeness auto
termination
proof (relation "measure (\<lambda>(l, h, c, ch). length (inbox ch))", goal_cases)
  case (2 l h c ch r ch1 m x ch2)
  then show ?case by (auto dest!: recv_shrinks [OF sym] cleartext_auth_inbox [OF sym])
next
  case (3 l h c ch r ch1 m salt x ch2)
  then show ?case by (auto dest!: recv_shrinks [OF sym] md5_auth_inbox [OF sym])
next
  case (4 l h c ch r ch1 m body mechs x ch2)
  then show ?case by (auto dest!: recv_shrinks [OF sym] scram_auth_inbox [OF sym])
qed simp

declare authenticate.simps [simp del]

subsection \<open>No password on an insecure channel\<close>

definition is_password :: "frontend_message \<Rightarrow> bool" where
  "is_password m = (case m of PasswordMessage _ \<Rightarrow> True | _ \<Rightarrow> False)"

definition passwords :: "'x channel_scheme \<Rightarrow> frontend_message list" where
  "passwords ch = filter is_password (outbox ch)"

lemma read_startup_params_frame:
  "outbox (snd (read_startup_params_loop ms p ch)) = outbox ch"
  by (induction ms p ch rule: read_startup_params_loop.induct)
    (auto split: backend_message.splits sum.splits)

lemma passwords_recv: "recv ch = (r, ch') \<Longrightarrow> passwords ch' = passwords ch"
  by (simp add: passwords_def recv_frame(1))

lemma passwords_send: "chan_write ms ch = (r, ch') \<Longrightarrow> \<forall>m\<in>set ms. \<not> is_password m \<Longrightarrow> passwords ch' = passwords ch"
  using chan_write_frame(4) [of ms ch r ch'] by (auto simp: passwords_def filter_empty_conv)

lemma recv_keeps: "recv ch = (r, ch') \<Longrightarrow> passwords ch' = passwords ch \<and> secure ch' = secure ch"
  by (simp add: passwords_recv recv_frame(3))

lemma sasl_send_keeps:
  "chan_send (SaslInitialResponse m d) ch = (r, ch') \<Longrightarrow> passwords ch' = passwords ch \<and> secure ch' = secure ch"
  "chan_send (SaslResponse d) ch = (r, ch') \<Longrightarrow> passwords ch' = passwords ch \<and> secure ch' = secure ch"
  by (auto dest: passwords_send chan_write_frame(2) simp: is_password_def)

lemma scram_auth_frame:
  assumes "scram_auth l c ms ch = (r, ch')"
  shows "passwords ch' = passwords ch \<and> secure ch' = secure ch"
  using assms
  by (simp add: scram_auth_def Let_def split: option.splits sum.splits prod.splits outcome.splits
      backend_message.splits) (auto dest!: recv_keeps sasl_send_keeps)

lemma authenticate_passwords:
  assumes "\<not> secure ch" "\<not> allow_insecure_auth c"
  shows "passwords (snd (authenticate l h c ch)) = passwords ch"
  using assms
proof (induction l h c ch rule: authenticate.induct)
  case (1 l h c ch)
  obtain r ch1 where rc: "recv ch = (r, ch1)" by fastforce
  have f: "passwords ch1 = passwords ch" "secure ch1 = secure ch"
    using rc by (auto dest: passwords_recv recv_frame(3))
  show ?case
  proof (cases r)
    case Pending
    then show ?thesis using rc f by (subst authenticate.simps) simp
  next
    case (Ret x)
    show ?thesis
    proof (cases x)
      case (Inl e)
      then show ?thesis using rc f Ret by (subst authenticate.simps) simp
    next
      case (Inr m)
      show ?thesis
      proof (cases "\<exists>mechs. m = AuthenticationSasl (Inr mechs)")
        case True
        then obtain mechs where m: "m = AuthenticationSasl (Inr mechs)" ..
        obtain q ch2 where sa: "scram_auth l c mechs ch1 = (q, ch2)" by fastforce
        note sf = scram_auth_frame [OF sa]
        have IH: "passwords (snd (authenticate l h c ch2)) = passwords ch2" if "q = Ret (Inr u)" for u
          using 1(3) [OF rc [symmetric] Ret Inr m refl sa [symmetric] that refl] sf f 1(4,5) by simp
        show ?thesis using rc f Ret Inr m sa sf IH
          by (subst authenticate.simps) (auto split: outcome.splits sum.splits)
      next
        case False
        then show ?thesis using rc f Ret Inr 1(4,5)
          by (subst authenticate.simps)
            (auto simp: passwords_def read_startup_params_def read_startup_params_frame
              split: backend_message.splits sum.splits)
      qed
    qed
  qed
qed

subsection \<open>No plaintext downgrade\<close>

text \<open>
  C20.  Unless the configuration allows insecure authentication, no password message (cleartext or MD5)
  is ever written to a channel that is not secure, whatever the server asks for and in whatever
  order, and whether or not authentication succeeds.
\<close>

theorem authenticate_no_password:
  assumes "\<not> secure ch" "\<not> allow_insecure_auth c"
  shows "passwords (snd (authenticate l h c ch)) = passwords ch"
  by (rule authenticate_passwords [OF assms])

subsection \<open>What authentication leaves alone\<close>

text \<open>\<open>ch'\<close> is the same channel after some more messages.\<close>

definition grows :: "'x channel_scheme \<Rightarrow> 'x channel_scheme \<Rightarrow> bool" where
  "grows ch ch' = (secure ch' = secure ch \<and> tls_server_end_point ch' = tls_server_end_point ch \<and>
     (\<exists>ms. outbox ch' = outbox ch @ ms))"

lemma grows_refl [simp]: "grows ch ch"
  by (simp add: grows_def)

lemma grows_trans: "grows a b \<Longrightarrow> grows b c \<Longrightarrow> grows a c"
  by (auto simp: grows_def)

lemma recv_grows: "recv ch = (r, ch') \<Longrightarrow> grows ch ch'"
  using recv_frame [of ch r ch'] by (simp add: grows_def)

lemma chan_write_grows: "chan_write ms ch = (r, ch') \<Longrightarrow> grows ch ch'"
  using chan_write_frame [of ms ch r ch'] by (auto simp: grows_def)

lemma scram_auth_grows: "scram_auth l c ms ch = (r, ch') \<Longrightarrow> grows ch ch'"
  by (auto simp: scram_auth_def Let_def dest!: recv_grows chan_write_grows intro: grows_trans
      split: option.splits sum.splits prod.splits outcome.splits backend_message.splits)

lemma cleartext_auth_grows: "cleartext_auth c ch = (r, ch') \<Longrightarrow> grows ch ch'"
  by (auto simp: cleartext_auth_def dest!: chan_write_grows split: option.splits)

lemma md5_auth_grows: "md5_auth h c salt ch = (r, ch') \<Longrightarrow> grows ch ch'"
  by (auto simp: md5_auth_def dest!: chan_write_grows split: option.splits)

lemma read_startup_params_grows: "read_startup_params ch = (r, ch') \<Longrightarrow> grows ch ch'"
proof -
  have "read_startup_params_loop ms p ch = (r, ch') \<Longrightarrow> grows ch ch'" for ms p
    by (induction ms p ch rule: read_startup_params_loop.induct)
      (auto simp: grows_def split: backend_message.splits sum.splits)
  then show "read_startup_params ch = (r, ch') \<Longrightarrow> grows ch ch'" by (simp add: read_startup_params_def)
qed

lemma authenticate_grows: "authenticate l h c ch = (r, ch') \<Longrightarrow> grows ch ch'"
proof (induction l h c ch arbitrary: r ch' rule: authenticate.induct)
  case (1 l h c ch)
  obtain x ch1 where rc: "recv ch = (x, ch1)" by fastforce
  note g1 = recv_grows [OF rc]
  have "grows ch1 ch'"
  proof (cases "\<exists>m. x = Ret (Inr m)")
    case False
    then show ?thesis using 1(4) rc
      by (subst (asm) authenticate.simps) (auto split: outcome.splits sum.splits)
  next
    case True
    then obtain m where m: "x = Ret (Inr m)" by blast
    have rc': "recv ch = (Ret (Inr m), ch1)" using rc m by simp
    show ?thesis
    proof (cases m)
      case AuthenticationCleartextPassword
      then show ?thesis using 1(4) rc' 1(1) [OF rc' [symmetric] refl refl]
        by (subst (asm) authenticate.simps)
          (auto split: if_splits prod.splits sum.splits intro: cleartext_auth_grows grows_trans [OF cleartext_auth_grows])
    next
      case (AuthenticationMd5Password salt)
      then show ?thesis using 1(4) rc' 1(2) [OF rc' [symmetric] refl refl]
        by (subst (asm) authenticate.simps)
          (auto split: if_splits prod.splits sum.splits intro: md5_auth_grows grows_trans [OF md5_auth_grows])
    next
      case (AuthenticationSasl body)
      then show ?thesis using 1(4) rc' 1(3) [OF rc' [symmetric] refl refl]
        by (subst (asm) authenticate.simps)
          (auto split: if_splits prod.splits sum.splits outcome.splits intro: scram_auth_grows grows_trans [OF scram_auth_grows])
    next
      case AuthenticationOk
      then show ?thesis using 1(4) rc'
        by (subst (asm) authenticate.simps) (auto dest: read_startup_params_grows)
    qed (use 1(4) rc' in \<open>simp_all add: authenticate.simps [of l h c ch]\<close>)
  qed
  then show ?case using g1 grows_trans by blast
qed

lemma negotiate_tls_secure:
  assumes "tls_mode c \<in> {Require, VerifyCa, VerifyFull}"
    and "negotiate_tls clock rx wa fl handshake lossy t c = Ok r"
  shows "is_tls r"
  using assms
  by (auto simp: negotiate_tls_def is_tls_def Let_def
      split: sum.splits prod.splits if_splits)

theorem authenticate_no_password_witness:
  "passwords (snd (authenticate \<lparr> scram_new = \<lambda>_ _. (), scram_message = \<lambda>_. [], scram_update = \<lambda>s _. Ok s,
       scram_finish = \<lambda>_ _. Ok () \<rparr> (\<lambda>_ _ _. ''md5'') config_new
     \<lparr> inbox = [Ok AuthenticationCleartextPassword, Ok AuthenticationOk, Ok (ReadyForQuery CHR ''I'')], outbox = [],
       write_faults = [], secure = False, tls_server_end_point = None, shut_down = False \<rparr>)) = []"
  by (subst authenticate_no_password) (simp_all add: config_new_def passwords_def)

lemma apply_tls_secure:
  assumes "ssl_mode c \<in> {Require, VerifyCa, VerifyFull}"
    and "apply_tls clock rx wa fl handshake lossy t c = Ok r"
  shows "\<exists>s t'. r = Tls s \<and> handshake t' (verification_policy \<lparr> tls_mode = ssl_mode c, server_name = host c,
     tls_accept_invalid_certs = accept_invalid_certs c \<rparr>) (host c) = Ok s"
proof -
  let ?t = "\<lparr> tls_mode = ssl_mode c, server_name = host c, tls_accept_invalid_certs = accept_invalid_certs c \<rparr>"
  have n: "negotiate_tls clock rx wa fl handshake lossy t ?t = Ok r"
    using assms by (auto simp: apply_tls_def map_err_def split: if_splits sum.splits)
  then have "is_tls r" using assms(1) by (intro negotiate_tls_secure [where c = ?t]) auto
  then obtain s where s: "r = Tls s" by (cases r) (auto simp: is_tls_def)
  then obtain t' where "handshake t' (verification_policy ?t) (host c) = Ok s"
    using n by (auto simp: negotiate_tls_def Let_def split: sum.splits prod.splits if_splits ssl_mode.splits)
  then show ?thesis using s by blast
qed

text \<open>
  No downgrade: with \<open>sslmode\<close> \<open>require\<close>, \<open>verify-ca\<close> or \<open>verify-full\<close> a transport returned by
  \<open>apply_tls\<close> is a TLS transport, never the plain one, whatever the server answers to the SSL
  request; the handshake it comes from used the configured host name, and certificates were
  verified against the host unless the mode or \<open>accept_invalid_certs\<close> says otherwise.
\<close>

lemma apply_tls_no_downgrade:
  assumes "ssl_mode c \<in> {Require, VerifyCa, VerifyFull}"
    and "apply_tls clock rx wa fl handshake lossy t c = Ok r"
  shows "\<exists>s t' pol. r = Tls s \<and> handshake t' pol (host c) = Ok s \<and>
     (ssl_mode c = VerifyFull \<and> \<not> accept_invalid_certs c \<longrightarrow> pol = VerifyFullPolicy) \<and>
     (ssl_mode c = VerifyCa \<and> \<not> accept_invalid_certs c \<longrightarrow> pol = VerifyCaOnly)"
  using apply_tls_secure [OF assms] by (force simp: verification_policy_def)

lemma chan_send_ok:
  "chan_write ms ch = (Ok u, ch') \<Longrightarrow> outbox ch' = outbox ch @ ms \<and> inbox ch' = inbox ch"
  by (auto simp: chan_write_def split: list.splits option.splits)

lemma recv_ret: "recv ch = (Ret r, ch') \<Longrightarrow> inbox ch = r # inbox ch' \<and> outbox ch' = outbox ch"
  by (auto simp: recv_def split: list.splits)

lemma select_prefers_binding:
  "select_scram_mechanism b mechs = Ok (mech, bnd) \<Longrightarrow> SCRAM_SHA_256_PLUS \<in> set mechs \<and> b \<noteq> None \<longrightarrow>
     mech = SCRAM_SHA_256_PLUS \<and> bnd = TlsServerEndPoint (the b)"
  by (auto simp: select_scram_mechanism_def)

text \<open>
  C24.  A successful SCRAM exchange authenticates the server: \<open>scram_auth\<close> returns success only if the
  server's first message was accepted by the SCRAM state started from the configured password and
  the selected channel binding, and its final message (the server signature) was verified by it; the
  client has then sent exactly the two SASL messages and consumed exactly the two answers.
  Moreover the channel-binding variant is selected whenever the server offers it on a channel that
  has binding data.
\<close>

theorem scram_auth_verified:
  assumes "scram_auth l c mechs ch = (Ret (Ok ()), ch')"
  shows "\<exists>p mech bnd first final s2. password c = Some p \<and>
     select_scram_mechanism (tls_server_end_point ch) mechs = Ok (mech, bnd) \<and>
     scram_update l (scram_new l (bytes_of p) bnd) first = Ok s2 \<and> scram_finish l s2 final = Ok () \<and>
     inbox ch = [Ok (AuthenticationSaslContinue first), Ok (AuthenticationSaslFinal final)] @ inbox ch' \<and>
     outbox ch' = outbox ch @ [SaslInitialResponse mech (scram_message l (scram_new l (bytes_of p) bnd)),
       SaslResponse (scram_message l s2)] \<and>
     (SCRAM_SHA_256_PLUS \<in> set mechs \<and> tls_server_end_point ch \<noteq> None \<longrightarrow>
       mech = SCRAM_SHA_256_PLUS \<and> bnd = TlsServerEndPoint (the (tls_server_end_point ch)))"
proof -
  obtain p where p: "password c = Some p" using assms by (cases "password c") (auto simp: scram_auth_def)
  obtain mech bnd where s: "select_scram_mechanism (tls_server_end_point ch) mechs = Ok (mech, bnd)"
    using assms p by (auto simp: scram_auth_def split: sum.splits)
  let ?s = "scram_new l (bytes_of p) bnd"
  obtain ch1 where c1: "chan_send (SaslInitialResponse mech (scram_message l ?s)) ch = (Ok (), ch1)"
    using assms p s by (auto simp: scram_auth_def Let_def split: prod.splits sum.splits)
  obtain first ch2 where r1: "recv ch1 = (Ret (Ok (AuthenticationSaslContinue first)), ch2)"
    using assms p s c1
    by (auto simp: scram_auth_def Let_def server_error_result_def
        split: prod.splits sum.splits outcome.splits backend_message.splits)
  obtain s2 where u: "scram_update l ?s first = Ok s2"
    using assms p s c1 r1 by (auto simp: scram_auth_def Let_def split: sum.splits)
  obtain ch3 where c2: "chan_send (SaslResponse (scram_message l s2)) ch2 = (Ok (), ch3)"
    using assms p s c1 r1 u by (auto simp: scram_auth_def Let_def split: prod.splits sum.splits)
  obtain final where r2: "recv ch3 = (Ret (Ok (AuthenticationSaslFinal final)), ch')" "scram_finish l s2 final = Ok ()"
    using assms p s c1 r1 u c2
    by (auto simp: scram_auth_def Let_def server_error_result_def map_err_def
        split: prod.splits sum.splits outcome.splits backend_message.splits)
  show ?thesis
    using p s u r2(2) chan_send_ok [OF c1] chan_send_ok [OF c2] recv_ret [OF r1] recv_ret [OF r2(1)]
      select_prefers_binding [OF s]
    by (intro exI conjI) auto
qed

theorem scram_auth_verified_witness:
  "\<exists>ch'. scram_auth \<lparr> scram_new = \<lambda>p b. p, scram_message = \<lambda>s. s, scram_update = \<lambda>s m. Ok (s @ m),
       scram_finish = \<lambda>s m. if m = [9] then Ok () else Err ''bad signature'' \<rparr>
      (config_new\<lparr>password := Some ''pw''\<rparr>) [SCRAM_SHA_256]
      \<lparr> inbox = [Ok (AuthenticationSaslContinue [5]), Ok (AuthenticationSaslFinal [9])], outbox = [],
        write_faults = [], secure = True, tls_server_end_point = None, shut_down = False \<rparr>
     = (Ret (Ok ()), ch') \<and> inbox ch' = []"
proof -
  let ?l = "\<lparr> scram_new = \<lambda>p b. p, scram_message = \<lambda>s. s, scram_update = \<lambda>s m. Ok (s @ m),
       scram_finish = \<lambda>s m. if m = [9] then Ok () else Err ''bad signature'' \<rparr>"
  let ?ch = "\<lparr> inbox = [Ok (AuthenticationSaslContinue [5]), Ok (AuthenticationSaslFinal [9])], outbox = [],
        write_faults = [], secure = True, tls_server_end_point = None, shut_down = False \<rparr>"
  obtain ch' where r: "scram_auth ?l (config_new\<lparr>password := Some ''pw''\<rparr>) [SCRAM_SHA_256] ?ch = (Ret (Ok ()), ch')"
    by (simp add: scram_auth_def select_scram_mechanism_def SCRAM_SHA_256_def SCRAM_SHA_256_PLUS_def
        chan_write_def recv_def map_err_def Let_def)
  from scram_auth_verified [OF r] r show ?thesis by auto
qed

end
