(* ===== verification/Sql_Text.thy ===== *)
theory Sql_Text
  imports Prelude
begin

text \<open>
  Text the client builds or reads: quoted identifiers (\<open>transaction/mod.rs\<close>), escaped literals and
  the statements built from them (\<open>connection.rs\<close>), \<open>BEGIN\<close> options (\<open>transaction/options.rs\<close>),
  savepoint statements (\<open>transaction/savepoint.rs\<close>), command tags (\<open>query/result.rs\<close>) and CSV lines
  of the COPY protocol (\<open>copy/mod.rs\<close>).  The contract of a quoting scheme is the locale
  \<open>quoted_text\<close>: a scanner that knows where a quoted text ends reads back the quoted value, whatever
  follows.
\<close>

subsection \<open>Builders\<close>

definition dquote :: char where "dquote = CHR 0x22"
definition squote :: char where "squote = CHR 0x27"
definition backslash :: char where "backslash = CHR 0x5C"

lemmas quote_chars = dquote_def squote_def backslash_def

definition quote_identifier :: "string \<Rightarrow> string" where
  "quote_identifier s = [dquote] @ replace_char dquote [dquote, dquote] s @ [dquote]"

definition escape_sql_literal :: "string \<Rightarrow> string" where
  "escape_sql_literal v =
     replace_char squote [squote, squote] (replace_char backslash [backslash, backslash] v)"

definition build_set_param_sql :: "string \<Rightarrow> string \<Rightarrow> string" where
  "build_set_param_sql key v =
     ''SET '' @ quote_identifier key @ '' = '' @ [squote] @ escape_sql_literal v @ [squote]"

definition build_listen_sql :: "string \<Rightarrow> string" where
  "build_listen_sql ch = ''LISTEN '' @ quote_identifier ch"

definition build_unlisten_sql :: "string \<Rightarrow> string" where
  "build_unlisten_sql ch = ''UNLISTEN '' @ quote_identifier ch"

definition savepoint_sql :: "string \<Rightarrow> string" where
  "savepoint_sql n = ''SAVEPOINT '' @ quote_identifier n"

definition release_savepoint_sql :: "string \<Rightarrow> string" where
  "release_savepoint_sql n = ''RELEASE SAVEPOINT '' @ quote_identifier n"

definition rollback_savepoint_sql :: "string \<Rightarrow> string" where
  "rollback_savepoint_sql n = ''ROLLBACK TO SAVEPOINT '' @ quote_identifier n"

datatype isolation_level = ReadUncommitted | ReadCommitted | RepeatableRead | Serializable

fun isolation_as_str :: "isolation_level \<Rightarrow> string" where
  "isolation_as_str ReadUncommitted = ''READ UNCOMMITTED''"
| "isolation_as_str ReadCommitted = ''READ COMMITTED''"
| "isolation_as_str RepeatableRead = ''REPEATABLE READ''"
| "isolation_as_str Serializable = ''SERIALIZABLE''"

record transaction_options =
  isolation_level :: "isolation_level option"
  read_only :: "bool option"
  deferrable :: "bool option"

definition default_transaction_options :: transaction_options where
  "default_transaction_options = \<lparr> isolation_level = None, read_only = None, deferrable = None \<rparr>"

definition to_begin_sql :: "transaction_options \<Rightarrow> string" where
  "to_begin_sql opts =
     ''BEGIN'' @
     (case isolation_level opts of None \<Rightarrow> [] | Some l \<Rightarrow> '' ISOLATION LEVEL '' @ isolation_as_str l) @
     (case read_only opts of None \<Rightarrow> []
      | Some ro \<Rightarrow> if ro then '' READ ONLY'' else '' READ WRITE'') @
     (if deferrable opts = Some True then '' DEFERRABLE'' else [])"

subsection \<open>Command tags\<close>

definition rows_affected :: "string \<Rightarrow> nat option" where
  "rows_affected tag =
     (case split_whitespace tag of
        [w, n] \<Rightarrow> if w \<in> set [''UPDATE'', ''DELETE'', ''SELECT'', ''MOVE'', ''FETCH'', ''COPY'']
                  then parse_uint u64_max n else None
      | [w, x, n] \<Rightarrow> if w = ''INSERT'' then parse_uint u64_max n else None
      | _ \<Rightarrow> None)"

subsection \<open>CSV\<close>

definition LF :: char where "LF = CHR 0x0A"
definition CR :: char where "CR = CHR 0x0D"

definition needs_quote :: "char \<Rightarrow> char \<Rightarrow> string \<Rightarrow> bool" where
  "needs_quote d q col = (d \<in> set col \<or> q \<in> set col \<or> LF \<in> set col \<or> CR \<in> set col)"

definition csv_field :: "char \<Rightarrow> char \<Rightarrow> string \<Rightarrow> string" where
  "csv_field d q col =
     (if needs_quote d q col then [q] @ replace_char q [q, q] col @ [q] else col)"

definition csv_line :: "char \<Rightarrow> char \<Rightarrow> string list \<Rightarrow> string" where
  "csv_line d q cols = join [d] (map (csv_field d q) cols) @ [LF]"

definition csv_line_with_null :: "char \<Rightarrow> char \<Rightarrow> string \<Rightarrow> string option list \<Rightarrow> string" where
  "csv_line_with_null d q null_string cols =
     join [d] (map (\<lambda>c. case c of Some v \<Rightarrow> csv_field d q v | None \<Rightarrow> null_string) cols) @ [LF]"

text \<open>The character loop of \<open>parse_csv_line\<close>.\<close>

fun parse_csv_loop :: "char \<Rightarrow> char \<Rightarrow> string \<Rightarrow> string list \<Rightarrow> string \<Rightarrow> bool \<Rightarrow> string list" where
  "parse_csv_loop d q [] fs current in_quotes = fs @ [current]"
| "parse_csv_loop d q (ch # rest) fs current in_quotes =
     (if in_quotes then
        (if ch = q then
           (case rest of
              c # rest' \<Rightarrow> if c = q then parse_csv_loop d q rest' fs (current @ [q]) True
                          else parse_csv_loop d q rest fs current False
            | [] \<Rightarrow> parse_csv_loop d q rest fs current False)
         else parse_csv_loop d q rest fs (current @ [ch]) True)
      else if ch = d then parse_csv_loop d q rest (fs @ [current]) [] False
      else if ch = q then parse_csv_loop d q rest fs current True
      else parse_csv_loop d q rest fs (current @ [ch]) False)"

definition parse_csv_line :: "char \<Rightarrow> char \<Rightarrow> string \<Rightarrow> string list" where
  "parse_csv_line d q line = parse_csv_loop d q line [] [] False"

subsection \<open>COPY options\<close>

datatype copy_format = TextFormat | Csv char string bool char char | BinaryFormat

definition show_bool :: "bool \<Rightarrow> string" where
  "show_bool b = (if b then ''true'' else ''false'')"

fun to_sql_options :: "copy_format \<Rightarrow> string" where
  "to_sql_options TextFormat = []"
| "to_sql_options (Csv d null header q e) =
     ''WITH (FORMAT csv, DELIMITER '' @ [squote, d, squote] @ '', NULL '' @ [squote] @ null @ [squote]
     @ '', HEADER '' @ show_bool header @ '', QUOTE '' @ [squote, q, squote]
     @ '', ESCAPE '' @ [squote, e, squote] @ '')''"
| "to_sql_options BinaryFormat = ''WITH (FORMAT binary)''"

subsection \<open>Scanners\<close>

text \<open>
  How the server's lexer reads a quoted text whose opening quote has been consumed: a doubled quote
  is one quote character, a single one ends the text.  \<open>scan_escape\<close> reads a literal in which a
  backslash escapes the next character (\<open>standard_conforming_strings = off\<close>).
\<close>

fun scan_quoted :: "char \<Rightarrow> string \<Rightarrow> string \<Rightarrow> (string \<times> string) option" where
  "scan_quoted q acc [] = None"
| "scan_quoted q acc (c # s) =
     (if c = q then
        (case s of
           c' # s' \<Rightarrow> if c' = q then scan_quoted q (acc @ [q]) s' else Some (acc, s)
         | [] \<Rightarrow> Some (acc, []))
      else scan_quoted q (acc @ [c]) s)"

fun scan_escape :: "string \<Rightarrow> string \<Rightarrow> (string \<times> string) option" where
  "scan_escape acc [] = None"
| "scan_escape acc (c # s) =
     (if c = squote then
        (case s of
           c' # s' \<Rightarrow> if c' = squote then scan_escape (acc @ [squote]) s' else Some (acc, s)
         | [] \<Rightarrow> Some (acc, []))
      else if c = backslash then
        (case s of [] \<Rightarrow> None | c' # s' \<Rightarrow> scan_escape (acc @ [c']) s')
      else scan_escape (acc @ [c]) s)"

lemma scan_quoted_double:
  "scan_quoted q acc (replace_char q [q, q] v @ q # rest) =
     (if rest \<noteq> [] \<and> hd rest = q then scan_quoted q (acc @ v @ [q]) (tl rest)
      else Some (acc @ v, rest))"
proof (induction v arbitrary: acc)
  case Nil
  then show ?case by (cases rest) auto
next
  case (Cons c v)
  then show ?case by auto
qed

lemma scan_escape_double:
  "rest = [] \<or> hd rest \<noteq> squote \<Longrightarrow>
   scan_escape acc (escape_sql_literal v @ squote # rest) = Some (acc @ v, rest)"
proof (induction v arbitrary: acc)
  case Nil
  then show ?case by (cases rest) (auto simp: escape_sql_literal_def)
next
  case (Cons c v)
  consider "c = squote" | "c = backslash" | "c \<noteq> squote" "c \<noteq> backslash" by blast
  then show ?case
    using Cons by cases (auto simp: escape_sql_literal_def quote_chars)
qed

text \<open>
  \<open>enc\<close> is the text between the quotes, \<open>scan\<close> reads from after the opening quote and gives the
  value read and the text after the closing quote, \<open>val\<close> is the value the reader sees for \<open>v\<close>.
\<close>

locale quoted_text =
  fixes q :: char and enc :: "string \<Rightarrow> string" and scan :: "string \<Rightarrow> (string \<times> string) option"
    and val :: "string \<Rightarrow> string"
  assumes scan_enc: "rest = [] \<or> hd rest \<noteq> q \<Longrightarrow> scan (enc v @ q # rest) = Some (val v, rest)"
    and val_inj: "val v = val w \<Longrightarrow> v = w"
begin

lemma enc_inj: "enc v = enc w \<Longrightarrow> v = w"
  using scan_enc [of "[]" v] scan_enc [of "[]" w] val_inj by simp

text \<open>The statement continues after the quoted value exactly where its author put the rest.\<close>

lemma no_break_out:
  assumes "rest = [] \<or> hd rest \<noteq> q" "rest' = [] \<or> hd rest' \<noteq> q"
    and "enc v @ q # rest = enc w @ q # rest'"
  shows "v = w" "rest = rest'"
  using scan_enc [OF assms(1), of v] scan_enc [OF assms(2), of w] assms(3) val_inj by auto

end

lemma replace_double_inj:
  assumes "replace_char c [c, c] v = replace_char c [c, c] w"
  shows "v = w"
proof -
  have s: "scan_quoted c [] (replace_char c [c, c] u @ [c]) = Some (u, [])" for u
    using scan_quoted_double [of c "[]" u "[]"] by simp
  show ?thesis using s [of v] s [of w] unfolding assms by simp
qed

interpretation ident: quoted_text dquote "replace_char dquote [dquote, dquote]"
  "scan_quoted dquote []" "\<lambda>v. v"
proof (unfold_locales, goal_cases)
  case (1 rest v)
  then show ?case by (subst scan_quoted_double) auto
qed simp

interpretation lit_escape: quoted_text squote escape_sql_literal "scan_escape []" "\<lambda>v. v"
proof (unfold_locales, goal_cases)
  case (1 rest v)
  then show ?case by (simp add: scan_escape_double)
qed simp

interpretation lit_std: quoted_text squote escape_sql_literal "scan_quoted squote []"
  "replace_char backslash [backslash, backslash]"
proof (unfold_locales, goal_cases)
  case (1 rest v)
  then show ?case unfolding escape_sql_literal_def by (subst scan_quoted_double) auto
next
  case (2 v w)
  then show ?case by (rule replace_double_inj)
qed

subsection \<open>CSV lines\<close>

lemma csv_loop_plain:
  "\<forall>c\<in>set v. c \<noteq> d \<and> c \<noteq> q \<Longrightarrow>
   parse_csv_loop d q (v @ s) fs cur False = parse_csv_loop d q s fs (cur @ v) False"
  by (induction v arbitrary: cur) auto

lemma csv_loop_quoted:
  assumes "d \<noteq> q" "s = [] \<or> hd s \<noteq> q"
  shows "parse_csv_loop d q (replace_char q [q, q] v @ q # s) fs cur True =
         parse_csv_loop d q s fs (cur @ v) False"
  using assms
proof (induction v arbitrary: cur)
  case Nil
  then show ?case by (cases s) auto
next
  case (Cons c v)
  then show ?case by auto
qed

lemma csv_loop_field:
  assumes "d \<noteq> q" "s = [] \<or> hd s \<noteq> q"
  shows "parse_csv_loop d q (csv_field d q v @ s) fs [] False =
         parse_csv_loop d q s fs v False"
proof (cases "needs_quote d q v")
  case True
  then have "parse_csv_loop d q (csv_field d q v @ s) fs [] False =
             parse_csv_loop d q (replace_char q [q, q] v @ q # s) fs [] True"
    using assms by (simp add: csv_field_def)
  then show ?thesis using csv_loop_quoted [OF assms, of v fs "[]"] by simp
next
  case False
  then show ?thesis using csv_loop_plain [of v d q s fs "[]"]
    by (auto simp: csv_field_def needs_quote_def)
qed

lemma csv_loop_fields:
  assumes "d \<noteq> q" "cols \<noteq> []"
  shows "parse_csv_loop d q (join [d] (map (csv_field d q) cols)) fs [] False = fs @ cols"
  using assms(2)
proof (induction cols arbitrary: fs rule: induct_list012)
  case (2 c)
  then show ?case using csv_loop_field [OF assms(1), of "[]" c fs] by simp
next
  case (3 c c' cs)
  then show ?case
    using csv_loop_field [OF assms(1), of "d # join [d] (map (csv_field d q) (c' # cs))" c fs] assms(1)
    by simp
qed simp

text \<open>
  CSV round trip: a row written by \<open>write_csv_row\<close> and read back with \<open>parse_csv_line\<close> (the line
  terminator stripped) gives the same columns, whatever delimiters, quotes or line breaks they
  contain, for every delimiter and quote character that differ.
\<close>

lemma parse_csv_line_round_trip:
  assumes "d \<noteq> q" "cols \<noteq> []"
  shows "parse_csv_line d q (butlast (csv_line d q cols)) = cols"
  using csv_loop_fields [OF assms, of "[]"] by (simp add: parse_csv_line_def csv_line_def)

subsection \<open>Command tags\<close>

lemma rows_affected_two:
  assumes "w \<in> set [''UPDATE'', ''DELETE'', ''SELECT'', ''MOVE'', ''FETCH'', ''COPY'']" "n \<le> u64_max"
  shows "rows_affected (w @ '' '' @ show_nat n) = Some n"
proof -
  have w: "w \<noteq> []" "plain_word w" using assms(1) by (auto simp: is_ws_def is_cont_def)
  have "split_whitespace (w @ '' '' @ show_nat n) = [w, show_nat n]"
    using split_whitespace_word_space [OF w(2,1), of "CHR '' ''" "show_nat n"]
      split_whitespace_word [OF show_nat_word show_nat_nonempty, of n] show_nat_starts
    by (simp add: is_ws_def is_cont_def)
  then show ?thesis using assms by (simp add: rows_affected_def)
qed

lemma rows_affected_insert:
  assumes "n \<le> u64_max"
  shows "rows_affected (''INSERT '' @ show_nat oid @ '' '' @ show_nat n) = Some n"
proof -
  have i: "plain_word ''INSERT''" by (simp add: is_ws_def is_cont_def)
  have "split_whitespace (''INSERT'' @ CHR '' '' # (show_nat oid @ CHR '' '' # show_nat n)) =
        [''INSERT'', show_nat oid, show_nat n]"
    using split_whitespace_word_space [OF i, of "CHR '' ''" "show_nat oid @ CHR '' '' # show_nat n"]
      split_whitespace_word_space [OF show_nat_word show_nat_nonempty, of "CHR '' ''" "show_nat n" oid]
      split_whitespace_word [OF show_nat_word show_nat_nonempty, of n] show_nat_starts
    by (simp add: is_ws_def is_cont_def)
  then show ?thesis using assms by (simp add: rows_affected_def)
qed

subsection \<open>Properties\<close>

text \<open>
  C34.  The statement built by \<open>set_param\<close> cannot be broken out of: the server's lexer reads the quoted
  identifier as exactly the key, then the text \<open> = \<close>, then a literal that is the last thing in the
  statement.  With backslash escapes the literal is exactly the value; under
  \<open>standard_conforming_strings\<close> its backslashes are doubled.
\<close>

theorem set_param_sql_reads_back:
  "\<exists>x y. build_set_param_sql key v = ''SET '' @ dquote # x \<and>
     scan_quoted dquote [] x = Some (key, '' = '' @ squote # y) \<and>
     scan_escape [] y = Some (v, []) \<and>
     scan_quoted squote [] y = Some (replace_char backslash [backslash, backslash] v, [])"
proof (intro exI conjI)
  let ?y = "escape_sql_literal v @ squote # []"
  let ?x = "replace_char dquote [dquote, dquote] key @ dquote # '' = '' @ squote # ?y"
  show "build_set_param_sql key v = ''SET '' @ dquote # ?x"
    by (simp add: build_set_param_sql_def quote_identifier_def)
  show "scan_quoted dquote [] ?x = Some (key, '' = '' @ squote # ?y)"
    by (rule ident.scan_enc) (simp add: quote_chars)
  show "scan_escape [] ?y = Some (v, [])" by (rule lit_escape.scan_enc) simp
  show "scan_quoted squote [] ?y = Some (replace_char backslash [backslash, backslash] v, [])"
    by (rule lit_std.scan_enc) simp
qed

text \<open>
  The statements that carry one identifier (\<open>LISTEN\<close>, \<open>UNLISTEN\<close>, \<open>SAVEPOINT\<close>, \<open>RELEASE SAVEPOINT\<close>,
  \<open>ROLLBACK TO SAVEPOINT\<close>) are their keywords followed by one quoted identifier that reads back as the
  given name and by nothing else; in particular two names give the same statement only if they are
  equal.
\<close>

lemma identifier_statements_closed:
  "list_all (\<lambda>(build, keyword). \<exists>x. build n = keyword @ dquote # x \<and> scan_quoted dquote [] x = Some (n, []) \<and>
       (\<forall>n'. build n' = build n \<longleftrightarrow> n' = n))
     [(build_listen_sql, ''LISTEN ''), (build_unlisten_sql, ''UNLISTEN ''), (savepoint_sql, ''SAVEPOINT ''),
      (release_savepoint_sql, ''RELEASE SAVEPOINT ''), (rollback_savepoint_sql, ''ROLLBACK TO SAVEPOINT '')]"
proof -
  have "scan_quoted dquote [] (replace_char dquote [dquote, dquote] n @ dquote # []) = Some (n, [])"
    by (rule ident.scan_enc) simp
  then show ?thesis
    by (auto simp: build_listen_sql_def build_unlisten_sql_def savepoint_sql_def release_savepoint_sql_def
        rollback_savepoint_sql_def quote_identifier_def dest: ident.enc_inj)
qed

text \<open>
  The number of affected rows is read from every command tag the server produces for a statement
  that counts rows, for counts up to \<open>u64::MAX\<close>: the number after the word, and the second number for
  \<open>INSERT\<close>, whatever the object id.
\<close>

lemma rows_affected_reads_count:
  assumes "n \<le> u64_max"
  shows "list_all (\<lambda>w. rows_affected (w @ '' '' @ show_nat n) = Some n)
       [''UPDATE'', ''DELETE'', ''SELECT'', ''MOVE'', ''FETCH'', ''COPY''] \<and>
     rows_affected (''INSERT '' @ show_nat oid @ '' '' @ show_nat n) = Some n"
  using rows_affected_two [OF _ assms] rows_affected_insert [OF assms] unfolding list_all_iff by blast

end
