(* ===== verification/Connection.thy ===== *)
theory Connection
  imports Auth Sql_Text
begin

text \<open>
  The connection object (\<open>connection.rs\<close>): its record, the state-transition table, the handling of
  asynchronous messages, resynchronisation (\<open>read_until_ready\<close>, \<open>recover\<close>), closing, connecting, and
  the session tracking of \<open>reconnect/session.rs\<close>.  A connection extends its message channel; the
  extra fields \<open>now\<close> (the clock), \<open>dials\<close> (the outcomes of the coming \<open>build_pg_transport\<close> calls) and
  \<open>notices\<close> (what the notice handler was called with) stand for its environment.
\<close>

subsection \<open>Session state\<close>

record session_state =
  prepared_statements :: "(string \<times> string) list"
  listen_channels :: "string list"
  temporary_tables :: "string list"
  custom_gucs :: "(string \<times> string) list"
  reconnect_init_sql :: "string option"
  in_transaction :: bool

definition session_new :: session_state where
  "session_new = \<lparr> prepared_statements = [], listen_channels = [], temporary_tables = [],
                   custom_gucs = [], reconnect_init_sql = None, in_transaction = False \<rparr>"

definition has_state :: "session_state \<Rightarrow> bool" where
  "has_state s = (prepared_statements s \<noteq> [] \<or> listen_channels s \<noteq> [] \<or> temporary_tables s \<noteq> []
                  \<or> custom_gucs s \<noteq> [])"

definition is_reconnect_safe :: "session_state \<Rightarrow> bool" where
  "is_reconnect_safe s = (\<not> in_transaction s \<and> \<not> has_state s)"

definition track_prepare :: "string \<Rightarrow> string \<Rightarrow> session_state \<Rightarrow> session_state" where
  "track_prepare nm sql s = s\<lparr>prepared_statements := amap_insert nm sql (prepared_statements s)\<rparr>"

definition track_close_statement :: "string \<Rightarrow> session_state \<Rightarrow> session_state" where
  "track_close_statement nm s =
     s\<lparr>prepared_statements := filter (\<lambda>p. fst p \<noteq> nm) (prepared_statements s)\<rparr>"

definition get_statement_sql :: "session_state \<Rightarrow> string \<Rightarrow> string option" where
  "get_statement_sql s nm = map_of (prepared_statements s) nm"

definition track_listen :: "string \<Rightarrow> session_state \<Rightarrow> session_state" where
  "track_listen ch s = s\<lparr>listen_channels := List.insert ch (listen_channels s)\<rparr>"

definition track_unlisten :: "string \<Rightarrow> session_state \<Rightarrow> session_state" where
  "track_unlisten ch s = s\<lparr>listen_channels := removeAll ch (listen_channels s)\<rparr>"

definition clear_listen_channels :: "session_state \<Rightarrow> session_state" where
  "clear_listen_channels s = s\<lparr>listen_channels := []\<rparr>"

definition track_temp_table :: "string \<Rightarrow> session_state \<Rightarrow> session_state" where
  "track_temp_table t s = s\<lparr>temporary_tables := List.insert t (temporary_tables s)\<rparr>"

definition track_set_guc :: "string \<Rightarrow> string \<Rightarrow> session_state \<Rightarrow> session_state" where
  "track_set_guc k v s = s\<lparr>custom_gucs := amap_insert k v (custom_gucs s)\<rparr>"

definition clear_session :: "session_state \<Rightarrow> session_state" where
  "clear_session s = s\<lparr>prepared_statements := [], listen_channels := [], temporary_tables := [],
                       custom_gucs := [], in_transaction := False\<rparr>"

record connection_health =
  alive :: bool
  reconnect_count :: "32 word"
  last_confirmed_alive :: "nat option"
  h_needs_recovery :: bool

definition health_new :: "nat \<Rightarrow> connection_health" where
  "health_new t = \<lparr> alive = True, reconnect_count = 0, last_confirmed_alive = Some t,
                    h_needs_recovery = False \<rparr>"

definition mark_alive :: "nat \<Rightarrow> connection_health \<Rightarrow> connection_health" where
  "mark_alive t h = h\<lparr>alive := True, last_confirmed_alive := Some t\<rparr>"

definition mark_broken :: "connection_health \<Rightarrow> connection_health" where
  "mark_broken h = h\<lparr>alive := False\<rparr>"

definition reset_after_reconnect :: "nat \<Rightarrow> connection_health \<Rightarrow> connection_health" where
  "reset_after_reconnect t h = h\<lparr>alive := True, reconnect_count := reconnect_count h + 1,
                                 last_confirmed_alive := Some t, h_needs_recovery := False\<rparr>"

subsection \<open>The connection record\<close>

datatype connection_state =
    Disconnected | Connecting | StartingUp | Authenticating | Idle | ActiveSimpleQuery
  | ActiveExtendedQuery | CopyIn | CopyOut | Streaming | Closing | Closed

fun show_state :: "connection_state \<Rightarrow> string" where
  "show_state Disconnected = ''Disconnected''" | "show_state Connecting = ''Connecting''"
| "show_state StartingUp = ''StartingUp''" | "show_state Authenticating = ''Authenticating''"
| "show_state Idle = ''Idle''" | "show_state ActiveSimpleQuery = ''ActiveSimpleQuery''"
| "show_state ActiveExtendedQuery = ''ActiveExtendedQuery''" | "show_state CopyIn = ''CopyIn''"
| "show_state CopyOut = ''CopyOut''" | "show_state Streaming = ''Streaming''"
| "show_state Closing = ''Closing''" | "show_state Closed = ''Closed''"

record notification =
  n_process_id :: int
  n_channel :: string
  n_payload :: string

record connection = channel +
  now :: nat
  dials :: "(pg_error, channel) res list"
  server_params_of :: server_params
  state :: connection_state
  conn_config :: config
  transaction_status :: transaction_status
  notification_queue :: "notification list"
  notice_handler :: bool
  notices :: "server_error list"
  statement_counter :: "32 word"
  needs_recovery :: bool
  health :: connection_health
  session_state :: session_state

type_synonym 'a cm = "connection \<Rightarrow> (pg_error, 'a) outcome \<times> connection"

definition bindc :: "'a cm \<Rightarrow> ('a \<Rightarrow> 'b cm) \<Rightarrow> 'b cm" where
  "bindc m f c = (case m c of
      (Ret (Inr a), c') \<Rightarrow> f a c'
    | (Ret (Inl e), c') \<Rightarrow> (Ret (Inl e), c')
    | (Pending, c') \<Rightarrow> (Pending, c'))"

definition retc :: "'a \<Rightarrow> 'a cm" where "retc a c = (Ret (Inr a), c)"
definition failc :: "pg_error \<Rightarrow> 'a cm" where "failc e c = (Ret (Inl e), c)"
definition modifyc :: "(connection \<Rightarrow> connection) \<Rightarrow> unit cm" where "modifyc f c = (Ret (Inr ()), f c)"

definition send_c :: "frontend_message \<Rightarrow> unit cm" where
  "send_c msg c = (case chan_write [msg] c of (r, c') \<Rightarrow> (Ret (map_err from_auth_error r), c'))"

definition flush_c :: "unit cm" where
  "flush_c c = (case chan_write [] c of (r, c') \<Rightarrow> (Ret (map_err from_auth_error r), c'))"

lemma bindc_simps [simp]:
  "m c = (Ret (Inr a), c') \<Longrightarrow> bindc m f c = f a c'"
  "m c = (Ret (Inl e), c') \<Longrightarrow> bindc m f c = (Ret (Inl e), c')"
  "m c = (Pending, c') \<Longrightarrow> bindc m f c = (Pending, c')"
  by (simp_all add: bindc_def)

subsection \<open>State transitions\<close>

definition is_idle :: "connection \<Rightarrow> bool" where "is_idle c = (state c = Idle)"
definition is_closed :: "connection \<Rightarrow> bool" where "is_closed c = (state c = Closed)"

definition active_states :: "connection_state list" where
  "active_states = [ActiveSimpleQuery, ActiveExtendedQuery, CopyIn, CopyOut, Streaming]"

definition transition_allowed :: "connection_state \<Rightarrow> connection_state \<Rightarrow> bool" where
  "transition_allowed old new_st =
     (if new_st = Closed then True
      else if old = Idle \<and> new_st \<in> set active_states then True
      else if old \<in> set active_states \<and> new_st = Idle then True
      else old = Idle \<and> new_st = Closing)"

definition transition :: "connection_state \<Rightarrow> unit cm" where
  "transition new_st c =
     (if transition_allowed (state c) new_st then (Ret (Ok ()), c\<lparr>state := new_st\<rparr>)
      else (Ret (Err (PgInvalidState (''invalid state transition from '' @ show_state (state c)
                                      @ '' to '' @ show_state new_st))), c))"

subsection \<open>Asynchronous messages\<close>

definition unwrap_or_empty :: "(io_error, string) res \<Rightarrow> string" where
  "unwrap_or_empty r = (case r of Inl _ \<Rightarrow> [] | Inr s \<Rightarrow> s)"

definition handle_notice :: "server_error \<Rightarrow> connection \<Rightarrow> connection" where
  "handle_notice n c = (if notice_handler c then c\<lparr>notices := notices c @ [n]\<rparr> else c)"

definition handle_async_message :: "backend_message \<Rightarrow> connection \<Rightarrow> bool \<times> connection" where
  "handle_async_message m c =
     (case m of
        NotificationResponse pid ch p \<Rightarrow>
          (True, c\<lparr>notification_queue := notification_queue c @
             [\<lparr>n_process_id = pid, n_channel = unwrap_or_empty ch, n_payload = unwrap_or_empty p\<rparr>]\<rparr>)
      | NoticeResponse b \<Rightarrow>
          (True, case from_notice_body b of Inl _ \<Rightarrow> c | Inr n \<Rightarrow> handle_notice n c)
      | ParameterStatus nm v \<Rightarrow>
          (True, case (nm, v) of
             (Inr n, Inr w) \<Rightarrow> c\<lparr>server_params_of := (server_params_of c)\<lparr>params :=
                                amap_insert n w (params (server_params_of c))\<rparr>\<rparr>
           | _ \<Rightarrow> c)
      | _ \<Rightarrow> (False, c))"

definition ready_status :: "char \<Rightarrow> transaction_status" where
  "ready_status b = (case status_from_u8 b of Some s \<Rightarrow> s | None \<Rightarrow> TIdle)"

definition set_in_transaction :: "bool \<Rightarrow> connection \<Rightarrow> connection" where
  "set_in_transaction b c = c\<lparr>session_state := (session_state c)\<lparr>in_transaction := b\<rparr>\<rparr>"

fun read_until_ready_loop ::
  "(auth_error, backend_message) res list \<Rightarrow> connection \<Rightarrow> (pg_error, unit) outcome \<times> connection"
where
  "read_until_ready_loop [] c = (Pending, c\<lparr>inbox := []\<rparr>)"
| "read_until_ready_loop (Inl e # ms) c = (Ret (Err (from_auth_error e)), c\<lparr>inbox := ms\<rparr>)"
| "read_until_ready_loop (Inr m # ms) c =
     (let c1 = c\<lparr>inbox := ms\<rparr> in
      case m of
        ReadyForQuery b \<Rightarrow>
          (Ret (Ok ()),
           (set_in_transaction (ready_status b \<noteq> TIdle) (c1\<lparr>transaction_status := ready_status b\<rparr>))
             \<lparr>state := Idle\<rparr>)
      | _ \<Rightarrow> read_until_ready_loop ms (snd (handle_async_message m c1)))"

definition read_until_ready :: "unit cm" where
  "read_until_ready c = read_until_ready_loop (inbox c) c"

definition recover :: "unit cm" where
  "recover c =
     (if needs_recovery c then
        bindc read_until_ready (\<lambda>_. modifyc (\<lambda>c. c\<lparr>needs_recovery := False\<rparr>)) c
      else (Ret (Ok ()), c))"

subsection \<open>Lifecycle\<close>

definition shutdown_c :: "connection \<Rightarrow> connection" where
  "shutdown_c c = c\<lparr>shut_down := True\<rparr>"

definition close :: "unit cm" where
  "close c =
     (if is_closed c then (Ret (Ok ()), c)
      else (case send_c Terminate (c\<lparr>state := Closing\<rparr>) of
              (r, c1) \<Rightarrow> (Ret (Ok ()), (shutdown_c c1)\<lparr>state := Closed\<rparr>)))"

definition abort :: "connection \<Rightarrow> connection" where
  "abort c = shutdown_c (c\<lparr>state := Closed\<rparr>)"

definition drop_connection :: "connection \<Rightarrow> connection" where
  "drop_connection c = c\<lparr>state := Closed\<rparr>"

definition is_healthy :: "connection \<Rightarrow> bool" where
  "is_healthy c = (\<not> is_closed c \<and> transaction_status c \<noteq> Failed)"

definition is_stale :: "nat \<Rightarrow> connection \<Rightarrow> bool" where
  "is_stale threshold c =
     (case last_confirmed_alive (health c) of
        Some last_t \<Rightarrow> threshold < now c - last_t
      | None \<Rightarrow> True)"

definition notifications :: "connection \<Rightarrow> notification list \<times> connection" where
  "notifications c = (notification_queue c, c\<lparr>notification_queue := []\<rparr>)"

text \<open>The \<open>Connection\<close> value that \<open>connect\<close> builds from an authenticated channel at time \<open>t\<close>.\<close>

definition init_connection ::
  "nat \<Rightarrow> (pg_error, channel) res list \<Rightarrow> config \<Rightarrow> server_params \<Rightarrow> channel \<Rightarrow> connection"
where
  "init_connection t ds cfg sp ch =
     \<lparr> inbox = inbox ch, outbox = outbox ch, write_faults = write_faults ch,
       secure = secure ch, tls_server_end_point = tls_server_end_point ch,
       shut_down = shut_down ch, now = t, dials = ds, server_params_of = sp,
       state = Idle, conn_config = cfg, transaction_status = TIdle,
       notification_queue = [], notice_handler = False, notices = [],
       statement_counter = 0, needs_recovery = False,
       health = health_new t, session_state = session_new \<rparr>"

text \<open>
  \<open>Connection::connect\<close> on the outcome \<open>d\<close> of building the transport, at time \<open>t\<close>.
\<close>

definition connect ::
  "'sc scram_lib \<Rightarrow> (bytes \<Rightarrow> bytes \<Rightarrow> bytes \<Rightarrow> string) \<Rightarrow> nat \<Rightarrow> (pg_error, channel) res list \<Rightarrow>
   (pg_error, channel) res \<Rightarrow> config \<Rightarrow> (pg_error, connection) outcome"
where
  "connect l md5_hash t ds d cfg =
     (case d of Inl e \<Rightarrow> Ret (Err e) | Inr ch \<Rightarrow>
     (case chan_write [Startup (startup_params cfg)] ch of
        (Inl e, ch1) \<Rightarrow> Ret (Err (from_auth_error e)) | (Inr _, ch1) \<Rightarrow>
     (case authenticate l md5_hash cfg ch1 of
        (Pending, ch2) \<Rightarrow> Pending
      | (Ret (Inl e), ch2) \<Rightarrow> Ret (Err (from_auth_error e))
      | (Ret (Inr sp), ch2) \<Rightarrow>
          Ret (Ok (init_connection t ds cfg sp ch2)))))"

subsection \<open>Lemmas: asynchronous messages\<close>

definition is_async :: "backend_message \<Rightarrow> bool" where
  "is_async m = (case m of NotificationResponse _ _ _ \<Rightarrow> True | NoticeResponse _ \<Rightarrow> True
                 | ParameterStatus _ _ \<Rightarrow> True | _ \<Rightarrow> False)"

definition notif_of :: "backend_message \<Rightarrow> notification list" where
  "notif_of m = (case m of
      NotificationResponse pid ch p \<Rightarrow>
        [\<lparr>n_process_id = pid, n_channel = unwrap_or_empty ch, n_payload = unwrap_or_empty p\<rparr>]
    | _ \<Rightarrow> [])"

definition notifs :: "(auth_error, backend_message) res list \<Rightarrow> notification list" where
  "notifs rs = concat (map (\<lambda>r. case r of Inl _ \<Rightarrow> [] | Inr m \<Rightarrow> notif_of m) rs)"

lemma notifs_simps [simp]:
  "notifs [] = []" "notifs (Inl e # rs) = notifs rs" "notifs (Inr m # rs) = notif_of m @ notifs rs"
  "notifs (rs @ rs') = notifs rs @ notifs rs'"
  by (simp_all add: notifs_def)

lemma handle_async_fst [simp]: "fst (handle_async_message m c) = is_async m"
  by (simp add: handle_async_message_def is_async_def split: backend_message.splits)

lemma handle_async_queue:
  "notification_queue (snd (handle_async_message m c)) = notification_queue c @ notif_of m"
  by (simp add: handle_async_message_def notif_of_def handle_notice_def
      split: backend_message.splits sum.splits)

lemma handle_async_frame [simp]:
  "inbox (snd (handle_async_message m c)) = inbox c"
  "outbox (snd (handle_async_message m c)) = outbox c"
  "write_faults (snd (handle_async_message m c)) = write_faults c"
  "state (snd (handle_async_message m c)) = state c"
  "transaction_status (snd (handle_async_message m c)) = transaction_status c"
  "needs_recovery (snd (handle_async_message m c)) = needs_recovery c"
  "session_state (snd (handle_async_message m c)) = session_state c"
  "health (snd (handle_async_message m c)) = health c"
  "statement_counter (snd (handle_async_message m c)) = statement_counter c"
  "conn_config (snd (handle_async_message m c)) = conn_config c"
  "dials (snd (handle_async_message m c)) = dials c"
  "shut_down (snd (handle_async_message m c)) = shut_down c"
  by (simp_all add: handle_async_message_def handle_notice_def
      split: backend_message.splits sum.splits)

text \<open>
  No notification is lost: what an operation has read of the inbox is a prefix, and the
  notifications in that prefix are now at the end of the queue, in order.
\<close>

definition lossless :: "connection \<Rightarrow> connection \<Rightarrow> bool" where
  "lossless c c' = (\<exists>pre. inbox c = pre @ inbox c' \<and>
      notification_queue c' = notification_queue c @ notifs pre)"

lemma lossless_refl [simp, intro]: "lossless c c"
  by (simp add: lossless_def)

lemma lossless_trans: "lossless a b \<Longrightarrow> lossless b c \<Longrightarrow> lossless a c"
  unfolding lossless_def by (metis append.assoc notifs_simps(4))

lemma lossless_frame:
  assumes "inbox c' = inbox c" "notification_queue c' = notification_queue c"
  shows "lossless c c'"
  using assms by (auto simp: lossless_def intro!: exI [of _ "[]"])

lemma lossless_step:
  assumes "inbox c = r # ms" "lossless c1 c'" "inbox c1 = ms"
    and "notification_queue c1 = notification_queue c @ notifs [r]"
  shows "lossless c c'"
proof -
  from assms(2) obtain pre where "inbox c1 = pre @ inbox c'"
    "notification_queue c' = notification_queue c1 @ notifs pre" by (auto simp: lossless_def)
  then show ?thesis using assms(1,3,4) unfolding lossless_def
    by (intro exI [of _ "r # pre"]) (simp add: notifs_def)
qed

lemma read_until_ready_skip:
  "\<forall>b. m \<noteq> ReadyForQuery b \<Longrightarrow> read_until_ready_loop (Inr m # ms) c =
   read_until_ready_loop ms (snd (handle_async_message m (c\<lparr>inbox := ms\<rparr>)))"
  by (auto simp: Let_def split: backend_message.splits)

lemma read_until_ready_loop_lossless:
  "inbox c = ms \<Longrightarrow> lossless c (snd (read_until_ready_loop ms c))"
proof (induction ms arbitrary: c)
  case Nil
  then show ?case by (auto intro: lossless_frame)
next
  case (Cons r ms)
  show ?case
  proof (cases "\<exists>m. r = Inr m \<and> (\<forall>b. m \<noteq> ReadyForQuery b)")
    case True
    then obtain m where m: "r = Inr m" "\<forall>b. m \<noteq> ReadyForQuery b" by blast
    let ?c2 = "snd (handle_async_message m (c\<lparr>inbox := ms\<rparr>))"
    have "lossless ?c2 (snd (read_until_ready_loop ms ?c2))" by (rule Cons.IH) simp
    then have "lossless c (snd (read_until_ready_loop ms ?c2))"
      using Cons.prems m by (intro lossless_step [of c r ms ?c2]) (simp_all add: handle_async_queue)
    then show ?thesis using m by (simp add: read_until_ready_skip del: read_until_ready_loop.simps)
  next
    case False
    then show ?thesis using Cons.prems
      by (cases r) (auto simp: lossless_def Let_def set_in_transaction_def notif_of_def
          intro!: exI [of _ "[r]"])
  qed
qed

lemma read_until_ready_lossless: "lossless c (snd (read_until_ready c))"
  by (simp add: read_until_ready_def read_until_ready_loop_lossless)

subsection \<open>Lemmas: resynchronisation\<close>

definition is_ready :: "(auth_error, backend_message) res \<Rightarrow> bool" where
  "is_ready r = (\<exists>b. r = Inr (ReadyForQuery b))"

definition is_err :: "(auth_error, backend_message) res \<Rightarrow> bool" where
  "is_err r = (\<exists>e. r = Inl e)"

lemma read_until_ready_loop_ready:
  assumes "\<forall>r\<in>set pre. \<not> is_ready r \<and> \<not> is_err r"
  shows "\<exists>c'. read_until_ready_loop (pre @ Inr (ReadyForQuery b) # rest) c = (Ret (Ok ()), c') \<and>
     inbox c' = rest \<and> state c' = Idle \<and> transaction_status c' = ready_status b \<and>
     notification_queue c' = notification_queue c @ notifs pre \<and> outbox c' = outbox c \<and>
     needs_recovery c' = needs_recovery c \<and> write_faults c' = write_faults c \<and>
     session_state c' = (session_state c)\<lparr>in_transaction := ready_status b \<noteq> TIdle\<rparr>"
  using assms
proof (induction pre arbitrary: c)
  case Nil
  then show ?case by (simp add: Let_def set_in_transaction_def)
next
  case (Cons r pre)
  obtain m where m: "r = Inr m" "\<forall>b. m \<noteq> ReadyForQuery b"
    using Cons.prems by (cases r) (auto simp: is_ready_def is_err_def)
  let ?ms = "pre @ Inr (ReadyForQuery b) # rest"
  let ?c2 = "snd (handle_async_message m (c\<lparr>inbox := ?ms\<rparr>))"
  have "read_until_ready_loop ((r # pre) @ Inr (ReadyForQuery b) # rest) c =
        read_until_ready_loop ?ms ?c2"
    using m by (simp add: read_until_ready_skip del: read_until_ready_loop.simps)
  then show ?case using Cons.IH [of ?c2] Cons.prems m by (auto simp: handle_async_queue)
qed

lemma read_until_ready_loop_pending:
  assumes "\<forall>r\<in>set ms. \<not> is_ready r \<and> \<not> is_err r"
  shows "fst (read_until_ready_loop ms c) = Pending"
  using assms
proof (induction ms arbitrary: c)
  case (Cons r ms)
  then show ?case
    by (cases r) (auto simp: Let_def is_ready_def is_err_def split: backend_message.splits)
qed simp

lemma transition_ok_iff:
  "fst (transition s c) = Ret (Ok ()) \<longleftrightarrow> transition_allowed (state c) s"
  by (simp add: transition_def)

lemma transition_Idle_active:
  "state c = Idle \<Longrightarrow> s \<in> set active_states \<Longrightarrow> transition s c = (Ret (Ok ()), c\<lparr>state := s\<rparr>)"
  by (simp add: transition_def transition_allowed_def)

lemma send_c_ok: "write_faults c = [] \<Longrightarrow> send_c m c = (Ret (Ok ()), c\<lparr>outbox := outbox c @ [m]\<rparr>)"
  by (simp add: send_c_def chan_write_def)

lemma flush_c_ok: "write_faults c = [] \<Longrightarrow> flush_c c = (Ret (Ok ()), c\<lparr>outbox := outbox c\<rparr>)"
  by (simp add: flush_c_def chan_write_def)

lemma send_c_frame:
  assumes "send_c m c = (r, c')"
  shows "inbox c' = inbox c" "notification_queue c' = notification_queue c" "state c' = state c"
    "needs_recovery c' = needs_recovery c" "session_state c' = session_state c" "r \<noteq> Pending"
  using assms by (auto simp: send_c_def chan_write_def split: list.splits option.splits)

lemma flush_c_frame:
  assumes "flush_c c = (r, c')"
  shows "inbox c' = inbox c" "notification_queue c' = notification_queue c" "state c' = state c"
    "needs_recovery c' = needs_recovery c" "session_state c' = session_state c" "r \<noteq> Pending"
  using assms by (auto simp: flush_c_def chan_write_def split: list.splits option.splits)

text \<open>A connection with the given messages still to be read.\<close>

definition sample_connection :: "backend_message list \<Rightarrow> connection" where
  "sample_connection ms =
     init_connection 0 [] config_new default_server_params
       \<lparr> inbox = map Ok ms, outbox = [], write_faults = [], secure = True,
         tls_server_end_point = None, shut_down = False \<rparr>"

lemma sample_connection_simps [simp]:
  "inbox (sample_connection ms) = map Ok ms" "state (sample_connection ms) = Idle"
  "outbox (sample_connection ms) = []" "write_faults (sample_connection ms) = []"
  "\<not> needs_recovery (sample_connection ms)" "notification_queue (sample_connection ms) = []"
  "transaction_status (sample_connection ms) = TIdle"
  "session_state (sample_connection ms) = session_new" "health (sample_connection ms) = health_new 0"
  "now (sample_connection ms) = 0" "conn_config (sample_connection ms) = config_new"
  "statement_counter (sample_connection ms) = 0" "dials (sample_connection ms) = []"
  by (simp_all add: sample_connection_def init_connection_def)

end
