(* ===== verification/Query.thy ===== *)
theory Query
  imports Connection
begin

text \<open>
  The simple query protocol: rows and results (\<open>query/row.rs\<close>, \<open>query/result.rs\<close>), the row stream and
  its state machine (\<open>query/stream.rs\<close>), \<open>query\<close>, \<open>execute\<close>, \<open>query_one\<close>, \<open>query_each\<close> and
  \<open>batch_execute\<close> (\<open>query/mod.rs\<close>), and the connection operations built on them (\<open>ping\<close>, \<open>reset\<close>,
  \<open>set_param\<close>, \<open>listen\<close>, \<open>unlisten\<close>, \<open>unlisten_all\<close>).  A stream borrows its connection: it is passed
  along with it, and dropping it is \<open>drop_stream\<close>.
\<close>

subsection \<open>Rows and results\<close>

record row =
  row_columns :: "field_description list"
  row_values :: "bytes option list"

definition row_is_null :: "row \<Rightarrow> nat \<Rightarrow> bool" where
  "row_is_null r i = (if i < length (row_values r) then row_values r ! i = None else True)"

definition row_get_raw :: "row \<Rightarrow> nat \<Rightarrow> bytes option" where
  "row_get_raw r i = (if i < length (row_values r) then row_values r ! i else None)"

text \<open>
  \<open>Row::get\<close>; \<open>from_oid\<close> (the type table of \<open>postgres_types\<close>), \<open>unknown\<close> (the pseudo type for other
  object ids) and \<open>from_sql\<close> (the \<open>FromSql\<close> instance) are parameters.
\<close>

definition row_get ::
  "(nat \<Rightarrow> 'ty option) \<Rightarrow> 'ty \<Rightarrow> ('ty \<Rightarrow> bytes option \<Rightarrow> format_code \<Rightarrow> (type_error, 'a) res) \<Rightarrow>
   row \<Rightarrow> nat \<Rightarrow> (pg_error, 'a) res"
where
  "row_get from_oid unknown from_sql r i =
     (if i < length (row_columns r) then
        (let f = row_columns r ! i;
             ty = (case from_oid (type_oid f) of Some t \<Rightarrow> t | None \<Rightarrow> unknown);
             format = (if fd_format f = 1 then Binary else Text)
         in map_err PgTypeConversion (from_sql ty (row_get_raw r i) format))
      else Err (PgColumnIndexOutOfBounds i (length (row_columns r))))"

definition column_index :: "row \<Rightarrow> string \<Rightarrow> nat option" where
  "column_index r nm =
     (let i = length (takeWhile (\<lambda>f. fd_name f \<noteq> nm) (row_columns r)) in
      if i < length (row_columns r) then Some i else None)"

definition row_get_by_name ::
  "(nat \<Rightarrow> 'ty option) \<Rightarrow> 'ty \<Rightarrow> ('ty \<Rightarrow> bytes option \<Rightarrow> format_code \<Rightarrow> (type_error, 'a) res) \<Rightarrow>
   row \<Rightarrow> string \<Rightarrow> (pg_error, 'a) res"
where
  "row_get_by_name from_oid unknown from_sql r nm =
     (case column_index r nm of
        None \<Rightarrow> Err (PgColumnNotFound nm)
      | Some i \<Rightarrow> row_get from_oid unknown from_sql r i)"

record query_result =
  qr_rows :: "row list"
  qr_command_tag :: string
  qr_columns :: "field_description list"

subsection \<open>The row stream\<close>

datatype row_stream_state =
    WaitingForDescription | ReceivingRows | Finishing string | SDone string | SError

record row_stream =
  rs_columns :: "field_description list option"
  rs_state :: row_stream_state
  extended_protocol :: bool
  rows_fetched :: nat

definition new_simple :: row_stream where
  "new_simple = \<lparr> rs_columns = None, rs_state = WaitingForDescription, extended_protocol = False,
                  rows_fetched = 0 \<rparr>"

definition new_extended_with_columns :: "field_description list \<Rightarrow> row_stream" where
  "new_extended_with_columns cols =
     \<lparr> rs_columns = Some cols, rs_state = WaitingForDescription, extended_protocol = True,
       rows_fetched = 0 \<rparr>"

definition new_extended_receiving :: "field_description list option \<Rightarrow> row_stream" where
  "new_extended_receiving cols =
     \<lparr> rs_columns = cols, rs_state = ReceivingRows, extended_protocol = True, rows_fetched = 0 \<rparr>"

definition stream_error ::
  "error_body \<Rightarrow> row_stream \<Rightarrow> connection \<Rightarrow> (pg_error, 'a) outcome \<times> row_stream \<times> connection"
where
  "stream_error b st c =
     (case from_error_body b of
        Inl e \<Rightarrow> (Ret (Err (PgIo e)), st, c)
      | Inr se \<Rightarrow>
          (case read_until_ready c of
             (Ret (Inr _), c2) \<Rightarrow> (Ret (Err (PgServer se)), st\<lparr>rs_state := SError\<rparr>, c2\<lparr>state := Idle\<rparr>)
           | (Ret (Inl e), c2) \<Rightarrow> (Ret (Err e), st, c2)
           | (Pending, c2) \<Rightarrow> (Pending, st, c2)))"

text \<open>
  \<open>RowStream::next\<close>: one round of the loop per message; the finished states return without reading.
\<close>

fun stream_loop ::
  "(auth_error, backend_message) res list \<Rightarrow> row_stream \<Rightarrow> connection \<Rightarrow>
   (pg_error, row option) outcome \<times> row_stream \<times> connection"
where
  "stream_loop [] st c =
     (case rs_state st of
        SDone _ \<Rightarrow> (Ret (Ok None), st, c)
      | SError \<Rightarrow> (Ret (Ok None), st, c)
      | _ \<Rightarrow> (Pending, st, c))"
| "stream_loop (r # ms) st c =
     (case rs_state st of
        SDone _ \<Rightarrow> (Ret (Ok None), st, c)
      | SError \<Rightarrow> (Ret (Ok None), st, c)
      | WaitingForDescription \<Rightarrow>
          (let c1 = c\<lparr>inbox := ms\<rparr> in
           case r of
             Inl e \<Rightarrow> (Ret (Err (from_auth_error e)), st, c1)
           | Inr m \<Rightarrow>
               (case m of
                  RowDescription body \<Rightarrow>
                    (case body of
                       Inl e \<Rightarrow> (Ret (Err (PgIo e)), st, c1)
                     | Inr cols \<Rightarrow>
                         stream_loop ms (st\<lparr>rs_columns := Some cols, rs_state := ReceivingRows\<rparr>) c1)
                | CommandComplete body \<Rightarrow>
                    stream_loop ms (st\<lparr>rs_state := Finishing (unwrap_or_empty body)\<rparr>) c1
                | EmptyQueryResponse \<Rightarrow> stream_loop ms (st\<lparr>rs_state := Finishing []\<rparr>) c1
                | ErrorResponse body \<Rightarrow> stream_error body st c1
                | _ \<Rightarrow> stream_loop ms st (snd (handle_async_message m c1))))
      | ReceivingRows \<Rightarrow>
          (let c1 = c\<lparr>inbox := ms\<rparr> in
           case r of
             Inl e \<Rightarrow> (Ret (Err (from_auth_error e)), st, c1)
           | Inr m \<Rightarrow>
               (case m of
                  DataRow body \<Rightarrow>
                    (case body of
                       Inl e \<Rightarrow> (Ret (Err (PgIo e)), st, c1)
                     | Inr vals \<Rightarrow>
                         (Ret (Ok (Some \<lparr> row_columns = (case rs_columns st of None \<Rightarrow> [] | Some cs \<Rightarrow> cs),
                                          row_values = vals \<rparr>)),
                          st\<lparr>rows_fetched := rows_fetched st + 1\<rparr>, c1))
                | CommandComplete body \<Rightarrow>
                    stream_loop ms (st\<lparr>rs_state := Finishing (unwrap_or_empty body)\<rparr>) c1
                | ErrorResponse body \<Rightarrow> stream_error body st c1
                | _ \<Rightarrow> stream_loop ms st (snd (handle_async_message m c1))))
      | Finishing tag \<Rightarrow>
          (let c1 = c\<lparr>inbox := ms\<rparr> in
           case r of
             Inl e \<Rightarrow> (Ret (Err (from_auth_error e)), st, c1)
           | Inr m \<Rightarrow>
               (case m of
                  ReadyForQuery b \<Rightarrow>
                    (Ret (Ok None), st\<lparr>rs_state := SDone tag\<rparr>,
                     c1\<lparr>transaction_status := ready_status b, state := Idle\<rparr>)
                | ErrorResponse body \<Rightarrow> stream_error body st c1
                | _ \<Rightarrow> stream_loop ms st (snd (handle_async_message m c1)))))"

definition stream_next ::
  "row_stream \<Rightarrow> connection \<Rightarrow> (pg_error, row option) outcome \<times> row_stream \<times> connection"
where
  "stream_next st c = stream_loop (inbox c) st c"

definition stream_command_tag :: "row_stream \<Rightarrow> string option" where
  "stream_command_tag st =
     (case rs_state st of SDone t \<Rightarrow> Some t | Finishing t \<Rightarrow> Some t | _ \<Rightarrow> None)"

definition stream_is_done :: "row_stream \<Rightarrow> bool" where
  "stream_is_done st = (case rs_state st of SDone _ \<Rightarrow> True | SError \<Rightarrow> True | _ \<Rightarrow> False)"

definition drop_stream :: "row_stream \<Rightarrow> connection \<Rightarrow> connection" where
  "drop_stream st c = (if stream_is_done st then c else c\<lparr>needs_recovery := True\<rparr>)"

subsection \<open>Lemmas needed for termination\<close>

lemma stream_error_no_row: "stream_error b st c \<noteq> (Ret (Ok x), st', c')"
  by (auto simp: stream_error_def split: sum.splits prod.splits outcome.splits)

lemma stream_loop_row_inbox:
  "stream_loop ms st c = (Ret (Ok (Some x)), st', c') \<Longrightarrow> length (inbox c') < length ms"
proof (induction ms arbitrary: st c)
  case Nil
  then show ?case by (auto split: row_stream_state.splits)
next
  case (Cons r ms)
  have "stream_loop ms st1 c1 = (Ret (Ok (Some x)), st', c') \<Longrightarrow> length (inbox c') < Suc (length ms)"
    for st1 c1 using Cons.IH less_Suc_eq by blast
  then show ?case using Cons.prems
    by (auto simp: Let_def stream_error_no_row
        split: row_stream_state.splits sum.splits backend_message.splits)
qed

subsection \<open>Collecting rows\<close>

function stream_collect ::
  "row_stream \<Rightarrow> connection \<Rightarrow> row list \<Rightarrow> (pg_error, row list) outcome \<times> row_stream \<times> connection"
where
  "stream_collect st c rows =
     (case stream_next st c of
        (Ret (Inr (Some x)), st', c') \<Rightarrow> stream_collect st' c' (rows @ [x])
      | (Ret (Inr None), st', c') \<Rightarrow> (Ret (Ok rows), st', c')
      | (Ret (Inl e), st', c') \<Rightarrow> (Ret (Err e), st', c')
      | (Pending, st', c') \<Rightarrow> (Pending, st', c'))"
  by pat_completeness auto
termination
proof (relation "measure (\<lambda>(st, c, rows). length (inbox c))", goal_cases)
  case (2 st c rows r p st' c' x y z)
  then show ?case by (auto simp: stream_next_def dest: stream_loop_row_inbox [OF sym])
qed simp

declare stream_collect.simps [simp del]

text \<open>\<open>while let Some(row) = stream.next()? { f(row)?; }\<close> with a callback on a state \<open>u\<close>.\<close>

function stream_each ::
  "(row \<Rightarrow> 'u \<Rightarrow> (pg_error, unit) res \<times> 'u) \<Rightarrow> row_stream \<Rightarrow> connection \<Rightarrow> 'u \<Rightarrow>
   (pg_error, unit) outcome \<times> row_stream \<times> connection \<times> 'u"
where
  "stream_each f st c u =
     (case stream_next st c of
        (Ret (Inr (Some x)), st', c') \<Rightarrow>
          (case f x u of
             (Inl e, u') \<Rightarrow> (Ret (Err e), st', c', u')
           | (Inr _, u') \<Rightarrow> stream_each f st' c' u')
      | (Ret (Inr None), st', c') \<Rightarrow> (Ret (Ok ()), st', c', u)
      | (Ret (Inl e), st', c') \<Rightarrow> (Ret (Err e), st', c', u)
      | (Pending, st', c') \<Rightarrow> (Pending, st', c', u))"
  by pat_completeness auto
termination
proof (relation "measure (\<lambda>(f, st, c, u). length (inbox c))", goal_cases)
  case (2 f st c u r p st' c' x y z)
  then show ?case by (auto simp: stream_next_def dest: stream_loop_row_inbox [OF sym])
qed simp

declare stream_each.simps [simp del]

definition stream_consume :: "row_stream \<Rightarrow> connection \<Rightarrow> (pg_error, string) outcome \<times> connection" where
  "stream_consume st c =
     (case stream_collect st c [] of
        (Ret (Inr _), st', c') \<Rightarrow>
          (Ret (Ok (case rs_state st' of SDone t \<Rightarrow> t | _ \<Rightarrow> [])), drop_stream st' c')
      | (Ret (Inl e), st', c') \<Rightarrow> (Ret (Err e), drop_stream st' c')
      | (Pending, st', c') \<Rightarrow> (Pending, c'))"

subsection \<open>Connection methods\<close>

definition query_stream :: "string \<Rightarrow> row_stream cm" where
  "query_stream sql =
     bindc recover (\<lambda>_. bindc (transition Streaming) (\<lambda>_. bindc (send_c (Query sql)) (\<lambda>_.
       retc new_simple)))"

definition query :: "string \<Rightarrow> query_result cm" where
  "query sql = bindc (query_stream sql) (\<lambda>st c.
     case stream_collect st c [] of
       (Ret (Inr rows), st', c') \<Rightarrow>
         (Ret (Ok \<lparr> qr_rows = rows,
                    qr_command_tag = (case stream_command_tag st' of None \<Rightarrow> [] | Some t \<Rightarrow> t),
                    qr_columns = (case rs_columns st' of None \<Rightarrow> [] | Some cs \<Rightarrow> cs) \<rparr>),
          drop_stream st' c')
     | (Ret (Inl e), st', c') \<Rightarrow> (Ret (Err e), drop_stream st' c')
     | (Pending, st', c') \<Rightarrow> (Pending, c'))"

definition execute :: "string \<Rightarrow> string cm" where
  "execute sql = bindc (query sql) (\<lambda>r. retc (qr_command_tag r))"

definition query_one :: "string \<Rightarrow> row option cm" where
  "query_one sql = bindc (query sql) (\<lambda>r. retc (case qr_rows r of [] \<Rightarrow> None | x # _ \<Rightarrow> Some x))"

definition query_each ::
  "string \<Rightarrow> (row \<Rightarrow> 'u \<Rightarrow> (pg_error, unit) res \<times> 'u) \<Rightarrow> 'u \<Rightarrow> connection \<Rightarrow>
   (pg_error, string) outcome \<times> connection \<times> 'u"
where
  "query_each sql f u c =
     (case query_stream sql c of
        (Pending, c1) \<Rightarrow> (Pending, c1, u)
      | (Ret (Inl e), c1) \<Rightarrow> (Ret (Err e), c1, u)
      | (Ret (Inr st), c1) \<Rightarrow>
          (case stream_each f st c1 u of
             (Pending, st', c2, u') \<Rightarrow> (Pending, c2, u')
           | (Ret (Inl e), st', c2, u') \<Rightarrow> (Ret (Err e), drop_stream st' c2, u')
           | (Ret (Inr _), st', c2, u') \<Rightarrow>
               (Ret (case stream_command_tag st' of
                       Some t \<Rightarrow> Ok t
                     | None \<Rightarrow> Err (PgInvalidState ''stream ended without command tag'')),
                drop_stream st' c2, u')))"

fun batch_loop ::
  "(auth_error, backend_message) res list \<Rightarrow> query_result list \<Rightarrow> field_description list option \<Rightarrow>
   row list \<Rightarrow> connection \<Rightarrow> (pg_error, query_result list) outcome \<times> connection"
where
  "batch_loop [] results cols rows c = (Pending, c\<lparr>inbox := []\<rparr>)"
| "batch_loop (Inl e # ms) results cols rows c = (Ret (Err (from_auth_error e)), c\<lparr>inbox := ms\<rparr>)"
| "batch_loop (Inr m # ms) results cols rows c =
     (let c1 = c\<lparr>inbox := ms\<rparr>; (is_a, c2) = handle_async_message m c1 in
      if is_a then batch_loop ms results cols rows c2
      else
        (case m of
           RowDescription body \<Rightarrow>
             (case body of
                Inl e \<Rightarrow> (Ret (Err (PgIo e)), c1)
              | Inr cs \<Rightarrow> batch_loop ms results (Some cs) [] c1)
         | DataRow body \<Rightarrow>
             (case body of
                Inl e \<Rightarrow> (Ret (Err (PgIo e)), c1)
              | Inr vals \<Rightarrow>
                  batch_loop ms results cols
                    (rows @ [\<lparr> row_columns = (case cols of None \<Rightarrow> [] | Some cs \<Rightarrow> cs), row_values = vals \<rparr>]) c1)
         | CommandComplete body \<Rightarrow>
             batch_loop ms
               (results @ [\<lparr> qr_rows = rows, qr_command_tag = unwrap_or_empty body,
                             qr_columns = (case cols of None \<Rightarrow> [] | Some cs \<Rightarrow> cs) \<rparr>]) None [] c1
         | EmptyQueryResponse \<Rightarrow>
             batch_loop ms (results @ [\<lparr> qr_rows = [], qr_command_tag = [], qr_columns = [] \<rparr>]) cols rows c1
         | ErrorResponse body \<Rightarrow>
             (case from_error_body body of
                Inl e \<Rightarrow> (Ret (Err (PgIo e)), c1)
              | Inr se \<Rightarrow>
                  bindc read_until_ready (\<lambda>_ c. (Ret (Err (PgServer se)), c\<lparr>state := Idle\<rparr>)) c1)
         | ReadyForQuery b \<Rightarrow>
             (Ret (Ok results), c1\<lparr>transaction_status := ready_status b, state := Idle\<rparr>)
         | _ \<Rightarrow> batch_loop ms results cols rows c1))"

definition batch_execute :: "string \<Rightarrow> query_result list cm" where
  "batch_execute sql =
     bindc (transition ActiveSimpleQuery) (\<lambda>_. bindc (send_c (Query sql)) (\<lambda>_ c.
       batch_loop (inbox c) [] None [] c))"

definition ping :: "unit cm" where
  "ping = bindc (query ''SELECT 1'') (\<lambda>_. modifyc (\<lambda>c. c\<lparr>health := mark_alive (now c) (health c)\<rparr>))"

definition reset :: "unit cm" where
  "reset c =
     bindc (if transaction_status c = Failed \<or> transaction_status c = InTransaction
            then bindc (execute ''ROLLBACK'') (\<lambda>_. retc ()) else retc ())
       (\<lambda>_. bindc (execute ''DISCARD ALL'')
       (\<lambda>_. modifyc (\<lambda>c. c\<lparr>session_state := clear_session (session_state c)\<rparr>))) c"

definition set_param :: "string \<Rightarrow> string \<Rightarrow> unit cm" where
  "set_param key v = bindc (execute (build_set_param_sql key v)) (\<lambda>_.
     modifyc (\<lambda>c. c\<lparr>session_state := track_set_guc key v (session_state c)\<rparr>))"

definition listen :: "string \<Rightarrow> unit cm" where
  "listen ch = bindc (execute (build_listen_sql ch)) (\<lambda>_.
     modifyc (\<lambda>c. c\<lparr>session_state := track_listen ch (session_state c)\<rparr>))"

definition unlisten :: "string \<Rightarrow> unit cm" where
  "unlisten ch = bindc (execute (build_unlisten_sql ch)) (\<lambda>_.
     modifyc (\<lambda>c. c\<lparr>session_state := track_unlisten ch (session_state c)\<rparr>))"

definition unlisten_all :: "unit cm" where
  "unlisten_all = bindc (execute ''UNLISTEN *'') (\<lambda>_.
     modifyc (\<lambda>c. c\<lparr>session_state := clear_listen_channels (session_state c)\<rparr>))"

subsection \<open>Replies of the server\<close>

text \<open>
  The synchronous messages of one reply to a simple query, and the sequences in which asynchronous
  messages are interleaved before them at will.
\<close>

datatype reply =
    RowsReply "field_description list" "bytes option list list" string char
  | CommandReply string char
  | EmptyReply char
  | ErrorReply error_body char
  | RowsErrorReply "field_description list" "bytes option list list" error_body char

fun reply_messages :: "reply \<Rightarrow> backend_message list" where
  "reply_messages (RowsReply cols vs tag b) =
     RowDescription (Inr cols) # map (\<lambda>v. DataRow (Inr v)) vs @ [CommandComplete (Inr tag), ReadyForQuery b]"
| "reply_messages (CommandReply tag b) = [CommandComplete (Inr tag), ReadyForQuery b]"
| "reply_messages (EmptyReply b) = [EmptyQueryResponse, ReadyForQuery b]"
| "reply_messages (ErrorReply body b) = [ErrorResponse body, ReadyForQuery b]"
| "reply_messages (RowsErrorReply cols vs body b) =
     RowDescription (Inr cols) # map (\<lambda>v. DataRow (Inr v)) vs @ [ErrorResponse body, ReadyForQuery b]"

fun reply_status :: "reply \<Rightarrow> char" where
  "reply_status (RowsReply cols vs tag b) = b"
| "reply_status (CommandReply tag b) = b"
| "reply_status (EmptyReply b) = b"
| "reply_status (ErrorReply body b) = b"
| "reply_status (RowsErrorReply cols vs body b) = b"

definition mk_row :: "field_description list \<Rightarrow> bytes option list \<Rightarrow> row" where
  "mk_row cols v = \<lparr> row_columns = cols, row_values = v \<rparr>"

fun reply_result :: "reply \<Rightarrow> (pg_error, query_result) res" where
  "reply_result (RowsReply cols vs tag b) =
     Ok \<lparr> qr_rows = map (mk_row cols) vs, qr_command_tag = tag, qr_columns = cols \<rparr>"
| "reply_result (CommandReply tag b) = Ok \<lparr> qr_rows = [], qr_command_tag = tag, qr_columns = [] \<rparr>"
| "reply_result (EmptyReply b) = Ok \<lparr> qr_rows = [], qr_command_tag = [], qr_columns = [] \<rparr>"
| "reply_result (ErrorReply body b) = bind_res (map_err PgIo (from_error_body body)) (\<lambda>se. Err (PgServer se))"
| "reply_result (RowsErrorReply cols vs body b) =
     bind_res (map_err PgIo (from_error_body body)) (\<lambda>se. Err (PgServer se))"

fun interleaved :: "backend_message list \<Rightarrow> backend_message list \<Rightarrow> bool" where
  "interleaved [] ss = (ss = [])"
| "interleaved (m # ms) ss =
     (if is_async m then ss \<noteq> [] \<and> interleaved ms ss
      else (case ss of [] \<Rightarrow> False | s # ss' \<Rightarrow> m = s \<and> interleaved ms ss'))"

text \<open>What every answered request leaves behind.\<close>

definition answered ::
  "connection \<Rightarrow> connection \<Rightarrow> (auth_error, backend_message) res list \<Rightarrow>
   (auth_error, backend_message) res list \<Rightarrow> char \<Rightarrow> bool"
where
  "answered c c' ms rest b =
     (inbox c' = rest \<and> state c' = Idle \<and> transaction_status c' = ready_status b \<and>
      notification_queue c' = notification_queue c @ notifs ms \<and> outbox c' = outbox c \<and>
      write_faults c' = write_faults c \<and> needs_recovery c' = needs_recovery c)"

subsection \<open>Lemmas: stepping through a reply\<close>

lemma collect_cong:
  "stream_next st c = stream_next st' c' \<Longrightarrow> stream_collect st c rows = stream_collect st' c' rows"
  by (subst (1 2) stream_collect.simps) simp

lemma stream_loop_async:
  "is_async m \<Longrightarrow> \<not> stream_is_done st \<Longrightarrow>
   stream_loop (Inr m # ms) st c = stream_loop ms st (snd (handle_async_message m (c\<lparr>inbox := ms\<rparr>)))"
  by (cases m; cases "rs_state st") (auto simp: is_async_def stream_is_done_def Let_def)

lemma collect_async:
  assumes "inbox c = Inr m # ms" "is_async m" "\<not> stream_is_done st"
  shows "stream_collect st c rows =
         stream_collect st (snd (handle_async_message m (c\<lparr>inbox := ms\<rparr>))) rows"
  using assms by (intro collect_cong) (simp add: stream_next_def stream_loop_async del: stream_loop.simps)

lemma answered_async:
  assumes "answered (snd (handle_async_message m (c\<lparr>inbox := xs\<rparr>))) c' ms rest b"
  shows "answered c c' (Inr m # ms) rest b"
  using assms by (simp add: answered_def handle_async_queue)

lemma answered_sync:
  assumes "answered (c\<lparr>inbox := xs\<rparr>) c' ms rest b" "notif_of m = []"
  shows "answered c c' (Inr m # ms) rest b"
  using assms by (simp add: answered_def)

lemma interleaved_ConsD:
  assumes "interleaved ms (s # ss)" "\<not> is_async s"
  shows "\<exists>m ms'. ms = m # ms' \<and> (if is_async m then interleaved ms' (s # ss) else m = s \<and> interleaved ms' ss)"
  using assms by (cases ms) auto

lemma interleaved_async_prefix:
  assumes "interleaved ms [ReadyForQuery b]"
  shows "\<exists>pre. ms = pre @ [ReadyForQuery b] \<and> (\<forall>m\<in>set pre. is_async m)"
  using assms
proof (induction ms)
  case (Cons m ms)
  show ?case
  proof (cases "is_async m")
    case True
    then obtain pre where "ms = pre @ [ReadyForQuery b]" "\<forall>m\<in>set pre. is_async m"
      using Cons by auto
    then show ?thesis using True by (intro exI [of _ "m # pre"]) auto
  next
    case False
    then show ?thesis using Cons.prems by (cases ms) (auto split: if_splits list.splits)
  qed
qed simp

lemma drain_reply:
  assumes "interleaved ms [ReadyForQuery b]" "inbox c = map Inr ms @ rest"
  shows "\<exists>c'. read_until_ready c = (Ret (Ok ()), c') \<and> answered c c' (map Inr ms) rest b
     \<and> session_state c' = (session_state c)\<lparr>in_transaction := ready_status b \<noteq> TIdle\<rparr>"
proof -
  obtain pre where pre: "ms = pre @ [ReadyForQuery b]" "\<forall>m\<in>set pre. is_async m"
    using interleaved_async_prefix [OF assms(1)] by blast
  have "\<forall>r\<in>set (map Inr pre). \<not> is_ready r \<and> \<not> is_err r"
    using pre(2) by (auto simp: is_ready_def is_err_def is_async_def)
  from read_until_ready_loop_ready [OF this, of b rest c] show ?thesis
    using pre(1) assms(2) by (auto simp: read_until_ready_def answered_def notif_of_def)
qed

lemma stream_error_reply:
  assumes "interleaved ms [ReadyForQuery b]" "inbox c = map Inr ms @ rest"
    and "from_error_body body = Inr se"
  shows "\<exists>c'. stream_error body st c = (Ret (Err (PgServer se)), st\<lparr>rs_state := SError\<rparr>, c')
           \<and> answered c c' (map Inr ms) rest b"
proof -
  obtain c1 where c1: "read_until_ready c = (Ret (Ok ()), c1)" "answered c c1 (map Inr ms) rest b"
    using drain_reply [OF assms(1,2)] by blast
  then show ?thesis using assms(3)
    by (intro exI [of _ "c1\<lparr>state := Idle\<rparr>"]) (simp add: stream_error_def answered_def)
qed

lemma collect_finishing:
  assumes "interleaved ms [ReadyForQuery b]" "rs_state st = Finishing tag" "inbox c = map Inr ms @ rest"
  shows "\<exists>c'. stream_collect st c rows = (Ret (Ok rows), st\<lparr>rs_state := SDone tag\<rparr>, c')
           \<and> answered c c' (map Inr ms) rest b \<and> session_state c' = session_state c"
  using assms(1,3)
proof (induction ms arbitrary: c)
  case (Cons m ms)
  let ?xs = "map Inr ms @ rest"
  show ?case
  proof (cases "is_async m")
    case True
    let ?c1 = "snd (handle_async_message m (c\<lparr>inbox := ?xs\<rparr>))"
    have "interleaved ms [ReadyForQuery b]" "inbox ?c1 = map Inr ms @ rest"
      using Cons.prems True by auto
    from Cons.IH [OF this] obtain c' where
      "stream_collect st ?c1 rows = (Ret (Ok rows), st\<lparr>rs_state := SDone tag\<rparr>, c')"
      "answered ?c1 c' (map Inr ms) rest b" "session_state c' = session_state ?c1" by blast
    then show ?thesis
      using collect_async [of c m ?xs st] Cons.prems True assms(2) answered_async [where m = m and c = c and xs = ?xs]
      by (auto simp: stream_is_done_def)
  next
    case False
    then have "m = ReadyForQuery b" "ms = []"
      using Cons.prems by (auto split: list.splits) (cases ms, auto split: if_splits)
    then show ?thesis using Cons.prems assms(2)
      by (subst stream_collect.simps)
        (simp add: stream_next_def Let_def answered_def notif_of_def)
  qed
qed simp

text \<open>The tail of a reply with rows: completion, or an error.\<close>

fun tail_result :: "backend_message \<Rightarrow> 'a \<Rightarrow> (pg_error, 'a) res option \<times> row_stream_state" where
  "tail_result (CommandComplete r) x = (Some (Ok x), SDone (unwrap_or_empty r))"
| "tail_result (ErrorResponse body) x =
     (case from_error_body body of Inl e \<Rightarrow> (None, SError) | Inr se \<Rightarrow> (Some (Err (PgServer se)), SError))"
| "tail_result _ x = (None, SError)"

lemma collect_rows:
  assumes "interleaved ms (map (\<lambda>v. DataRow (Inr v)) vs @ [t, ReadyForQuery b])"
    and "rs_state st = ReceivingRows" "rs_columns st = Some cols" "inbox c = map Inr ms @ rest"
    and "tail_result t (rows @ map (mk_row cols) vs) = (Some out, fin)"
  shows "\<exists>st' c'. stream_collect st c rows = (Ret out, st', c') \<and> rs_state st' = fin
           \<and> rs_columns st' = Some cols \<and> answered c c' (map Inr ms) rest b"
  using assms
proof (induction ms arbitrary: vs st c rows)
  case (Cons m ms)
  let ?xs = "map Inr ms @ rest"
  show ?case
  proof (cases "is_async m")
    case True
    let ?c1 = "snd (handle_async_message m (c\<lparr>inbox := ?xs\<rparr>))"
    have "interleaved ms (map (\<lambda>v. DataRow (Inr v)) vs @ [t, ReadyForQuery b])" "inbox ?c1 = ?xs"
      using Cons.prems(1) True by auto
    from Cons.IH [OF this(1) Cons.prems(2,3) this(2) Cons.prems(5)] show ?thesis
      using collect_async [of c m ?xs st] Cons.prems(2,4) True answered_async [where m = m and c = c and xs = ?xs]
      by (auto simp: stream_is_done_def)
  next
    case sync: False
    show ?thesis
    proof (cases vs)
      case (Cons v vs')
      let ?st = "st\<lparr>rows_fetched := rows_fetched st + 1\<rparr>" and ?c1 = "c\<lparr>inbox := ?xs\<rparr>"
      have m: "m = DataRow (Inr v)" "interleaved ms (map (\<lambda>v. DataRow (Inr v)) vs' @ [t, ReadyForQuery b])"
        using Cons.prems(1) sync Cons by auto
      have "stream_collect st c rows = stream_collect ?st ?c1 (rows @ [mk_row cols v])"
        using Cons.prems(2,3,4) m
        by (subst stream_collect.simps) (simp add: stream_next_def Let_def mk_row_def)
      moreover have "\<exists>st' c'. stream_collect ?st ?c1 (rows @ [mk_row cols v]) = (Ret out, st', c')
          \<and> rs_state st' = fin \<and> rs_columns st' = Some cols \<and> answered ?c1 c' (map Inr ms) rest b"
        using Cons.prems(2,3,5) Cons by (intro Cons.IH [OF m(2)]) simp_all
      ultimately show ?thesis using m answered_sync [where c = c and xs = ?xs] by (auto simp: notif_of_def)
    next
      case Nil
      let ?c1 = "c\<lparr>inbox := ?xs\<rparr>"
      have m: "m = t" "interleaved ms [ReadyForQuery b]" using Cons.prems(1) sync Nil by auto
      show ?thesis
      proof (cases t)
        case (CommandComplete r)
        let ?st = "st\<lparr>rs_state := Finishing (unwrap_or_empty r)\<rparr>"
        have "stream_collect st c rows = stream_collect ?st ?c1 rows"
          using Cons.prems(2,4) m CommandComplete
          by (intro collect_cong) (simp add: stream_next_def Let_def)
        moreover obtain c' where "stream_collect ?st ?c1 rows =
            (Ret (Ok rows), ?st\<lparr>rs_state := SDone (unwrap_or_empty r)\<rparr>, c')"
            "answered ?c1 c' (map Inr ms) rest b"
          using collect_finishing [OF m(2), of ?st "unwrap_or_empty r" ?c1 rest rows] by auto
        ultimately show ?thesis
          using Cons.prems(3,5) CommandComplete m Nil answered_sync [where c = c and xs = ?xs]
          by (auto simp: notif_of_def)
      next
        case (ErrorResponse body)
        then obtain se where se: "from_error_body body = Inr se" "out = Err (PgServer se)" "fin = SError"
          using Cons.prems(5) by (auto split: sum.splits)
        have "inbox ?c1 = map Inr ms @ rest" by simp
        from stream_error_reply [OF m(2) this se(1), of st] obtain c' where
          "stream_error body st ?c1 =
             (Ret (Err (PgServer se)) :: (pg_error, row option) outcome, st\<lparr>rs_state := SError\<rparr>, c')"
          "answered ?c1 c' (map Inr ms) rest b" by blast
        then show ?thesis
          using Cons.prems(2,3,4) m ErrorResponse se answered_sync [where c = c and xs = ?xs]
          by (subst stream_collect.simps) (auto simp: stream_next_def Let_def notif_of_def)
      qed (use Cons.prems(5) in auto)
    qed
  qed
qed simp

lemma interleaved_split:
  assumes "interleaved ms (s # ss)" "\<not> is_async s"
  shows "\<exists>pre ms'. ms = pre @ s # ms' \<and> (\<forall>m\<in>set pre. is_async m) \<and> interleaved ms' ss"
  using assms(1)
proof (induction ms)
  case (Cons m ms)
  show ?case
  proof (cases "is_async m")
    case True
    then obtain pre ms' where "ms = pre @ s # ms'" "\<forall>m\<in>set pre. is_async m" "interleaved ms' ss"
      using Cons by auto
    then show ?thesis using True by (metis append_Cons set_ConsD)
  next
    case False
    then have "m # ms = [] @ s # ms \<and> interleaved ms ss" using Cons.prems by simp
    then show ?thesis by (metis empty_iff list.set(1))
  qed
qed simp

lemma collect_skip:
  assumes "\<forall>m\<in>set pre. is_async m" "\<not> stream_is_done st" "inbox c = map Inr pre @ xs"
  shows "\<exists>c2. stream_collect st c rows = stream_collect st c2 rows \<and> inbox c2 = xs \<and>
     (\<forall>c' ms rest b. answered c2 c' ms rest b \<longrightarrow> answered c c' (map Inr pre @ ms) rest b)"
  using assms(1,3)
proof (induction pre arbitrary: c)
  case Nil
  then show ?case by auto
next
  case (Cons m pre)
  let ?xs = "map Inr pre @ xs"
  let ?c1 = "snd (handle_async_message m (c\<lparr>inbox := ?xs\<rparr>))"
  have "inbox ?c1 = map Inr pre @ xs" by simp
  from Cons.IH [OF _ this] obtain c2 where c2: "stream_collect st ?c1 rows = stream_collect st c2 rows"
    "inbox c2 = xs" "\<forall>c' ms rest b. answered c2 c' ms rest b \<longrightarrow> answered ?c1 c' (map Inr pre @ ms) rest b"
    using Cons.prems by auto
  have "stream_collect st c rows = stream_collect st ?c1 rows"
    using Cons.prems assms(2) by (intro collect_async) auto
  then show ?case using c2 answered_async [where m = m and c = c and xs = ?xs]
    by (intro exI [of _ c2]) auto
qed

definition well_formed_reply :: "reply \<Rightarrow> bool" where
  "well_formed_reply rep =
     (case rep of
        ErrorReply body b \<Rightarrow> (\<exists>se. from_error_body body = Inr se)
      | RowsErrorReply cols vs body b \<Rightarrow> (\<exists>se. from_error_body body = Inr se)
      | _ \<Rightarrow> True)"

text \<open>What \<open>query\<close> makes of the outcome of its stream.\<close>

definition finish_query :: "(pg_error, row list) outcome \<times> row_stream \<times> connection \<Rightarrow>
   (pg_error, query_result) outcome \<times> connection"
where
  "finish_query out = (case out of
       (Ret (Inr rows), st', c') \<Rightarrow>
         (Ret (Ok \<lparr> qr_rows = rows,
                    qr_command_tag = (case stream_command_tag st' of None \<Rightarrow> [] | Some t \<Rightarrow> t),
                    qr_columns = (case rs_columns st' of None \<Rightarrow> [] | Some cs \<Rightarrow> cs) \<rparr>),
          drop_stream st' c')
     | (Ret (Inl e), st', c') \<Rightarrow> (Ret (Err e), drop_stream st' c')
     | (Pending, st', c') \<Rightarrow> (Pending, c'))"

lemma query_unfold:
  assumes "state c = Idle" "\<not> needs_recovery c" "write_faults c = []"
  shows "query sql c = finish_query
    (stream_collect new_simple (c\<lparr>state := Streaming, outbox := outbox c @ [Query sql]\<rparr>) [])"
  using assms
  by (simp add: query_def query_stream_def finish_query_def bindc_def recover_def retc_def
      transition_Idle_active active_states_def send_c_ok)

lemma rows_reply:
  assumes "interleaved ms (RowDescription (Inr cols) # map (\<lambda>v. DataRow (Inr v)) vs @ [t, ReadyForQuery b])"
    and "inbox c = map Inr ms @ rest" "rs_state st = WaitingForDescription"
    and "tail_result t (map (mk_row cols) vs) = (Some out, fin)"
  shows "\<exists>st' c'. stream_collect st c [] = (Ret out, st', c') \<and> rs_state st' = fin
           \<and> rs_columns st' = Some cols \<and> answered c c' (map Inr ms) rest b"
proof -
  have na: "\<not> is_async (RowDescription (Inr cols))" by (simp add: is_async_def)
  obtain pre ms' where ms: "ms = pre @ RowDescription (Inr cols) # ms'" "\<forall>m\<in>set pre. is_async m"
    "interleaved ms' (map (\<lambda>v. DataRow (Inr v)) vs @ [t, ReadyForQuery b])"
    using interleaved_split [OF assms(1) na] by auto
  let ?xs = "map Inr ms' @ rest"
  have "inbox c = map Inr pre @ (Inr (RowDescription (Inr cols)) # ?xs)" using ms assms(2) by simp
  from collect_skip [OF ms(2) _ this, of st "[]"] obtain c2 where
    c2: "stream_collect st c [] = stream_collect st c2 []" "inbox c2 = Inr (RowDescription (Inr cols)) # ?xs"
    "\<forall>c' ms rest b. answered c2 c' ms rest b \<longrightarrow> answered c c' (map Inr pre @ ms) rest b"
    using assms(3) by (auto simp: stream_is_done_def)
  let ?st = "st\<lparr>rs_columns := Some cols, rs_state := ReceivingRows\<rparr>" and ?c3 = "c2\<lparr>inbox := ?xs\<rparr>"
  have "stream_collect st c2 [] = stream_collect ?st ?c3 []"
    using assms(3) c2(2) by (intro collect_cong) (simp add: stream_next_def Let_def)
  moreover obtain st' c' where "stream_collect ?st ?c3 [] = (Ret out, st', c')" "rs_state st' = fin"
    "rs_columns st' = Some cols" "answered ?c3 c' (map Inr ms') rest b"
    using collect_rows [OF ms(3), of ?st cols ?c3 rest "[]" out fin] assms(4) by auto
  ultimately show ?thesis
    using c2 ms(1) answered_sync [where c = c2 and xs = ?xs and m = "RowDescription (Inr cols)"]
    by (auto simp: notif_of_def)
qed

lemma command_reply:
  assumes "interleaved ms [s, ReadyForQuery b]" "inbox c = map Inr ms @ rest"
    and "rs_state st = WaitingForDescription \<or> rs_state st = ReceivingRows \<and> s \<noteq> EmptyQueryResponse"
    and "s = CommandComplete (Inr tag) \<or> s = EmptyQueryResponse \<and> tag = []"
  shows "\<exists>c'. stream_collect st c [] = (Ret (Ok []), st\<lparr>rs_state := SDone tag\<rparr>, c')
           \<and> answered c c' (map Inr ms) rest b"
proof -
  have na: "\<not> is_async s" using assms(4) by (auto simp: is_async_def)
  obtain pre ms' where ms: "ms = pre @ s # ms'" "\<forall>m\<in>set pre. is_async m"
    "interleaved ms' [ReadyForQuery b]"
    using interleaved_split [OF assms(1) na] by auto
  let ?xs = "map Inr ms' @ rest"
  have "inbox c = map Inr pre @ (Inr s # ?xs)" using ms assms(2) by simp
  from collect_skip [OF ms(2) _ this, of st "[]"] obtain c2 where
    c2: "stream_collect st c [] = stream_collect st c2 []" "inbox c2 = Inr s # ?xs"
    "\<forall>c' ms rest b. answered c2 c' ms rest b \<longrightarrow> answered c c' (map Inr pre @ ms) rest b"
    using assms(3) by (auto simp: stream_is_done_def)
  let ?st = "st\<lparr>rs_state := Finishing tag\<rparr>" and ?c3 = "c2\<lparr>inbox := ?xs\<rparr>"
  have "stream_collect st c2 [] = stream_collect ?st ?c3 []"
    using assms(3,4) c2(2) by (intro collect_cong) (auto simp: stream_next_def Let_def unwrap_or_empty_def)
  moreover obtain c' where "stream_collect ?st ?c3 [] = (Ret (Ok []), ?st\<lparr>rs_state := SDone tag\<rparr>, c')"
    "answered ?c3 c' (map Inr ms') rest b"
    using collect_finishing [OF ms(3), of ?st tag ?c3 rest "[]"] by auto
  ultimately show ?thesis
    using c2 ms(1) answered_sync [where c = c2 and xs = ?xs and m = s] assms(4)
    by (auto simp: notif_of_def)
qed

lemma error_reply:
  assumes "interleaved ms [ErrorResponse body, ReadyForQuery b]" "inbox c = map Inr ms @ rest"
    and "rs_state st = WaitingForDescription \<or> rs_state st = ReceivingRows" "from_error_body body = Inr se"
  shows "\<exists>c'. stream_collect st c [] = (Ret (Err (PgServer se)), st\<lparr>rs_state := SError\<rparr>, c')
           \<and> answered c c' (map Inr ms) rest b"
proof -
  have na: "\<not> is_async (ErrorResponse body)" by (simp add: is_async_def)
  obtain pre ms' where ms: "ms = pre @ ErrorResponse body # ms'" "\<forall>m\<in>set pre. is_async m"
    "interleaved ms' [ReadyForQuery b]"
    using interleaved_split [OF assms(1) na] by auto
  let ?xs = "map Inr ms' @ rest"
  have "inbox c = map Inr pre @ (Inr (ErrorResponse body) # ?xs)" using ms assms(2) by simp
  from collect_skip [OF ms(2) _ this, of st "[]"] obtain c2 where
    c2: "stream_collect st c [] = stream_collect st c2 []" "inbox c2 = Inr (ErrorResponse body) # ?xs"
    "\<forall>c' ms rest b. answered c2 c' ms rest b \<longrightarrow> answered c c' (map Inr pre @ ms) rest b"
    using assms(3) by (auto simp: stream_is_done_def)
  let ?c3 = "c2\<lparr>inbox := ?xs\<rparr>"
  have "inbox ?c3 = map Inr ms' @ rest" by simp
  from stream_error_reply [OF ms(3) this assms(4), of st] obtain c' where
    "stream_error body st ?c3 =
       (Ret (Err (PgServer se)) :: (pg_error, row option) outcome, st\<lparr>rs_state := SError\<rparr>, c')"
    "answered ?c3 c' (map Inr ms') rest b" by blast
  moreover from this(1) have "stream_collect st c2 [] = (Ret (Err (PgServer se)), st\<lparr>rs_state := SError\<rparr>, c')"
    using assms(3) c2(2) by (subst stream_collect.simps) (auto simp: stream_next_def Let_def)
  ultimately show ?thesis
    using c2 ms(1) answered_sync [where c = c2 and xs = ?xs and m = "ErrorResponse body"]
    by (auto simp: notif_of_def)
qed

text \<open>The complete behaviour of \<open>query\<close> on every kind of reply.\<close>

lemma query_reply:
  assumes "state c = Idle" "\<not> needs_recovery c" "write_faults c = []"
    and "interleaved ms (reply_messages rep)" "inbox c = map Inr ms @ rest" "well_formed_reply rep"
  shows "\<exists>c'. query sql c = (Ret (reply_result rep), c') \<and>
     answered (c\<lparr>outbox := outbox c @ [Query sql]\<rparr>) c' (map Inr ms) rest (reply_status rep)"
proof -
  let ?c = "c\<lparr>state := Streaming, outbox := outbox c @ [Query sql]\<rparr>"
  let ?fin = "\<lambda>x. finish_query x"
  have i: "inbox ?c = map Inr ms @ rest" "rs_state new_simple = WaitingForDescription"
    using assms(5) by (simp_all add: new_simple_def)
  have a: "answered ?c c' (map Inr ms) rest b \<Longrightarrow>
           answered (c\<lparr>outbox := outbox c @ [Query sql]\<rparr>) c' (map Inr ms) rest b" for c' b
    by (simp add: answered_def)
  note q = query_unfold [OF assms(1-3), of sql]
  show ?thesis
  proof (cases rep)
    case (RowsReply cols vs tag b)
    then have "interleaved ms (RowDescription (Inr cols) # map (\<lambda>v. DataRow (Inr v)) vs @ [CommandComplete (Inr tag), ReadyForQuery b])"
      using assms(4) by simp
    from rows_reply [OF this i] RowsReply q a show ?thesis
      by (fastforce simp: finish_query_def stream_command_tag_def drop_stream_def stream_is_done_def
          unwrap_or_empty_def)
  next
    case (CommandReply tag b)
    then have "interleaved ms [CommandComplete (Inr tag), ReadyForQuery b]" using assms(4) by simp
    from command_reply [OF this i(1), of new_simple tag] i(2) CommandReply q a show ?thesis
      by (fastforce simp: finish_query_def stream_command_tag_def drop_stream_def stream_is_done_def
          new_simple_def)
  next
    case (EmptyReply b)
    then have "interleaved ms [EmptyQueryResponse, ReadyForQuery b]" using assms(4) by simp
    from command_reply [OF this i(1), of new_simple "[]"] i(2) EmptyReply q a show ?thesis
      by (fastforce simp: finish_query_def stream_command_tag_def drop_stream_def stream_is_done_def
          new_simple_def)
  next
    case (ErrorReply body b)
    then obtain se where se: "from_error_body body = Inr se"
      using assms(6) by (auto simp: well_formed_reply_def)
    have "interleaved ms [ErrorResponse body, ReadyForQuery b]" using assms(4) ErrorReply by simp
    from error_reply [OF this i(1) _ se, of new_simple] i(2) ErrorReply q a se show ?thesis
      by (fastforce simp: finish_query_def drop_stream_def stream_is_done_def)
  next
    case (RowsErrorReply cols vs body b)
    then obtain se where se: "from_error_body body = Inr se"
      using assms(6) by (auto simp: well_formed_reply_def)
    have "interleaved ms (RowDescription (Inr cols) # map (\<lambda>v. DataRow (Inr v)) vs @ [ErrorResponse body, ReadyForQuery b])"
      using assms(4) RowsErrorReply by simp
    from rows_reply [OF this i] RowsErrorReply q a se show ?thesis
      by (fastforce simp: finish_query_def drop_stream_def stream_is_done_def)
  qed
qed

subsection \<open>Lemmas: no notification is lost\<close>

lemma lossless_skip:
  assumes "inbox c = r # ms" "lossless (c\<lparr>inbox := ms\<rparr>) c'" "notifs [r] = []"
  shows "lossless c c'"
  using assms by (intro lossless_step [of c r ms "c\<lparr>inbox := ms\<rparr>"]) simp_all

lemma lossless_handle:
  assumes "inbox c = Inr m # ms" "lossless (snd (handle_async_message m (c\<lparr>inbox := ms\<rparr>))) c'"
  shows "lossless c c'"
  using assms
  by (intro lossless_step [of c "Inr m" ms "snd (handle_async_message m (c\<lparr>inbox := ms\<rparr>))"])
    (simp_all add: handle_async_queue)

lemma lossless_update [simp]:
  "lossless c (c'\<lparr>state := s\<rparr>) = lossless c c'"
  "lossless c (c'\<lparr>transaction_status := t\<rparr>) = lossless c c'"
  "lossless c (c'\<lparr>needs_recovery := b\<rparr>) = lossless c c'"
  "lossless c (c'\<lparr>outbox := os\<rparr>) = lossless c c'"
  "lossless c (c'\<lparr>session_state := ss\<rparr>) = lossless c c'"
  "lossless c (c'\<lparr>health := h\<rparr>) = lossless c c'"
  "lossless c (c'\<lparr>statement_counter := n\<rparr>) = lossless c c'"
  by (simp_all add: lossless_def)

lemma stream_error_lossless: "lossless c (snd (snd (stream_error b st c)))"
  using read_until_ready_lossless [of c]
  by (auto simp: stream_error_def split: sum.splits prod.splits outcome.splits)

lemma stream_loop_lossless: "inbox c = ms \<Longrightarrow> lossless c (snd (snd (stream_loop ms st c)))"
proof (induction ms arbitrary: st c)
  case Nil
  then show ?case by (auto split: row_stream_state.splits)
next
  case (Cons r ms)
  let ?c1 = "c\<lparr>inbox := ms\<rparr>"
  have next1: "lossless ?c1 (snd (snd (stream_loop ms st' ?c1)))" for st' by (rule Cons.IH) simp
  show ?case
  proof (cases r)
    case (Inl e)
    then show ?thesis using Cons.prems lossless_skip [OF Cons.prems, of ?c1]
      by (auto simp: Let_def split: row_stream_state.splits)
  next
    case (Inr m)
    let ?c2 = "snd (handle_async_message m ?c1)"
    have "lossless ?c2 (snd (snd (stream_loop ms st' ?c2)))" for st' by (rule Cons.IH) simp
    then have h: "lossless c (snd (snd (stream_loop ms st' ?c2)))" for st'
      using Cons.prems Inr by (intro lossless_handle [of c m ms]) simp_all
    have s: "notif_of m = [] \<Longrightarrow> lossless c (snd (snd (stream_loop ms st' ?c1)))" for st'
      using Cons.prems Inr next1 by (intro lossless_skip [of c r ms]) simp_all
    have e: "notif_of m = [] \<Longrightarrow> lossless c (snd (snd (stream_error b st ?c1)))" for b
      using Cons.prems Inr stream_error_lossless by (intro lossless_skip [of c r ms]) simp_all
    have d: "notif_of m = [] \<Longrightarrow> lossless c ?c1"
      using Cons.prems Inr by (intro lossless_skip [of c r ms]) simp_all
    show ?thesis using h s e d Inr
      by (cases m; cases "rs_state st") (auto simp: Let_def notif_of_def split: sum.splits)
  qed
qed

lemma stream_next_lossless: "stream_next st c = (r, st', c') \<Longrightarrow> lossless c c'"
  using stream_loop_lossless [of c "inbox c" st] by (simp add: stream_next_def)

lemma stream_collect_lossless: "lossless c (snd (snd (stream_collect st c rows)))"
proof (induction st c rows rule: stream_collect.induct)
  case (1 st c rows)
  obtain r st' c' where n: "stream_next st c = (r, st', c')" by (metis prod_cases3)
  note l = stream_next_lossless [OF n]
  show ?case
  proof (cases "\<exists>x. r = Ret (Inr (Some x))")
    case True
    then obtain x where x: "r = Ret (Inr (Some x))" ..
    have "lossless c' (snd (snd (stream_collect st' c' (rows @ [x]))))"
      using 1 n x by simp
    then show ?thesis using lossless_trans [OF l] n x by (subst stream_collect.simps) simp
  next
    case False
    then show ?thesis using n l
      by (subst stream_collect.simps) (auto split: outcome.splits sum.splits option.splits)
  qed
qed

lemma recover_lossless: "lossless c (snd (recover c))"
  using read_until_ready_lossless [of c]
  by (auto simp: recover_def bindc_def modifyc_def split: prod.splits outcome.splits sum.splits)

lemma bindc_lossless:
  assumes "lossless c (snd (m c))" "\<And>a c'. lossless c' (snd (f a c'))"
  shows "lossless c (snd (bindc m f c))"
  using assms by (auto simp: bindc_def intro: lossless_trans split: prod.splits outcome.splits sum.splits)

lemma transition_lossless: "lossless c (snd (transition s c))"
  by (simp add: transition_def)

lemma send_c_lossless: "lossless c (snd (send_c m c))"
  using send_c_frame [of m c] by (cases "send_c m c") (auto intro: lossless_frame)

lemma flush_c_lossless: "lossless c (snd (flush_c c))"
  using flush_c_frame [of c] by (cases "flush_c c") (auto intro: lossless_frame)

lemma retc_lossless: "lossless c (snd (retc a c))"
  by (simp add: retc_def)

lemma drop_stream_lossless [simp]: "lossless c (drop_stream st c') = lossless c c'"
  by (simp add: drop_stream_def)

lemmas lossless_intros [inv_intros] = bindc_lossless transition_lossless send_c_lossless
  flush_c_lossless retc_lossless recover_lossless read_until_ready_lossless

lemma query_stream_lossless: "lossless c (snd (query_stream sql c))"
  unfolding query_stream_def by (intro lossless_intros)

lemma query_lossless: "lossless c (snd (query sql c))"
  unfolding query_def
proof (rule bindc_lossless [OF query_stream_lossless], goal_cases)
  case (1 st c)
  then show ?case using stream_collect_lossless [of c st "[]"]
    by (auto split: prod.splits outcome.splits sum.splits)
qed

lemma execute_lossless: "lossless c (snd (execute sql c))"
  unfolding execute_def by (intro bindc_lossless query_lossless retc_lossless)

lemma batch_loop_lossless: "inbox c = ms \<Longrightarrow> lossless c (snd (batch_loop ms results cols rows c))"
proof (induction ms arbitrary: results cols rows c)
  case Nil
  then show ?case by (auto intro: lossless_frame)
next
  case (Cons r ms)
  let ?c1 = "c\<lparr>inbox := ms\<rparr>"
  show ?case
  proof (cases r)
    case (Inl e)
    then show ?thesis using lossless_skip [OF Cons.prems, of ?c1] by simp
  next
    case (Inr m)
    obtain a c2 where p: "handle_async_message m ?c1 = (a, c2)" by fastforce
    then have a: "a = is_async m" "c2 = snd (handle_async_message m ?c1)"
      using handle_async_fst [of m ?c1] by simp_all
    have h: "lossless c (snd (batch_loop ms rs cs ws c2))" for rs cs ws
      unfolding a(2) using Cons.prems Inr by (intro lossless_handle [of c m ms] Cons.IH) simp_all
    show ?thesis
    proof (cases "is_async m")
      case True
      then show ?thesis unfolding Inr batch_loop.simps Let_def p using h a(1) by simp
    next
      case False
      then have nt: "notifs [r] = []" using Inr by (cases m) (simp_all add: is_async_def notif_of_def)
      have s: "lossless c (snd (batch_loop ms rs cs ws ?c1))" for rs cs ws
        using Cons.prems nt by (intro lossless_skip [of c r ms] Cons.IH) simp_all
      have d: "lossless c ?c1"
        using Cons.prems nt by (intro lossless_skip [of c r ms]) simp_all
      have e: "lossless c (snd (bindc read_until_ready (\<lambda>_ c. (Ret (Err x), c\<lparr>state := Idle\<rparr>)) ?c1))"
        for x :: pg_error
        using Cons.prems nt
        by (intro lossless_skip [of c r ms] bindc_lossless read_until_ready_lossless) simp_all
      show ?thesis unfolding Inr batch_loop.simps p Let_def using False a(1)
        by (cases m) (auto split: sum.splits intro: s d e)
    qed
  qed
qed

lemma batch_execute_lossless: "lossless c (snd (batch_execute sql c))"
  unfolding batch_execute_def
  by (intro lossless_intros) (simp add: batch_loop_lossless)

subsection \<open>Lemmas: recovery after an abandoned stream\<close>

lemma recover_reply:
  assumes "needs_recovery c" "inbox c = pre @ Inr (ReadyForQuery b) # rest"
    and "\<forall>r\<in>set pre. \<not> is_ready r \<and> \<not> is_err r"
  shows "\<exists>c'. recover c = (Ret (Ok ()), c') \<and> inbox c' = rest \<and> state c' = Idle \<and> \<not> needs_recovery c'
     \<and> transaction_status c' = ready_status b \<and> outbox c' = outbox c \<and> write_faults c' = write_faults c
     \<and> notification_queue c' = notification_queue c @ notifs pre"
proof -
  obtain c1 where "read_until_ready c = (Ret (Ok ()), c1)" "inbox c1 = rest" "state c1 = Idle"
    "transaction_status c1 = ready_status b" "outbox c1 = outbox c" "write_faults c1 = write_faults c"
    "notification_queue c1 = notification_queue c @ notifs pre"
    using read_until_ready_loop_ready [OF assms(3), of b rest c] assms(2)
    by (auto simp: read_until_ready_def)
  then show ?thesis using assms(1)
    by (intro exI [of _ "c1\<lparr>needs_recovery := False\<rparr>"]) (simp add: recover_def modifyc_def)
qed

lemma query_recovered:
  assumes "recover c = (Ret (Ok ()), c1)" "\<not> needs_recovery c1"
  shows "query sql c = query sql c1"
  using assms by (simp add: query_def query_stream_def bindc_def recover_def)

subsection \<open>Properties\<close>

text \<open>
  C1.  Functional correctness of the simple query protocol: on an idle connection, when the server
  answers a query with rows, with a command tag, with an empty-query response or with an error (also
  after some rows), and whatever notices, parameter changes and notifications it mixes in, \<open>query\<close>
  sends exactly the query and returns exactly the rows with the column description and the command
  tag (or the server's error), \<open>execute\<close> returns the tag and \<open>query_one\<close> the first row; afterwards the
  connection is idle, has consumed exactly this reply, has the transaction status the server
  reported, and has queued the notifications in order.
\<close>

theorem query_answers:
  assumes "state c = Idle" "\<not> needs_recovery c" "write_faults c = []"
    and "interleaved ms (reply_messages rep)" "inbox c = map Inr ms @ rest" "well_formed_reply rep"
  shows "\<exists>c'. query sql c = (Ret (reply_result rep), c') \<and>
     execute sql c = (Ret (bind_res (reply_result rep) (\<lambda>r. Ok (qr_command_tag r))), c') \<and>
     query_one sql c = (Ret (bind_res (reply_result rep) (\<lambda>r. Ok (case qr_rows r of [] \<Rightarrow> None | x # _ \<Rightarrow> Some x))), c') \<and>
     inbox c' = rest \<and> state c' = Idle \<and> transaction_status c' = ready_status (reply_status rep) \<and>
     notification_queue c' = notification_queue c @ notifs (map Inr ms) \<and>
     outbox c' = outbox c @ [Query sql] \<and> \<not> needs_recovery c'"
proof -
  obtain c' where q: "query sql c = (Ret (reply_result rep), c')"
    "answered (c\<lparr>outbox := outbox c @ [Query sql]\<rparr>) c' (map Inr ms) rest (reply_status rep)"
    using query_reply [OF assms] by blast
  then show ?thesis using assms(2)
    by (cases "reply_result rep")
      (auto simp: execute_def query_one_def retc_def bind_res_def answered_def)
qed

theorem query_answers_witness:
  "\<exists>c'. query ''SELECT 1'' (sample_connection [RowDescription (Ok []), NotificationResponse 7 (Ok ''ch'') (Ok ''x''),
       DataRow (Ok [Some [49]]), CommandComplete (Ok ''SELECT 1''), ReadyForQuery CHR ''I''])
     = (Ret (Ok \<lparr> qr_rows = [mk_row [] [Some [49]]], qr_command_tag = ''SELECT 1'', qr_columns = [] \<rparr>), c') \<and>
     notification_queue c' = [\<lparr> n_process_id = 7, n_channel = ''ch'', n_payload = ''x'' \<rparr>] \<and> state c' = Idle"
proof -
  let ?rep = "RowsReply [] [[Some [49]]] ''SELECT 1'' CHR ''I''"
  let ?ms = "[RowDescription (Ok []), NotificationResponse 7 (Ok ''ch'') (Ok ''x''),
       DataRow (Ok [Some [49]]), CommandComplete (Ok ''SELECT 1''), ReadyForQuery CHR ''I'']"
  have "interleaved ?ms (reply_messages ?rep)" "well_formed_reply ?rep"
    by (simp_all add: is_async_def well_formed_reply_def)
  from query_answers [OF _ _ _ this(1) _ this(2), of "sample_connection ?ms" "[]" "''SELECT 1''"]
  show ?thesis by (auto simp: notif_of_def unwrap_or_empty_def)
qed

lemma modifyc_lossless:
  "(\<And>c. inbox (f c) = inbox c \<and> notification_queue (f c) = notification_queue c) \<Longrightarrow> lossless c (snd (modifyc f c))"
  by (auto simp: modifyc_def intro: lossless_frame)

lemma session_lossless:
  "lossless c (snd (reset c))" "lossless c (snd (ping c))" "lossless c (snd (set_param k v c))"
  "lossless c (snd (listen ch c))" "lossless c (snd (unlisten ch c))" "lossless c (snd (unlisten_all c))"
proof -
  note ls = lossless_intros query_lossless execute_lossless modifyc_lossless
  show "lossless c (snd (reset c))" unfolding reset_def by (intro bindc_lossless) (auto intro: ls)
  show "lossless c (snd (ping c))" "lossless c (snd (set_param k v c))" "lossless c (snd (listen ch c))"
    "lossless c (snd (unlisten ch c))" "lossless c (snd (unlisten_all c))"
    unfolding ping_def set_param_def listen_def unlisten_def unlisten_all_def
    by (intro ls; simp)+
qed

text \<open>
  C2.  A connection whose row stream was abandoned recovers: the next query first skips the rest of the
  abandoned reply, whatever rows or asynchronous messages it still holds (keeping its
  notifications), and then returns exactly its own reply; no row of the old query reaches the new
  one.
\<close>

theorem abandoned_stream_recovered:
  assumes "needs_recovery c" "write_faults c = []"
    and "\<forall>r\<in>set pre. \<not> is_ready r \<and> \<not> is_err r"
    and "interleaved ms (reply_messages rep)" "well_formed_reply rep"
    and "inbox c = pre @ Inr (ReadyForQuery b0) # map Inr ms @ rest"
  shows "\<exists>c'. query sql c = (Ret (reply_result rep), c') \<and> inbox c' = rest \<and> state c' = Idle \<and>
     \<not> needs_recovery c' \<and> outbox c' = outbox c @ [Query sql] \<and>
     notification_queue c' = notification_queue c @ notifs pre @ notifs (map Inr ms)"
proof -
  obtain c1 where r: "recover c = (Ret (Ok ()), c1)" and c1: "inbox c1 = map Inr ms @ rest" "state c1 = Idle"
    "\<not> needs_recovery c1" "outbox c1 = outbox c" "write_faults c1 = []"
    "notification_queue c1 = notification_queue c @ notifs pre"
    using recover_reply [OF assms(1,6,3)] assms(2) by auto
  from query_reply [OF c1(2,3,5) assms(4) c1(1) assms(5), of sql] c1 query_recovered [OF r c1(3), of sql]
  show ?thesis by (auto simp: answered_def)
qed

theorem abandoned_stream_recovered_witness:
  "\<exists>c'. query ''B'' ((sample_connection [DataRow (Ok [None]), CommandComplete (Ok ''SELECT 1''), ReadyForQuery CHR ''I'',
       CommandComplete (Ok ''B''), ReadyForQuery CHR ''T''])\<lparr>needs_recovery := True, state := Streaming\<rparr>)
     = (Ret (Ok \<lparr> qr_rows = [], qr_command_tag = ''B'', qr_columns = [] \<rparr>), c') \<and> state c' = Idle"
proof -
  let ?c = "(sample_connection [DataRow (Ok [None]), CommandComplete (Ok ''SELECT 1''), ReadyForQuery CHR ''I'',
       CommandComplete (Ok ''B''), ReadyForQuery CHR ''T''])\<lparr>needs_recovery := True, state := Streaming\<rparr>"
  let ?rep = "CommandReply ''B'' CHR ''T''" and ?ms = "[CommandComplete (Ok ''B''), ReadyForQuery CHR ''T'']"
  have "interleaved ?ms (reply_messages ?rep)" "well_formed_reply ?rep"
    by (simp_all add: is_async_def well_formed_reply_def)
  from abandoned_stream_recovered [OF _ _ _ this, of ?c "[Ok (DataRow (Ok [None])), Ok (CommandComplete (Ok ''SELECT 1''))]"
      "CHR ''I''" "[]" "''B''"]
  show ?thesis by (auto simp: is_ready_def is_err_def)
qed

text \<open>
  Requests never overlap: while a request is in progress (or the connection is closed) every
  further request is refused with an \<open>InvalidState\<close> error, writes nothing to the wire, reads nothing
  from it and leaves the connection exactly as it was.
\<close>

lemma busy_connection_refuses:
  assumes "state c \<noteq> Idle" "\<not> needs_recovery c"
  shows "\<exists>msg. query sql c = (Ret (Err (PgInvalidState msg)), c) \<and>
     execute sql c = (Ret (Err (PgInvalidState msg)), c) \<and> ping c = (Ret (Err (PgInvalidState msg)), c) \<and>
     (\<exists>msg'. batch_execute sql c = (Ret (Err (PgInvalidState msg')), c))"
proof -
  have t: "\<exists>msg. transition s c = (Ret (Err (PgInvalidState msg)), c)" if "s \<in> {Streaming, ActiveSimpleQuery}" for s
    using assms(1) that by (auto simp: transition_def transition_allowed_def active_states_def)
  then obtain m1 m2 where "transition Streaming c = (Ret (Err (PgInvalidState m1)), c)"
    "transition ActiveSimpleQuery c = (Ret (Err (PgInvalidState m2)), c)" by blast
  then show ?thesis using assms(2)
    by (intro exI [of _ m1]) (auto simp: query_def query_stream_def recover_def execute_def ping_def batch_execute_def)
qed

end
