(* ===== verification/Extended_Query.thy ===== *)
theory Extended_Query
  imports Query Statement_Cache
begin

text \<open>
  The extended query protocol: prepared statements (\<open>query/prepared.rs\<close>), one-shot and prepared
  queries with parameters, buffered and streamed (\<open>query/params.rs\<close>, \<open>query/mod.rs\<close>).  Every operation
  writes a batch of messages, flushes, and runs the same loop: read a message, hand asynchronous ones
  to the connection, match on the others.  That loop is \<open>sync_loop\<close>, and each operation supplies its
  \<open>match\<close> as a handler.  The locale \<open>synced\<close> is the contract of a handler that reads up to
  \<open>ReadyForQuery\<close> and resynchronises after an error.

  A parameter is the closure of its \<open>ToSql\<close> instance: object id of the type and format to the encoded
  value, \<open>None\<close> for NULL.  A \<open>Type\<close> is its object id; \<open>known\<close> tells which ids the type table of
  \<open>postgres_types\<close> has.
\<close>

subsection \<open>The message loop\<close>

datatype 's step =
    More 's
  | Stop "connection \<Rightarrow> (pg_error, unit) outcome \<times> 's \<times> connection"

type_synonym 's handler = "backend_message \<Rightarrow> 's \<Rightarrow> 's step"

fun sync_loop ::
  "'s handler \<Rightarrow> (auth_error, backend_message) res list \<Rightarrow> 's \<Rightarrow> connection \<Rightarrow>
   (pg_error, unit) outcome \<times> 's \<times> connection"
where
  "sync_loop h [] s c = (Pending, s, c\<lparr>inbox := []\<rparr>)"
| "sync_loop h (Inl e # ms) s c = (Ret (Err (from_auth_error e)), s, c\<lparr>inbox := ms\<rparr>)"
| "sync_loop h (Inr m # ms) s c =
     (case handle_async_message m (c\<lparr>inbox := ms\<rparr>) of
        (is_a, c2) \<Rightarrow>
          if is_a then sync_loop h ms s c2
          else (case h m s of More s' \<Rightarrow> sync_loop h ms s' c2 | Stop k \<Rightarrow> k c2))"

definition read_replies :: "'s handler \<Rightarrow> 's \<Rightarrow> connection \<Rightarrow> (pg_error, unit) outcome \<times> 's \<times> connection" where
  "read_replies h s c = sync_loop h (inbox c) s c"

text \<open>The loop with local variables: only a successful exit shows their values.\<close>

definition local_loop :: "'s handler \<Rightarrow> 's \<Rightarrow> 's cm" where
  "local_loop h s c =
     (case read_replies h s c of
        (Ret (Inr _), s', c') \<Rightarrow> (Ret (Ok s'), c')
      | (Ret (Inl e), s', c') \<Rightarrow> (Ret (Err e), c')
      | (Pending, s', c') \<Rightarrow> (Pending, c'))"

definition set_idle :: "connection \<Rightarrow> connection" where
  "set_idle c = c\<lparr>state := Idle\<rparr>"

definition with_body :: "'s \<Rightarrow> (io_error, 'b) res \<Rightarrow> ('b \<Rightarrow> 's step) \<Rightarrow> 's step" where
  "with_body s r f = (case r of Inl e \<Rightarrow> Stop (\<lambda>c. (Ret (Err (PgIo e)), s, c)) | Inr x \<Rightarrow> f x)"

text \<open>
  The arms for \<open>ReadyForQuery\<close> and \<open>ErrorResponse\<close>, with what the operation does to the connection and
  to its own state afterwards.
\<close>

definition ready_stop :: "char \<Rightarrow> (connection \<Rightarrow> connection) \<Rightarrow> 's \<Rightarrow> 's step" where
  "ready_stop b post s = Stop (\<lambda>c. (Ret (Ok ()), s, post (c\<lparr>transaction_status := ready_status b\<rparr>)))"

definition error_stop ::
  "error_body \<Rightarrow> (connection \<Rightarrow> connection) \<Rightarrow> ('s \<Rightarrow> 's) \<Rightarrow> 's \<Rightarrow> 's step"
where
  "error_stop body post upd s = Stop (\<lambda>c.
     case from_error_body body of
       Inl e \<Rightarrow> (Ret (Err (PgIo e)), s, c)
     | Inr se \<Rightarrow>
         (case read_until_ready c of
            (Ret (Inr _), c2) \<Rightarrow> (Ret (Err (PgServer se)), upd s, post c2)
          | (Ret (Inl e), c2) \<Rightarrow> (Ret (Err e), s, c2)
          | (Pending, c2) \<Rightarrow> (Pending, s, c2)))"

primrec write_batch :: "frontend_message list \<Rightarrow> unit cm" where
  "write_batch [] = flush_c"
| "write_batch (m # ms) = bindc (send_c m) (\<lambda>_. write_batch ms)"

definition lift_res :: "(pg_error, 'a) res \<Rightarrow> 'a cm" where
  "lift_res r c = (Ret r, c)"

subsection \<open>Prepared statements\<close>

definition UNKNOWN :: nat where "UNKNOWN = 705"

text \<open>The counter is a \<open>u32\<close>: \<open>+= 1\<close> wraps in a release build (a debug build panics there instead).\<close>

definition next_statement_name :: "string cm" where
  "next_statement_name c =
     (let n = statement_counter c + 1
      in (Ret (Ok (''__pg_stmt_'' @ show_nat (unat n))), c\<lparr>statement_counter := n\<rparr>))"

fun prepare_step :: "(nat \<Rightarrow> bool) \<Rightarrow> (nat list \<times> field_description list) handler" where
  "prepare_step known m (tys, cols) =
     (case m of
        ParameterDescription body \<Rightarrow>
          with_body (tys, cols) body
            (\<lambda>oids. More (tys @ map (\<lambda>oid. if known oid then oid else UNKNOWN) oids, cols))
      | RowDescription body \<Rightarrow> with_body (tys, cols) body (\<lambda>cs. More (tys, cs))
      | ReadyForQuery b \<Rightarrow> ready_stop b set_idle (tys, cols)
      | ErrorResponse body \<Rightarrow> error_stop body id id (tys, cols)
      | _ \<Rightarrow> More (tys, cols))"

definition prepare :: "(nat \<Rightarrow> bool) \<Rightarrow> string \<Rightarrow> prepared_statement cm" where
  "prepare known sql =
     bindc (transition ActiveExtendedQuery) (\<lambda>_.
     bindc next_statement_name (\<lambda>nm.
     bindc (write_batch [Parse nm sql [], Describe CHR ''S'' nm, Sync]) (\<lambda>_.
     bindc (local_loop (prepare_step known) ([], [])) (\<lambda>(tys, cols).
       retc \<lparr> ps_name = nm, ps_sql = sql, param_types = tys, ps_columns = cols \<rparr>))))"

fun close_step :: "(connection \<Rightarrow> connection) \<Rightarrow> unit handler" where
  "close_step post m _ =
     (case m of
        ReadyForQuery b \<Rightarrow> ready_stop b set_idle ()
      | ErrorResponse body \<Rightarrow> error_stop body post id ()
      | _ \<Rightarrow> More ())"

definition close_statement :: "prepared_statement \<Rightarrow> unit cm" where
  "close_statement stmt =
     bindc (transition ActiveExtendedQuery) (\<lambda>_.
     bindc (write_batch [Close CHR ''S'' (ps_name stmt), Sync]) (\<lambda>_.
       local_loop (close_step id) ()))"

subsection \<open>Parameters\<close>

type_synonym to_sql = "nat \<Rightarrow> format_code \<Rightarrow> (type_error, bytes option) res"

fun encode_params_text :: "to_sql list \<Rightarrow> (pg_error, bytes option list) res" where
  "encode_params_text [] = Ok []"
| "encode_params_text (p # ps) =
     (case p UNKNOWN Text of
        Inl e \<Rightarrow> Err (PgTypeConversion e)
      | Inr v \<Rightarrow> bind_res (encode_params_text ps) (\<lambda>vs. Ok (v # vs)))"

fun encode_zipped :: "(to_sql \<times> nat) list \<Rightarrow> (pg_error, bytes option list) res" where
  "encode_zipped [] = Ok []"
| "encode_zipped ((p, ty) # ps) =
     (case p ty Binary of
        Inl e \<Rightarrow> Err (PgTypeConversion e)
      | Inr v \<Rightarrow> bind_res (encode_zipped ps) (\<lambda>vs. Ok (v # vs)))"

definition encode_params_binary :: "to_sql list \<Rightarrow> nat list \<Rightarrow> (pg_error, bytes option list) res" where
  "encode_params_binary ps tys =
     (if length ps \<noteq> length tys then
        Err (PgConfig (''parameter count mismatch: expected '' @ show_nat (length tys) @ '', got ''
                       @ show_nat (length ps)))
      else encode_zipped (zip ps tys))"

subsection \<open>Queries with parameters\<close>

record ext_result =
  ea_columns :: "field_description list option"
  ea_rows :: "row list"
  ea_tag :: "string option"

definition synthetic_columns :: "nat \<Rightarrow> field_description list" where
  "synthetic_columns n =
     map (\<lambda>i. \<lparr> fd_name = ''col'' @ show_nat i, table_oid = 0, column_id = 0, type_oid = 0,
               type_size = -1, type_modifier = -1, fd_format = 1 \<rparr>) [0..<n]"

definition extended_step :: "ext_result handler" where
  "extended_step m s =
     (case m of
        RowDescription body \<Rightarrow> with_body s body (\<lambda>cs. More (s\<lparr>ea_columns := Some cs\<rparr>))
      | DataRow body \<Rightarrow> with_body s body (\<lambda>vals.
          let cols = (case ea_columns s of None \<Rightarrow> synthetic_columns (length vals) | Some cs \<Rightarrow> cs)
          in More (s\<lparr>ea_columns := Some cols,
                     ea_rows := ea_rows s @ [\<lparr> row_columns = cols, row_values = vals \<rparr>]\<rparr>))
      | CommandComplete body \<Rightarrow> More (s\<lparr>ea_tag := Some (unwrap_or_empty body)\<rparr>)
      | EmptyQueryResponse \<Rightarrow> More (s\<lparr>ea_tag := Some []\<rparr>)
      | ErrorResponse body \<Rightarrow> error_stop body id id s
      | ReadyForQuery b \<Rightarrow> ready_stop b id s
      | _ \<Rightarrow> More s)"

definition ext_start :: ext_result where
  "ext_start = \<lparr> ea_columns = None, ea_rows = [], ea_tag = None \<rparr>"

definition ext_finish :: "ext_result \<Rightarrow> query_result" where
  "ext_finish s =
     \<lparr> qr_rows = ea_rows s, qr_command_tag = (case ea_tag s of None \<Rightarrow> [] | Some t \<Rightarrow> t),
       qr_columns = (case ea_columns s of None \<Rightarrow> [] | Some cs \<Rightarrow> cs) \<rparr>"

definition read_extended_query_result :: "query_result cm" where
  "read_extended_query_result = bindc (local_loop extended_step ext_start) (\<lambda>s. retc (ext_finish s))"

text \<open>\<open>let result = self.read_extended_query_result().await; self.state = Idle; result\<close>\<close>

definition finish_extended :: "query_result cm" where
  "finish_extended c =
     (case read_extended_query_result c of
        (Pending, c') \<Rightarrow> (Pending, c')
      | (Ret r, c') \<Rightarrow> (Ret r, c'\<lparr>state := Idle\<rparr>))"

definition params_batch :: "string \<Rightarrow> bytes option list \<Rightarrow> frontend_message list" where
  "params_batch sql vs =
     [Parse [] sql [], Bind [] [] [Text] vs [Binary], Describe CHR ''P'' [], Execute [] 0, Sync]"

definition prepared_batch :: "prepared_statement \<Rightarrow> bytes option list \<Rightarrow> frontend_message list" where
  "prepared_batch stmt vs =
     [Bind [] (ps_name stmt) [Binary] vs [Binary], Describe CHR ''P'' [], Execute [] 0, Sync]"

definition query_params :: "string \<Rightarrow> to_sql list \<Rightarrow> query_result cm" where
  "query_params sql ps =
     bindc (transition ActiveExtendedQuery) (\<lambda>_.
     bindc (lift_res (encode_params_text ps)) (\<lambda>vs.
     bindc (write_batch (params_batch sql vs)) (\<lambda>_. finish_extended)))"

definition execute_params :: "string \<Rightarrow> to_sql list \<Rightarrow> string cm" where
  "execute_params sql ps = bindc (query_params sql ps) (\<lambda>r. retc (qr_command_tag r))"

definition query_prepared :: "prepared_statement \<Rightarrow> to_sql list \<Rightarrow> query_result cm" where
  "query_prepared stmt ps =
     bindc (transition ActiveExtendedQuery) (\<lambda>_.
     bindc (lift_res (encode_params_binary ps (param_types stmt))) (\<lambda>vs.
     bindc (write_batch (prepared_batch stmt vs)) (\<lambda>_. finish_extended)))"

definition execute_prepared :: "prepared_statement \<Rightarrow> to_sql list \<Rightarrow> string cm" where
  "execute_prepared stmt ps = bindc (query_prepared stmt ps) (\<lambda>r. retc (qr_command_tag r))"

subsection \<open>Streams with parameters\<close>

definition preamble_step :: "field_description list option handler" where
  "preamble_step m cols =
     (case m of
        RowDescription body \<Rightarrow> with_body cols body (\<lambda>cs. Stop (\<lambda>c. (Ret (Ok ()), Some cs, c)))
      | NoData \<Rightarrow> Stop (\<lambda>c. (Ret (Ok ()), cols, c))
      | CommandComplete _ \<Rightarrow> Stop (\<lambda>c. (Ret (Ok ()), cols, c))
      | ReadyForQuery b \<Rightarrow> ready_stop b id cols
      | ErrorResponse body \<Rightarrow> error_stop body set_idle id cols
      | EmptyQueryResponse \<Rightarrow> Stop (\<lambda>c. (Ret (Ok ()), cols, c))
      | _ \<Rightarrow> More cols)"

definition query_params_stream :: "string \<Rightarrow> to_sql list \<Rightarrow> row_stream cm" where
  "query_params_stream sql ps =
     bindc recover (\<lambda>_.
     bindc (transition Streaming) (\<lambda>_.
     bindc (lift_res (encode_params_text ps)) (\<lambda>vs.
     bindc (write_batch (params_batch sql vs)) (\<lambda>_.
     bindc (local_loop preamble_step None) (\<lambda>cols. retc (new_extended_receiving cols))))))"

definition query_prepared_stream :: "prepared_statement \<Rightarrow> to_sql list \<Rightarrow> row_stream cm" where
  "query_prepared_stream stmt ps =
     bindc recover (\<lambda>_.
     bindc (transition Streaming) (\<lambda>_.
     bindc (lift_res (encode_params_binary ps (param_types stmt))) (\<lambda>vs.
     bindc (write_batch (prepared_batch stmt vs)) (\<lambda>_.
       retc (new_extended_with_columns (ps_columns stmt))))))"

subsection \<open>Lemmas: reading past messages\<close>

text \<open>The connection after the messages \<open>pre\<close> have been read and only asynchronous effects have happened.\<close>

definition passed ::
  "connection \<Rightarrow> connection \<Rightarrow> (auth_error, backend_message) res list \<Rightarrow> bool"
where
  "passed c c' pre =
     (inbox c = pre @ inbox c' \<and> notification_queue c' = notification_queue c @ notifs pre \<and>
      outbox c' = outbox c \<and> write_faults c' = write_faults c \<and> state c' = state c \<and>
      transaction_status c' = transaction_status c \<and> needs_recovery c' = needs_recovery c \<and>
      session_state c' = session_state c \<and> statement_counter c' = statement_counter c)"

lemma passed_refl [simp]: "passed c c []"
  by (simp add: passed_def)

lemma passed_trans: "passed a b xs \<Longrightarrow> passed b c ys \<Longrightarrow> passed a c (xs @ ys)"
  by (auto simp: passed_def)

lemma passed_one:
  "inbox c = Inr m # ms \<Longrightarrow> passed c (snd (handle_async_message m (c\<lparr>inbox := ms\<rparr>))) [Inr m]"
  by (simp add: passed_def handle_async_queue)

lemma passed_answered:
  assumes "passed c c1 xs" "answered c1 c2 ys rest b"
  shows "answered c c2 (xs @ ys) rest b"
  using assms by (auto simp: passed_def answered_def)

lemma is_async_simps [simp]:
  "\<not> is_async ParseComplete" "\<not> is_async BindComplete" "\<not> is_async NoData" "\<not> is_async CloseComplete"
  "\<not> is_async (RowDescription cs)" "\<not> is_async (DataRow vs)" "\<not> is_async (CommandComplete tag)"
  "\<not> is_async EmptyQueryResponse" "\<not> is_async PortalSuspended" "\<not> is_async (ParameterDescription tys)"
  "\<not> is_async (ErrorResponse eb)" "\<not> is_async (ReadyForQuery b)"
  by (simp_all add: is_async_def)

lemma sync_not_notif: "\<not> is_async m \<Longrightarrow> notif_of m = []"
  by (cases m) (auto simp: is_async_def notif_of_def)

lemma handle_sync: "\<not> is_async m \<Longrightarrow> handle_async_message m c = (False, c)"
  by (cases m) (auto simp: is_async_def handle_async_message_def)

lemma handle_async: "is_async m \<Longrightarrow> handle_async_message m c = (True, snd (handle_async_message m c))"
  by (metis handle_async_fst prod.collapse)

lemma sync_loop_async:
  "is_async m \<Longrightarrow> sync_loop h (Inr m # ms) s c =
   sync_loop h ms s (snd (handle_async_message m (c\<lparr>inbox := ms\<rparr>)))"
  by (subst sync_loop.simps, subst handle_async) simp_all

lemma sync_loop_sync:
  "\<not> is_async m \<Longrightarrow> sync_loop h (Inr m # ms) s c =
   (case h m s of More s' \<Rightarrow> sync_loop h ms s' (c\<lparr>inbox := ms\<rparr>) | Stop k \<Rightarrow> k (c\<lparr>inbox := ms\<rparr>))"
  by (simp add: handle_sync)

declare sync_loop.simps(3) [simp del]

lemma interleaved_Nil [simp]: "interleaved ms [] = (ms = [])"
  by (cases ms) auto

lemma sync_loop_async_prefix:
  assumes "\<forall>m\<in>set pre. is_async m" "inbox c = map Inr pre @ rest"
  shows "\<exists>c1. sync_loop h (map Inr pre @ rest) s c = sync_loop h rest s c1 \<and> passed c c1 (map Inr pre)
              \<and> inbox c1 = rest"
  using assms
proof (induction pre arbitrary: c)
  case (Cons m pre)
  let ?c1 = "snd (handle_async_message m (c\<lparr>inbox := map Inr pre @ rest\<rparr>))"
  have m: "is_async m" and box: "inbox ?c1 = map Inr pre @ rest" using Cons.prems by simp_all
  obtain c1 where c1: "sync_loop h (map Inr pre @ rest) s ?c1 = sync_loop h rest s c1"
    "passed ?c1 c1 (map Inr pre)" "inbox c1 = rest" using Cons.IH [OF _ box] Cons.prems(1) by auto
  have "passed c ?c1 [Inr m]" using Cons.prems(2) by (intro passed_one) simp
  from passed_trans [OF this c1(2)] show ?case using c1 m
    by (intro exI [of _ c1]) (simp add: sync_loop_async)
qed auto

text \<open>What a handler makes of synchronous messages none of which ends the loop.\<close>

fun feed :: "'s handler \<Rightarrow> backend_message list \<Rightarrow> 's \<Rightarrow> 's option" where
  "feed h [] s = Some s"
| "feed h (m # ms) s = (case h m s of More s' \<Rightarrow> feed h ms s' | Stop _ \<Rightarrow> None)"

lemma feed_append: "feed h (xs @ ys) s = Option.bind (feed h xs s) (feed h ys)"
  by (induction xs arbitrary: s) (auto split: step.split)

lemma sync_loop_feed:
  assumes "interleaved ms (body @ t # ts)" "\<forall>m\<in>set body. \<not> is_async m" "\<not> is_async t"
    and "feed h body s = Some s'" "inbox c = map Inr ms @ rest"
  shows "\<exists>pre ms' c1. ms = pre @ t # ms' \<and> interleaved ms' ts \<and>
           sync_loop h (map Inr ms @ rest) s c = sync_loop h (map Inr (t # ms') @ rest) s' c1 \<and>
           passed c c1 (map Inr pre) \<and> inbox c1 = map Inr (t # ms') @ rest"
  using assms
proof (induction body arbitrary: ms s c)
  case Nil
  obtain pre ms' where ms: "ms = pre @ t # ms'" "\<forall>m\<in>set pre. is_async m" "interleaved ms' ts"
    using interleaved_split Nil.prems(1,3) by (metis append_Nil)
  then show ?case using sync_loop_async_prefix [OF ms(2), of c "map Inr (t # ms') @ rest" h s] Nil.prems(4,5)
    by (intro exI [of _ pre] exI [of _ ms']) auto
next
  case (Cons m body)
  obtain pre ms1 where ms: "ms = pre @ m # ms1" "\<forall>m\<in>set pre. is_async m"
      "interleaved ms1 (body @ t # ts)"
    using interleaved_split [of ms m "body @ t # ts"] Cons.prems(1,2) by auto
  have m: "\<not> is_async m" using Cons.prems(2) by simp
  obtain s1 where s1: "h m s = More s1" "feed h body s1 = Some s'"
    using Cons.prems(4) by (auto split: step.splits)
  obtain c1 where c1: "sync_loop h (map Inr ms @ rest) s c = sync_loop h (map Inr (m # ms1) @ rest) s c1"
      "passed c c1 (map Inr pre)" "inbox c1 = map Inr (m # ms1) @ rest"
    using sync_loop_async_prefix [OF ms(2), of c "map Inr (m # ms1) @ rest" h s] Cons.prems(5) ms(1) by auto
  let ?c2 = "c1\<lparr>inbox := map Inr ms1 @ rest\<rparr>"
  have p2: "passed c1 ?c2 [Inr m]" using c1(3) m by (simp add: passed_def sync_not_notif)
  have l2: "sync_loop h (map Inr (m # ms1) @ rest) s c1 = sync_loop h (map Inr ms1 @ rest) s1 ?c2"
    using m s1(1) by (simp add: sync_loop_sync)
  have i2: "inbox ?c2 = map Inr ms1 @ rest" and b2: "\<forall>m\<in>set body. \<not> is_async m"
    using Cons.prems(2) by simp_all
  obtain pre2 ms' c3 where c3: "ms1 = pre2 @ t # ms'" "interleaved ms' ts"
      "sync_loop h (map Inr ms1 @ rest) s1 ?c2 = sync_loop h (map Inr (t # ms') @ rest) s' c3"
      "passed ?c2 c3 (map Inr pre2)" "inbox c3 = map Inr (t # ms') @ rest"
    using Cons.IH [OF ms(3) b2 Cons.prems(3) s1(2) i2] by blast
  have "passed c c3 (map Inr (pre @ m # pre2))"
    using passed_trans [OF passed_trans [OF c1(2) p2] c3(4)] by simp
  then show ?case using ms(1) c1(1) l2 c3
    by (intro exI [of _ "pre @ m # pre2"] exI [of _ ms'] exI [of _ c3]) simp
qed

text \<open>A loop that is left at the message \<open>t\<close> with the connection as it is.\<close>

lemma read_replies_stop:
  assumes "interleaved ms (body @ t # ts)" "\<forall>m\<in>set body. \<not> is_async m" "\<not> is_async t"
    and "feed h body s = Some s'" "h t s' = Stop (\<lambda>c. (Ret (Ok ()), x, c))" "inbox c = map Inr ms @ rest"
  shows "\<exists>pre ms' c1. ms = pre @ ms' \<and> interleaved ms' ts \<and> passed c c1 (map Inr pre) \<and>
           read_replies h s c = (Ret (Ok ()), x, c1) \<and> inbox c1 = map Inr ms' @ rest"
proof -
  obtain pre ms' c1 where c1: "ms = pre @ t # ms'" "interleaved ms' ts"
      "sync_loop h (map Inr ms @ rest) s c = sync_loop h (map Inr (t # ms') @ rest) s' c1"
      "passed c c1 (map Inr pre)" "inbox c1 = map Inr (t # ms') @ rest"
    using sync_loop_feed [OF assms(1-4,6)] by metis
  let ?c2 = "c1\<lparr>inbox := map Inr ms' @ rest\<rparr>"
  have "passed c1 ?c2 [Inr t]" using c1(5) assms(3) by (simp add: passed_def sync_not_notif)
  from passed_trans [OF c1(4) this] have "passed c ?c2 (map Inr (pre @ [t]))" by simp
  moreover have "read_replies h s c = (Ret (Ok ()), x, ?c2)"
    using c1(3) assms(3,5,6) by (simp add: read_replies_def sync_loop_sync)
  ultimately show ?thesis using c1(1,2)
    by (intro exI [of _ "pre @ [t]"] exI [of _ ms'] exI [of _ ?c2]) simp
qed

subsection \<open>The contract of the loops that end in \<open>ReadyForQuery\<close>\<close>

locale synced =
  fixes h :: "'s handler"
    and leave :: "connection_state \<Rightarrow> connection_state"
    and on_ready :: "'s \<Rightarrow> 's"
    and on_error :: "'s \<Rightarrow> 's"
  assumes ready: "h (ReadyForQuery b) s = Stop (\<lambda>c.
            (Ret (Ok ()), on_ready s, c\<lparr>transaction_status := ready_status b, state := leave (state c)\<rparr>))"
    and error: "\<exists>k. h (ErrorResponse body) s = Stop k \<and>
            (\<forall>se c c'. from_error_body body = Inr se \<longrightarrow> read_until_ready c = (Ret (Ok ()), c') \<longrightarrow>
               k c = (Ret (Err (PgServer se)), on_error s, c'))"
begin

lemma reads_reply:
  assumes "interleaved ms (body @ [ReadyForQuery b])" "\<forall>m\<in>set body. \<not> is_async m"
    and "feed h body s = Some s'" "inbox c = map Inr ms @ rest"
  shows "\<exists>c'. read_replies h s c = (Ret (Ok ()), on_ready s', c') \<and> answered c (c'\<lparr>state := Idle\<rparr>) (map Inr ms) rest b
           \<and> state c' = leave (state c) \<and> session_state c' = session_state c
           \<and> statement_counter c' = statement_counter c"
proof -
  have r: "\<not> is_async (ReadyForQuery b)" by simp
  obtain pre c1 where ms: "ms = pre @ [ReadyForQuery b]"
      "sync_loop h (map Inr ms @ rest) s c = sync_loop h (Inr (ReadyForQuery b) # rest) s' c1"
      "passed c c1 (map Inr pre)" "inbox c1 = Inr (ReadyForQuery b) # rest"
    using sync_loop_feed [OF assms(1,2) r assms(3,4)] by auto
  let ?c' = "c1\<lparr>inbox := rest, transaction_status := ready_status b, state := leave (state c1)\<rparr>"
  have "read_replies h s c = (Ret (Ok ()), on_ready s', ?c')"
    using ms(2) assms(4) by (simp add: read_replies_def sync_loop_sync [OF r] ready)
  moreover have "answered c (?c'\<lparr>state := Idle\<rparr>) (map Inr ms) rest b"
    using ms(1,3) by (simp add: passed_def answered_def notif_of_def)
  ultimately show ?thesis using ms(3) by (intro exI [of _ ?c']) (simp add: passed_def)
qed

lemma reads_error:
  assumes "interleaved ms (body @ [ErrorResponse eb, ReadyForQuery b])" "\<forall>m\<in>set body. \<not> is_async m"
    and "feed h body s = Some s'" "inbox c = map Inr ms @ rest" "from_error_body eb = Inr se"
  shows "\<exists>c'. read_replies h s c = (Ret (Err (PgServer se)), on_error s', c')
           \<and> answered c c' (map Inr ms) rest b"
proof -
  have r: "\<not> is_async (ErrorResponse eb)" by simp
  obtain pre ms' c1 where ms: "ms = pre @ ErrorResponse eb # ms'" "interleaved ms' [ReadyForQuery b]"
      "sync_loop h (map Inr ms @ rest) s c = sync_loop h (Inr (ErrorResponse eb) # map Inr ms' @ rest) s' c1"
      "passed c c1 (map Inr pre)" "inbox c1 = Inr (ErrorResponse eb) # map Inr ms' @ rest"
    using sync_loop_feed [OF assms(1,2) r assms(3,4)] by auto
  let ?c2 = "c1\<lparr>inbox := map Inr ms' @ rest\<rparr>"
  obtain c' where c': "read_until_ready ?c2 = (Ret (Ok ()), c')" "answered ?c2 c' (map Inr ms') rest b"
    using drain_reply [OF ms(2), of ?c2 rest] by auto
  have p: "passed c ?c2 (map Inr pre @ [Inr (ErrorResponse eb)])"
    using ms(4,5) by (simp add: passed_def notif_of_def)
  obtain k where k: "h (ErrorResponse eb) s' = Stop k" "k ?c2 = (Ret (Err (PgServer se)), on_error s', c')"
    using error [of eb s'] assms(5) c'(1) by blast
  have "read_replies h s c = (Ret (Err (PgServer se)), on_error s', c')"
    using ms(3) assms(4) k by (simp add: read_replies_def sync_loop_sync [OF r])
  then show ?thesis using passed_answered [OF p c'(2)] ms(1) by (intro exI [of _ c']) simp
qed

end

subsection \<open>Interpretations\<close>

lemma read_until_ready_idle: "read_until_ready c = (Ret (Ok ()), c') \<Longrightarrow> state c' = Idle"
proof -
  have "read_until_ready_loop ms c = (Ret (Ok ()), c') \<Longrightarrow> state c' = Idle" for ms
    by (induction ms c rule: read_until_ready_loop.induct)
      (auto simp: Let_def split: backend_message.splits)
  then show "read_until_ready c = (Ret (Ok ()), c') \<Longrightarrow> state c' = Idle"
    by (simp add: read_until_ready_def)
qed

lemma read_until_ready_stays: "read_until_ready c = (Ret (Ok ()), c') \<Longrightarrow> c'\<lparr>state := Idle\<rparr> = c'"
  by (drule read_until_ready_idle) simp

lemmas stop_simps = ready_stop_def error_stop_def with_body_def set_idle_def read_until_ready_stays

interpretation prepare_reply: synced "prepare_step known" "\<lambda>_. Idle" id id
  by unfold_locales (auto simp: stop_simps)

interpretation close_reply: synced "close_step id" "\<lambda>_. Idle" id id
  by unfold_locales (auto simp: stop_simps)

interpretation close_portal_reply: synced "close_step set_idle" "\<lambda>_. Idle" id id
  by unfold_locales (auto simp: stop_simps)

interpretation extended_reply: synced extended_step id id id
  by unfold_locales (auto simp: extended_step_def stop_simps)

interpretation preamble_reply: synced preamble_step id id id
  by unfold_locales (auto simp: preamble_step_def stop_simps)

subsection \<open>Lemmas: writing\<close>

lemma write_batch_ok:
  "write_faults c = [] \<Longrightarrow> write_batch ms c = (Ret (Ok ()), c\<lparr>outbox := outbox c @ ms\<rparr>)"
proof (induction ms arbitrary: c)
  case (Cons m ms)
  then show ?case using Cons.IH [of "c\<lparr>outbox := outbox c @ [m]\<rparr>"]
    by (simp add: bindc_simps(1) [OF send_c_ok])
qed (simp add: flush_c_ok)

declare write_batch.simps [simp del]

lemma transition_extended:
  "state c = Idle \<Longrightarrow> transition ActiveExtendedQuery c = (Ret (Ok ()), c\<lparr>state := ActiveExtendedQuery\<rparr>)"
  by (simp add: transition_Idle_active active_states_def)

lemma lift_res_simps [simp]: "lift_res (Inr v) c = (Ret (Inr v), c)" "lift_res (Inl e) c = (Ret (Inl e), c)"
  by (simp_all add: lift_res_def)

subsection \<open>Replies to the extended protocol\<close>

text \<open>
  The reply to Bind, Describe, Execute (and Parse, when it is in the batch) and Sync: the
  acknowledgements, then what the simple protocol sends, with \<open>NoData\<close> where there are no rows.  An
  error replaces everything after the first \<open>k\<close> acknowledgements.
\<close>

fun ext_messages :: "backend_message list \<Rightarrow> nat \<Rightarrow> reply \<Rightarrow> backend_message list" where
  "ext_messages acks k (RowsReply cols vs tag b) = acks @ reply_messages (RowsReply cols vs tag b)"
| "ext_messages acks k (CommandReply tag b) = acks @ NoData # reply_messages (CommandReply tag b)"
| "ext_messages acks k (EmptyReply b) = acks @ NoData # reply_messages (EmptyReply b)"
| "ext_messages acks k (ErrorReply body b) = take k (acks @ [NoData]) @ reply_messages (ErrorReply body b)"
| "ext_messages acks k (RowsErrorReply cols vs body b) =
     acks @ reply_messages (RowsErrorReply cols vs body b)"

definition is_ack :: "backend_message \<Rightarrow> bool" where
  "is_ack m = (m = ParseComplete \<or> m = BindComplete \<or> m = NoData)"

lemma ack_sync: "is_ack m \<Longrightarrow> \<not> is_async m"
  by (auto simp: is_ack_def is_async_def)

lemma feed_acks:
  "(\<And>m s. is_ack m \<Longrightarrow> h m s = More s) \<Longrightarrow> \<forall>m\<in>set acks. is_ack m \<Longrightarrow> feed h acks s = Some s"
  by (induction acks) auto

lemma extended_ack: "is_ack m \<Longrightarrow> extended_step m s = More s"
  by (auto simp: is_ack_def extended_step_def)

lemma feed_extended_rows:
  "ea_columns s = Some cols \<Longrightarrow> feed extended_step (map (\<lambda>v. DataRow (Inr v)) vs) s =
   Some (s\<lparr>ea_rows := ea_rows s @ map (mk_row cols) vs\<rparr>)"
proof (induction vs arbitrary: s)
  case (Cons v vs)
  let ?s = "s\<lparr>ea_rows := ea_rows s @ [mk_row cols v]\<rparr>"
  have "extended_step (DataRow (Inr v)) s = More ?s"
    using Cons.prems by (simp add: extended_step_def with_body_def mk_row_def)
  then show ?case using Cons.IH [of ?s] Cons.prems by simp
qed simp

lemma extended_columns [simp]:
  "extended_step (RowDescription (Inr cs)) s = More (s\<lparr>ea_columns := Some cs\<rparr>)"
  "extended_step (CommandComplete r) s = More (s\<lparr>ea_tag := Some (unwrap_or_empty r)\<rparr>)"
  "extended_step EmptyQueryResponse s = More (s\<lparr>ea_tag := Some []\<rparr>)"
  by (simp_all add: extended_step_def with_body_def)

lemma local_loop_eq [simp]:
  "read_replies h s c = (Ret (Inr u), s', c') \<Longrightarrow> local_loop h s c = (Ret (Inr s'), c')"
  "read_replies h s c = (Ret (Inl e), s', c') \<Longrightarrow> local_loop h s c = (Ret (Inl e), c')"
  "read_replies h s c = (Pending, s', c') \<Longrightarrow> local_loop h s c = (Pending, c')"
  by (simp_all add: local_loop_def)

lemma answered_state: "answered c c' ms rest b \<Longrightarrow> c'\<lparr>state := Idle\<rparr> = c'"
  by (simp add: answered_def)

text \<open>The two ways an extended reply can end, for the collected result.\<close>

lemma finish_extended_ok:
  assumes "interleaved ms (body @ [ReadyForQuery b])" "\<forall>m\<in>set body. \<not> is_async m"
    and "feed extended_step body ext_start = Some s'" "inbox c = map Inr ms @ rest"
  shows "\<exists>c'. finish_extended c = (Ret (Ok (ext_finish s')), c') \<and> answered c c' (map Inr ms) rest b"
proof -
  obtain c' where "read_replies extended_step ext_start c = (Ret (Ok ()), s', c')"
      "answered c (c'\<lparr>state := Idle\<rparr>) (map Inr ms) rest b"
    using extended_reply.reads_reply [OF assms] by auto
  then show ?thesis
    by (intro exI [of _ "c'\<lparr>state := Idle\<rparr>"]) (simp add: finish_extended_def read_extended_query_result_def retc_def)
qed

lemma finish_extended_error:
  assumes "interleaved ms (body @ [ErrorResponse eb, ReadyForQuery b])" "\<forall>m\<in>set body. \<not> is_async m"
    and "feed extended_step body ext_start = Some s'" "inbox c = map Inr ms @ rest" "from_error_body eb = Inr se"
  shows "\<exists>c'. finish_extended c = (Ret (Err (PgServer se)), c') \<and> answered c c' (map Inr ms) rest b"
proof -
  obtain c' where c': "read_replies extended_step ext_start c = (Ret (Err (PgServer se)), s', c')"
      "answered c c' (map Inr ms) rest b"
    using extended_reply.reads_error [OF assms] by auto
  then show ?thesis
    by (intro exI [of _ c']) (simp add: finish_extended_def read_extended_query_result_def answered_state [OF c'(2)])
qed

lemma finish_extended_reply:
  assumes ms: "interleaved ms (ext_messages acks k rep)" and acks: "\<forall>m\<in>set acks. is_ack m"
    and c: "inbox c = map Inr ms @ rest" and wf: "well_formed_reply rep"
  shows "\<exists>c'. finish_extended c = (Ret (reply_result rep), c') \<and> answered c c' (map Inr ms) rest (reply_status rep)"
proof -
  note [simp] = ball_Un feed_append feed_extended_rows ext_start_def ext_finish_def unwrap_or_empty_def
  have fa: "feed extended_step acks s = Some s" for s by (rule feed_acks [OF extended_ack acks])
  have ack: "\<forall>m\<in>set (acks @ [NoData]). is_ack m" using acks by (simp add: is_ack_def)
  have ft: "feed extended_step (take k (acks @ [NoData])) s = Some s" for s
    using ack by (intro feed_acks [OF extended_ack]) (auto dest: in_set_takeD)
  have nd: "extended_step NoData s = More s" for s by (rule extended_ack) (simp add: is_ack_def)
  have sync: "\<forall>m\<in>set acks. \<not> is_async m" "\<forall>m\<in>set (take k (acks @ [NoData])). \<not> is_async m"
    using ack ack_sync by (auto dest: in_set_takeD)
  show ?thesis
  proof (cases rep)
    case (RowsReply cols vs tag b)
    then show ?thesis
      using finish_extended_ok [of ms "acks @ RowDescription (Inr cols) # map (\<lambda>v. DataRow (Inr v)) vs @ [CommandComplete (Inr tag)]"
          b _ c rest] ms sync(1) c fa by auto
  next
    case (CommandReply tag b)
    then show ?thesis
      using finish_extended_ok [of ms "acks @ [NoData, CommandComplete (Inr tag)]" b _ c rest] ms sync(1) c fa nd by auto
  next
    case (EmptyReply b)
    then show ?thesis
      using finish_extended_ok [of ms "acks @ [NoData, EmptyQueryResponse]" b _ c rest] ms sync(1) c fa nd by auto
  next
    case (ErrorReply body b)
    then obtain se where "from_error_body body = Inr se" using wf by (auto simp: well_formed_reply_def)
    then show ?thesis using ErrorReply
      finish_extended_error [of ms "take k (acks @ [NoData])" body b _ c rest se] ms sync(2) c ft by auto
  next
    case (RowsErrorReply cols vs body b)
    then obtain se where "from_error_body body = Inr se" using wf by (auto simp: well_formed_reply_def)
    then show ?thesis using RowsErrorReply
      finish_extended_error [of ms "acks @ RowDescription (Inr cols) # map (\<lambda>v. DataRow (Inr v)) vs" body b _ c rest se]
      ms sync(1) c fa by auto
  qed
qed

subsection \<open>Lemmas: the streamed replies\<close>

definition collect_stream :: "row_stream \<Rightarrow> query_result cm" where
  "collect_stream st c = finish_query (stream_collect st c [])"

lemma collect_ack:
  assumes "inbox c = Inr m # ms" "is_ack m" "rs_state st = WaitingForDescription"
  shows "stream_collect st c rows = stream_collect st (c\<lparr>inbox := ms\<rparr>) rows"
  using assms by (intro collect_cong) (auto simp: stream_next_def Let_def is_ack_def handle_sync)

lemma collect_async_prefix:
  assumes "\<forall>m\<in>set pre. is_async m" "inbox c = map Inr pre @ rest" "\<not> stream_is_done st"
  shows "\<exists>c1. stream_collect st c rows = stream_collect st c1 rows \<and> passed c c1 (map Inr pre) \<and> inbox c1 = rest"
  using assms
proof (induction pre arbitrary: c)
  case (Cons m pre)
  let ?c1 = "snd (handle_async_message m (c\<lparr>inbox := map Inr pre @ rest\<rparr>))"
  obtain c1 where c1: "stream_collect st ?c1 rows = stream_collect st c1 rows"
    "passed ?c1 c1 (map Inr pre)" "inbox c1 = rest" using Cons.IH [of ?c1] Cons.prems by auto
  have "passed c ?c1 [Inr m]" using Cons.prems(2) by (intro passed_one) simp
  from passed_trans [OF this c1(2)] show ?case using c1 Cons.prems
    by (intro exI [of _ c1]) (simp add: collect_async)
qed auto

lemma collect_acks:
  assumes "interleaved ms (acks @ ts)" "\<forall>m\<in>set acks. is_ack m" "inbox c = map Inr ms @ rest"
    and st: "rs_state st = WaitingForDescription"
  shows "\<exists>pre ms' c1. ms = pre @ ms' \<and> interleaved ms' ts \<and> passed c c1 (map Inr pre) \<and>
           stream_collect st c rows = stream_collect st c1 rows \<and> inbox c1 = map Inr ms' @ rest"
  using assms(1-3)
proof (induction acks arbitrary: ms c)
  case Nil
  then show ?case by (intro exI [of _ "[]"] exI [of _ ms] exI [of _ c]) simp
next
  case (Cons a acks)
  obtain pre ms1 where ms: "ms = pre @ a # ms1" "\<forall>m\<in>set pre. is_async m" "interleaved ms1 (acks @ ts)"
    using interleaved_split [of ms a "acks @ ts"] Cons.prems(1,2) ack_sync by auto
  obtain c1 where c1: "stream_collect st c rows = stream_collect st c1 rows" "passed c c1 (map Inr pre)"
      "inbox c1 = map Inr (a # ms1) @ rest"
    using collect_async_prefix [OF ms(2), of c "map Inr (a # ms1) @ rest" st rows] Cons.prems(3) ms(1) st
    by (auto simp: stream_is_done_def)
  let ?c2 = "c1\<lparr>inbox := map Inr ms1 @ rest\<rparr>"
  have c2: "stream_collect st c1 rows = stream_collect st ?c2 rows" "passed c1 ?c2 [Inr a]"
    using collect_ack [of c1 a "map Inr ms1 @ rest"] c1(3) Cons.prems(2) st
    by (auto simp: passed_def sync_not_notif ack_sync)
  obtain pre2 ms' c3 where c3: "ms1 = pre2 @ ms'" "interleaved ms' ts" "passed ?c2 c3 (map Inr pre2)"
      "stream_collect st ?c2 rows = stream_collect st c3 rows" "inbox c3 = map Inr ms' @ rest"
    using Cons.IH [OF ms(3), of ?c2] Cons.prems(2) by auto
  have "passed c c3 (map Inr (pre @ a # pre2))"
    using passed_trans [OF passed_trans [OF c1(2) c2(2)] c3(3)] by simp
  then show ?case using c1(1) c2(1) c3 ms(1)
    by (intro exI [of _ "pre @ a # pre2"] exI [of _ ms'] exI [of _ c3]) simp
qed

text \<open>The replies to a described portal, seen by a stream in its first or second state.\<close>

lemma collect_waiting:
  assumes "interleaved ms (reply_messages rep)" "inbox c = map Inr ms @ rest" "well_formed_reply rep"
    and "rs_state st = WaitingForDescription"
    and "qr_columns0 = (case rs_columns st of None \<Rightarrow> [] | Some cs \<Rightarrow> cs)"
  shows "\<exists>c'. collect_stream st c = (Ret (case rep of
            CommandReply tag b \<Rightarrow> Ok \<lparr> qr_rows = [], qr_command_tag = tag, qr_columns = qr_columns0 \<rparr>
          | EmptyReply b \<Rightarrow> Ok \<lparr> qr_rows = [], qr_command_tag = [], qr_columns = qr_columns0 \<rparr>
          | _ \<Rightarrow> reply_result rep), c') \<and> answered c c' (map Inr ms) rest (reply_status rep)"
proof -
  note [simp] = collect_stream_def finish_query_def stream_command_tag_def drop_stream_def
    stream_is_done_def unwrap_or_empty_def
  show ?thesis
  proof (cases rep)
    case (RowsReply cols vs tag b)
    then show ?thesis using assms
      rows_reply [of ms cols vs "CommandComplete (Inr tag)" b c rest st "Inr (map (mk_row cols) vs)" "SDone tag"]
      by fastforce
  next
    case (CommandReply tag b)
    then show ?thesis using assms command_reply [of ms "CommandComplete (Inr tag)" b c rest st tag]
      by fastforce
  next
    case (EmptyReply b)
    then show ?thesis using assms command_reply [of ms EmptyQueryResponse b c rest st "[]"]
      by fastforce
  next
    case (ErrorReply body b)
    then obtain se where "from_error_body body = Inr se" using assms(3) by (auto simp: well_formed_reply_def)
    then show ?thesis using assms ErrorReply error_reply [of ms body b c rest st se] by fastforce
  next
    case (RowsErrorReply cols vs body b)
    then obtain se where "from_error_body body = Inr se" using assms(3) by (auto simp: well_formed_reply_def)
    then show ?thesis using assms RowsErrorReply
      rows_reply [of ms cols vs "ErrorResponse body" b c rest st "Inl (PgServer se)" SError] by fastforce
  qed
qed

lemma preamble_ack: "is_ack m \<Longrightarrow> m \<noteq> NoData \<Longrightarrow> preamble_step m cols = More cols"
  by (auto simp: is_ack_def preamble_step_def)

lemma preamble_stops:
  assumes "interleaved ms (acks @ t # ts)" "\<forall>m\<in>set acks. is_ack m \<and> m \<noteq> NoData" "\<not> is_async t"
    and "preamble_step t None = Stop (\<lambda>c. (Ret (Ok ()), x, c))" "inbox c = map Inr ms @ rest"
  shows "\<exists>pre ms' c1. ms = pre @ ms' \<and> interleaved ms' ts \<and> passed c c1 (map Inr pre) \<and>
           local_loop preamble_step None c = (Ret (Ok x), c1) \<and> inbox c1 = map Inr ms' @ rest"
proof -
  have a: "\<forall>m\<in>set acks. \<not> is_async m" using assms(2) ack_sync by blast
  have f: "feed preamble_step acks None = Some None"
    using assms(2) by (induction acks) (auto simp: preamble_ack)
  from read_replies_stop [OF assms(1) a assms(3) f assms(4,5)] show ?thesis by (auto intro: local_loop_eq(1))
qed

definition not_empty :: "reply \<Rightarrow> bool" where
  "not_empty rep = (case rep of EmptyReply b \<Rightarrow> False | _ \<Rightarrow> True)"

definition stream_params_reply :: "field_description list option cm \<Rightarrow> query_result cm" where
  "stream_params_reply pre = bindc (bindc pre (\<lambda>cols. retc (new_extended_receiving cols))) collect_stream"

lemma params_stream_reply:
  assumes "interleaved ms (ext_messages acks k rep)" "inbox c = map Inr ms @ rest" "well_formed_reply rep"
    and acks: "\<forall>m\<in>set acks. is_ack m \<and> m \<noteq> NoData" and "not_empty rep"
  shows "\<exists>c'. stream_params_reply (local_loop preamble_step None) c = (Ret (reply_result rep), c')
           \<and> answered c c' (map Inr ms) rest (reply_status rep)"
proof -
  note [simp] = collect_stream_def finish_query_def stream_command_tag_def drop_stream_def retc_def
    stream_is_done_def unwrap_or_empty_def new_extended_receiving_def not_empty_def
    stream_params_reply_def preamble_step_def with_body_def
  have sync: "\<forall>m\<in>set acks. \<not> is_async m" using acks ack_sync by blast
  show ?thesis
  proof (cases rep)
    case (RowsReply cols vs tag b)
    then obtain pre ms' c1 where p: "ms = pre @ ms'" "passed c c1 (map Inr pre)" "inbox c1 = map Inr ms' @ rest"
        "interleaved ms' (map (\<lambda>v. DataRow (Inr v)) vs @ [CommandComplete (Inr tag), ReadyForQuery b])"
        "local_loop preamble_step None c = (Ret (Ok (Some cols)), c1)"
      using preamble_stops [of ms acks "RowDescription (Inr cols)"
          "map (\<lambda>v. DataRow (Inr v)) vs @ [CommandComplete (Inr tag), ReadyForQuery b]" "Some cols" c rest]
        assms(1,2) acks by auto
    from collect_rows [OF p(4) _ _ p(3), of "new_extended_receiving (Some cols)" cols "[]" "Inr (map (mk_row cols) vs)" "SDone tag"]
    show ?thesis using RowsReply p passed_answered [OF p(2)] by fastforce
  next
    case (CommandReply tag b)
    then obtain pre ms' c1 where p: "ms = pre @ ms'" "passed c c1 (map Inr pre)" "inbox c1 = map Inr ms' @ rest"
        "interleaved ms' [CommandComplete (Inr tag), ReadyForQuery b]"
        "local_loop preamble_step None c = (Ret (Ok None), c1)"
      using preamble_stops [of ms acks NoData "[CommandComplete (Inr tag), ReadyForQuery b]" None c rest]
        assms(1,2) acks by auto
    from command_reply [OF p(4,3), of "new_extended_receiving None" tag]
    show ?thesis using CommandReply p passed_answered [OF p(2)] by fastforce
  next
    case (ErrorReply body b)
    then obtain se where se: "from_error_body body = Inr se" using assms(3) by (auto simp: well_formed_reply_def)
    show ?thesis
    proof (cases "k \<le> length acks")
      case True
      then have t: "take k (acks @ [NoData]) = take k acks" by simp
      have "feed preamble_step (take k acks) None = Some None"
        using acks by (induction acks arbitrary: k) (auto simp: preamble_ack take_Cons' simp del: preamble_step_def)
      then obtain c' where "read_replies preamble_step None c = (Ret (Err (PgServer se)), None, c')"
          "answered c c' (map Inr ms) rest b"
        using preamble_reply.reads_error [of ms "take k acks" body b None None c rest se] assms(1,2) se sync ErrorReply t
        by (auto dest: in_set_takeD)
      then show ?thesis using ErrorReply se by auto
    next
      case False
      then obtain pre ms' c1 where p: "ms = pre @ ms'" "passed c c1 (map Inr pre)" "inbox c1 = map Inr ms' @ rest"
          "interleaved ms' [ErrorResponse body, ReadyForQuery b]"
          "local_loop preamble_step None c = (Ret (Ok None), c1)"
        using preamble_stops [of ms acks NoData "[ErrorResponse body, ReadyForQuery b]" None c rest]
          ErrorReply assms(1,2) acks by auto
      from error_reply [OF p(4,3) _ se, of "new_extended_receiving None"]
      show ?thesis using ErrorReply se p passed_answered [OF p(2)] by fastforce
    qed
  next
    case (RowsErrorReply cols vs body b)
    then obtain se where se: "from_error_body body = Inr se" using assms(3) by (auto simp: well_formed_reply_def)
    obtain pre ms' c1 where p: "ms = pre @ ms'" "passed c c1 (map Inr pre)" "inbox c1 = map Inr ms' @ rest"
        "interleaved ms' (map (\<lambda>v. DataRow (Inr v)) vs @ [ErrorResponse body, ReadyForQuery b])"
        "local_loop preamble_step None c = (Ret (Ok (Some cols)), c1)"
      using preamble_stops [of ms acks "RowDescription (Inr cols)"
          "map (\<lambda>v. DataRow (Inr v)) vs @ [ErrorResponse body, ReadyForQuery b]" "Some cols" c rest]
        RowsErrorReply assms(1,2) acks by auto
    from collect_rows [OF p(4) _ _ p(3), of "new_extended_receiving (Some cols)" cols "[]" "Inl (PgServer se)" SError]
    show ?thesis using RowsErrorReply se p passed_answered [OF p(2)] by fastforce
  qed (use assms(5) in simp)
qed

subsection \<open>Lemmas: the operations\<close>

abbreviation sent :: "connection \<Rightarrow> frontend_message list \<Rightarrow> connection" where
  "sent c ms \<equiv> c\<lparr>outbox := outbox c @ ms\<rparr>"

lemma query_params_reply:
  assumes "state c = Idle" "write_faults c = []" "encode_params_text ps = Inr vs"
    and "interleaved ms (ext_messages [ParseComplete, BindComplete] k rep)" "inbox c = map Inr ms @ rest"
    and "well_formed_reply rep"
  shows "\<exists>c'. query_params sql ps c = (Ret (reply_result rep), c') \<and>
     answered (sent c (params_batch sql vs)) c' (map Inr ms) rest (reply_status rep)"
proof -
  let ?c = "sent (c\<lparr>state := ActiveExtendedQuery\<rparr>) (params_batch sql vs)"
  have "query_params sql ps c = finish_extended ?c"
    using assms(1-3) by (simp add: query_params_def transition_extended write_batch_ok bindc_def)
  moreover have "\<exists>c'. finish_extended ?c = (Ret (reply_result rep), c') \<and>
      answered ?c c' (map Inr ms) rest (reply_status rep)"
    using assms(5) by (intro finish_extended_reply [OF assms(4) _ _ assms(6)]) (simp_all add: is_ack_def)
  ultimately show ?thesis by (auto simp: answered_def)
qed

lemma query_params_stream_reply:
  assumes "state c = Idle" "\<not> needs_recovery c" "write_faults c = []" "encode_params_text ps = Inr vs"
    and "interleaved ms (ext_messages [ParseComplete, BindComplete] k rep)" "inbox c = map Inr ms @ rest"
    and "well_formed_reply rep" "not_empty rep"
  shows "\<exists>c'. bindc (query_params_stream sql ps) collect_stream c = (Ret (reply_result rep), c') \<and>
     answered (sent c (params_batch sql vs)) c' (map Inr ms) rest (reply_status rep)"
proof -
  let ?c = "sent (c\<lparr>state := Streaming\<rparr>) (params_batch sql vs)"
  have "bindc (query_params_stream sql ps) collect_stream c = stream_params_reply (local_loop preamble_step None) ?c"
    using assms(1-4)
    by (simp add: query_params_stream_def stream_params_reply_def recover_def transition_Idle_active
        active_states_def write_batch_ok bindc_def)
  moreover have "\<exists>c'. stream_params_reply (local_loop preamble_step None) ?c = (Ret (reply_result rep), c') \<and>
      answered ?c c' (map Inr ms) rest (reply_status rep)"
    using assms(6) by (intro params_stream_reply [OF assms(5) _ assms(7) _ assms(8)]) (simp_all add: is_ack_def)
  ultimately show ?thesis by (auto simp: answered_def)
qed

lemma query_prepared_reply:
  assumes "state c = Idle" "write_faults c = []" "encode_params_binary ps (param_types stmt) = Inr vs"
    and "interleaved ms (ext_messages [BindComplete] k rep)" "inbox c = map Inr ms @ rest"
    and "well_formed_reply rep"
  shows "\<exists>c'. query_prepared stmt ps c = (Ret (reply_result rep), c') \<and>
     answered (sent c (prepared_batch stmt vs)) c' (map Inr ms) rest (reply_status rep)"
proof -
  let ?c = "sent (c\<lparr>state := ActiveExtendedQuery\<rparr>) (prepared_batch stmt vs)"
  have "query_prepared stmt ps c = finish_extended ?c"
    using assms(1-3) by (simp add: query_prepared_def transition_extended write_batch_ok bindc_def)
  moreover have "\<exists>c'. finish_extended ?c = (Ret (reply_result rep), c') \<and>
      answered ?c c' (map Inr ms) rest (reply_status rep)"
    using assms(5) by (intro finish_extended_reply [OF assms(4) _ _ assms(6)]) (simp_all add: is_ack_def)
  ultimately show ?thesis by (auto simp: answered_def)
qed

text \<open>The reply to Parse, Describe, Sync for a statement with these parameters and columns.\<close>

definition prepare_messages :: "nat list \<Rightarrow> field_description list option \<Rightarrow> char \<Rightarrow> backend_message list" where
  "prepare_messages oids cols b =
     [ParseComplete, ParameterDescription (Inr oids),
      (case cols of None \<Rightarrow> NoData | Some cs \<Rightarrow> RowDescription (Inr cs)), ReadyForQuery b]"

definition resolve :: "(nat \<Rightarrow> bool) \<Rightarrow> nat \<Rightarrow> nat" where
  "resolve known oid = (if known oid then oid else UNKNOWN)"

definition prepared_as :: "(nat \<Rightarrow> bool) \<Rightarrow> string \<Rightarrow> 32 word \<Rightarrow> nat list \<Rightarrow> field_description list option \<Rightarrow> prepared_statement" where
  "prepared_as known sql n oids cols =
     \<lparr> ps_name = ''__pg_stmt_'' @ show_nat (unat n), ps_sql = sql, param_types = map (resolve known) oids,
       ps_columns = (case cols of None \<Rightarrow> [] | Some cs \<Rightarrow> cs) \<rparr>"

lemma prepare_reply:
  assumes "state c = Idle" "write_faults c = []" "n = statement_counter c + 1"
    and "interleaved ms (prepare_messages oids cols b)" "inbox c = map Inr ms @ rest"
  shows "\<exists>c'. prepare known sql c = (Ret (Ok (prepared_as known sql n oids cols)), c') \<and> statement_counter c' = n \<and>
     answered (sent c [Parse (''__pg_stmt_'' @ show_nat (unat n)) sql [], Describe CHR ''S'' (''__pg_stmt_'' @ show_nat (unat n)), Sync])
       c' (map Inr ms) rest b"
proof -
  let ?nm = "''__pg_stmt_'' @ show_nat (unat n)"
  let ?c = "sent (c\<lparr>state := ActiveExtendedQuery, statement_counter := n\<rparr>) [Parse ?nm sql [], Describe CHR ''S'' ?nm, Sync]"
  let ?body = "butlast (prepare_messages oids cols b)"
  let ?s = "(map (resolve known) oids, case cols of None \<Rightarrow> [] | Some cs \<Rightarrow> cs)"
  have i: "interleaved ms (?body @ [ReadyForQuery b])" "\<forall>m\<in>set ?body. \<not> is_async m"
      "feed (prepare_step known) ?body ([], []) = Some ?s" "inbox ?c = map Inr ms @ rest"
    using assms(4,5) by (simp_all add: prepare_messages_def with_body_def resolve_def split: option.split)
  obtain c' where "read_replies (prepare_step known) ([], []) ?c = (Ret (Ok ()), ?s, c')"
      "answered ?c (c'\<lparr>state := Idle\<rparr>) (map Inr ms) rest b" "state c' = Idle"
      "statement_counter c' = n"
    using prepare_reply.reads_reply [OF i] by auto
  then show ?thesis using assms(1-3)
    by (intro exI [of _ c'])
      (simp add: prepare_def transition_extended next_statement_name_def Let_def bindc_def write_batch_ok
        prepared_as_def retc_def answered_def)
qed

subsection \<open>Lemmas: no notification is lost\<close>

text \<open>The contract of a handler whose exits only read on, and what it gives for the loop.\<close>

definition quiet_step :: "'s step \<Rightarrow> bool" where
  "quiet_step st = (\<forall>k c. st = Stop k \<longrightarrow> lossless c (snd (snd (k c))))"

locale quiet_handler =
  fixes h :: "'s handler"
  assumes quiet: "quiet_step (h m s)"
begin

lemma stop_lossless: "h m s = Stop k \<Longrightarrow> lossless c (snd (snd (k c)))"
  using quiet [of m s] by (simp add: quiet_step_def)

lemma sync_loop_lossless: "inbox c = ms \<Longrightarrow> lossless c (snd (snd (sync_loop h ms s c)))"
proof (induction ms arbitrary: s c)
  case Nil
  then show ?case by (auto intro: lossless_frame)
next
  case (Cons r ms)
  let ?c1 = "c\<lparr>inbox := ms\<rparr>"
  show ?case
  proof (cases r)
    case (Inl e)
    then show ?thesis using lossless_skip [OF Cons.prems, of ?c1] by simp
  next
    case (Inr m)
    show ?thesis
    proof (cases "is_async m")
      case True
      then show ?thesis using Inr Cons.prems
        by (simp add: sync_loop_async) (intro lossless_handle [of c m ms] Cons.IH, simp_all)
    next
      case False
      have "lossless ?c1 (snd (snd (sync_loop h ms s' ?c1)))" for s' by (rule Cons.IH) simp
      then show ?thesis using Inr Cons.prems False stop_lossless [of m s _ ?c1]
        by (intro lossless_skip [of c r ms]) (auto simp: sync_loop_sync sync_not_notif split: step.split)
    qed
  qed
qed

text \<open>A loop that returns has read at least one message.\<close>

lemma sync_loop_progress:
  "sync_loop h ms s c = (Ret r, s', c') \<Longrightarrow> length (inbox c') < length ms"
proof (induction ms arbitrary: s c)
  case (Cons x ms)
  have less: "length (inbox c') < Suc (length ms)" if "sync_loop h ms s1 c1 = (Ret r, s', c')" for s1 c1
    using Cons.IH [OF that] by simp
  show ?case
  proof (cases x)
    case (Inr m)
    have "length (inbox c') \<le> length ms" if "h m s = Stop k" "k (c\<lparr>inbox := ms\<rparr>) = (Ret r, s', c')" for k
      using stop_lossless [OF that(1), of "c\<lparr>inbox := ms\<rparr>"] that(2) by (auto simp: lossless_def)
    then show ?thesis using Cons.prems Inr less
      by (cases "is_async m") (auto simp: sync_loop_async sync_loop_sync less_Suc_eq_le split: step.splits)
  qed (use Cons.prems in auto)
qed simp

lemma local_loop_lossless: "lossless c (snd (local_loop h s c))"
  using sync_loop_lossless [of c "inbox c" s]
  by (auto simp: local_loop_def read_replies_def split: prod.splits outcome.splits sum.splits)

end

lemma quiet_step_simps [simp]:
  "quiet_step (More s)"
  "quiet_step (Stop (\<lambda>c. (r, s, c)))"
  "quiet_step (ready_stop b id s)" "quiet_step (ready_stop b set_idle s)"
  "(\<And>x. quiet_step (f x)) \<Longrightarrow> quiet_step (with_body s body f)"
  by (auto simp: quiet_step_def ready_stop_def set_idle_def with_body_def split: sum.splits)

lemma quiet_error_stop:
  assumes "\<And>c c'. lossless c (post c') = lossless c c'"
  shows "quiet_step (error_stop b post f s)"
proof -
  have "lossless c (snd (snd (case read_until_ready c of
      (Ret (Inr u), c2) \<Rightarrow> (Ret (Err e), f s, post c2)
    | (Ret (Inl e), c2) \<Rightarrow> (Ret (Err e), s, c2)
    | (Pending, c2) \<Rightarrow> (Pending, s, c2))))" for c and e :: pg_error
    using read_until_ready_lossless [of c] assms by (auto split: prod.splits outcome.splits sum.splits)
  then show ?thesis by (auto simp: quiet_step_def error_stop_def split: sum.split)
qed

lemma quiet_errors [simp]: "quiet_step (error_stop b id f s)" "quiet_step (error_stop b set_idle f s)"
  by (simp_all add: quiet_error_stop set_idle_def)

interpretation prepare_quiet: quiet_handler "prepare_step known"
  by unfold_locales (auto split: backend_message.split)

interpretation close_quiet: quiet_handler "close_step id"
  by unfold_locales (auto split: backend_message.split)

interpretation close_portal_quiet: quiet_handler "close_step set_idle"
  by unfold_locales (auto split: backend_message.split)

interpretation extended_quiet: quiet_handler extended_step
  by unfold_locales (auto simp: extended_step_def Let_def split: backend_message.split)

interpretation preamble_quiet: quiet_handler preamble_step
  by unfold_locales (auto simp: preamble_step_def split: backend_message.split)

lemma write_batch_lossless: "lossless c (snd (write_batch ms c))"
  by (induction ms arbitrary: c) (auto simp: write_batch.simps intro: lossless_intros)

lemma lift_res_lossless: "lossless c (snd (lift_res r c))"
  by (simp add: lift_res_def)

lemmas extended_lossless_intros = lossless_intros write_batch_lossless lift_res_lossless

lemma finish_extended_lossless: "lossless c (snd (finish_extended c))"
proof -
  have "lossless c (snd (read_extended_query_result c))"
    unfolding read_extended_query_result_def
    by (intro extended_lossless_intros extended_quiet.local_loop_lossless)
  then show ?thesis by (auto simp: finish_extended_def split: prod.splits outcome.splits)
qed

lemma next_statement_name_lossless: "lossless c (snd (next_statement_name c))"
  by (simp add: next_statement_name_def Let_def)

lemma prepare_lossless: "lossless c (snd (prepare known sql c))"
  unfolding prepare_def case_prod_unfold
  by (intro extended_lossless_intros next_statement_name_lossless prepare_quiet.local_loop_lossless)

lemma close_statement_lossless: "lossless c (snd (close_statement stmt c))"
  unfolding close_statement_def by (intro extended_lossless_intros close_quiet.local_loop_lossless)

lemma query_params_lossless: "lossless c (snd (query_params sql ps c))"
  unfolding query_params_def by (intro extended_lossless_intros finish_extended_lossless)

lemma query_prepared_lossless: "lossless c (snd (query_prepared stmt ps c))"
  unfolding query_prepared_def by (intro extended_lossless_intros finish_extended_lossless)

lemma query_params_stream_lossless: "lossless c (snd (query_params_stream sql ps c))"
  unfolding query_params_stream_def by (intro extended_lossless_intros preamble_quiet.local_loop_lossless)

lemma query_prepared_stream_lossless: "lossless c (snd (query_prepared_stream stmt ps c))"
  unfolding query_prepared_stream_def by (intro extended_lossless_intros)

subsection \<open>Lemmas: failures before anything is written\<close>

lemma stuck_query:
  assumes "state c = ActiveExtendedQuery \<or> state c = Streaming" "\<not> needs_recovery c"
  shows "\<exists>msg. query sql c = (Ret (Err (PgInvalidState msg)), c)"
  using assms by (auto simp: query_def query_stream_def bindc_def recover_def transition_def
      transition_allowed_def active_states_def)

subsection \<open>Properties\<close>

text \<open>
  C12.  Functional correctness of the extended protocol: on an idle connection, \<open>query_params\<close> sends
  exactly Parse, Bind with the encoded parameters, Describe, Execute, Sync, and whatever the server
  answers (rows, a command tag, an empty query, an error at Parse, Bind, Execute or after some rows),
  with asynchronous messages anywhere in between, it returns what the simple protocol would return for
  that answer; afterwards the connection is idle, exactly the reply is consumed, the transaction
  status is the reported one and the notifications are queued in order.
\<close>

theorem query_params_answers:
  assumes "state c = Idle" "write_faults c = []" "encode_params_text ps = Inr vs"
    and "interleaved ms (ext_messages [ParseComplete, BindComplete] k rep)" "inbox c = map Inr ms @ rest"
    and "well_formed_reply rep"
  shows "\<exists>c'. query_params sql ps c = (Ret (reply_result rep), c') \<and>
     execute_params sql ps c = (Ret (bind_res (reply_result rep) (\<lambda>r. Ok (qr_command_tag r))), c') \<and>
     answered (c\<lparr>outbox := outbox c @ [Parse [] sql [], Bind [] [] [Text] vs [Binary], Describe CHR ''P'' [],
        Execute [] 0, Sync]\<rparr>) c' (map Inr ms) rest (reply_status rep)"
proof -
  obtain c' where "query_params sql ps c = (Ret (reply_result rep), c')"
    "answered (sent c (params_batch sql vs)) c' (map Inr ms) rest (reply_status rep)"
    using query_params_reply [OF assms] by blast
  then show ?thesis
    by (intro exI [of _ c'], cases "reply_result rep")
      (simp_all add: execute_params_def params_batch_def retc_def bind_res_def)
qed

theorem query_params_answers_witness:
  "\<exists>c'. query_params ''SELECT $1'' [\<lambda>ty f. Ok (Some [49])] (sample_connection
       [ParseComplete, BindComplete, NotificationResponse 7 (Ok ''ch'') (Ok ''x''), RowDescription (Ok []),
        DataRow (Ok [Some [49]]), CommandComplete (Ok ''SELECT 1''), ReadyForQuery CHR ''I''])
     = (Ret (Ok \<lparr> qr_rows = [mk_row [] [Some [49]]], qr_command_tag = ''SELECT 1'', qr_columns = [] \<rparr>), c') \<and>
     notification_queue c' = [\<lparr> n_process_id = 7, n_channel = ''ch'', n_payload = ''x'' \<rparr>] \<and> state c' = Idle"
proof -
  let ?rep = "RowsReply [] [[Some [49]]] ''SELECT 1'' CHR ''I''"
  let ?ms = "[ParseComplete, BindComplete, NotificationResponse 7 (Ok ''ch'') (Ok ''x''), RowDescription (Ok []),
        DataRow (Ok [Some [49]]), CommandComplete (Ok ''SELECT 1''), ReadyForQuery CHR ''I'']"
  have "interleaved ?ms (ext_messages [ParseComplete, BindComplete] 0 ?rep)" "well_formed_reply ?rep"
    by (simp_all add: is_async_def well_formed_reply_def)
  from query_params_answers [OF _ _ _ this(1) _ this(2), of "sample_connection ?ms" "[\<lambda>ty f. Ok (Some [49])]" "[Some [49]]" "[]" "''SELECT $1''"]
  show ?thesis by (auto simp: notif_of_def unwrap_or_empty_def answered_def)
qed

text \<open>
  C14.  Equivalence of the streamed and the buffered query: for every answer except that to an empty
  query, reading the stream of \<open>query_params_stream\<close> to its end gives the same rows, tag, columns or
  error as \<open>query_params\<close>, writes the same messages, and leaves the connection in the same observable
  state.
\<close>

theorem params_stream_equals_buffered:
  assumes "state c = Idle" "\<not> needs_recovery c" "write_faults c = []" "encode_params_text ps = Inr vs"
    and "interleaved ms (ext_messages [ParseComplete, BindComplete] k rep)" "inbox c = map Inr ms @ rest"
    and "well_formed_reply rep" "not_empty rep"
  shows "\<exists>r c1 c2. query_params sql ps c = (Ret r, c1) \<and>
     bindc (query_params_stream sql ps) collect_stream c = (Ret r, c2) \<and> r = reply_result rep \<and>
     inbox c1 = inbox c2 \<and> outbox c1 = outbox c2 \<and> state c1 = state c2 \<and>
     transaction_status c1 = transaction_status c2 \<and> notification_queue c1 = notification_queue c2 \<and>
     needs_recovery c1 = needs_recovery c2"
  using query_params_reply [OF assms(1,3-7), of sql] query_params_stream_reply [OF assms, of sql]
  by (auto simp: answered_def)

theorem params_stream_equals_buffered_witness:
  "\<exists>c2. bindc (query_params_stream ''SELECT 1'' []) collect_stream (sample_connection
       [ParseComplete, BindComplete, RowDescription (Ok []),
        DataRow (Ok [Some [49]]), CommandComplete (Ok ''SELECT 1''), ReadyForQuery CHR ''I''])
     = (Ret (Ok \<lparr> qr_rows = [mk_row [] [Some [49]]], qr_command_tag = ''SELECT 1'', qr_columns = [] \<rparr>), c2)"
proof -
  let ?rep = "RowsReply [] [[Some [49]]] ''SELECT 1'' CHR ''I''"
  let ?ms = "[ParseComplete, BindComplete, RowDescription (Ok []),
        DataRow (Ok [Some [49]]), CommandComplete (Ok ''SELECT 1''), ReadyForQuery CHR ''I'']"
  have "interleaved ?ms (ext_messages [ParseComplete, BindComplete] 0 ?rep)" "well_formed_reply ?rep" "not_empty ?rep"
    by (simp_all add: well_formed_reply_def not_empty_def)
  from params_stream_equals_buffered [OF _ _ _ _ this(1) _ this(2,3), of "sample_connection ?ms" "[]" "[]" "[]" "''SELECT 1''"]
  show ?thesis by auto
qed

text \<open>
  C13.  A statement is prepared under a name and queried under it: \<open>prepare\<close> sends Parse, Describe, Sync
  with the name \<open>__pg_stmt_<n>\<close>, where \<open>n\<close> is the 32-bit statement counter plus one (wrapping around, so
  names repeat after \<open>2^32\<close> of them), and returns the parameter types the server inferred
  (unknown object ids become UNKNOWN) and the result columns; \<open>query_prepared\<close> then binds that name
  with the parameters encoded in binary for those types and returns the server's answer.
\<close>

theorem prepare_then_query:
  assumes "state c = Idle" "write_faults c = []" "n = statement_counter c + 1"
    and "interleaved ms1 (prepare_messages oids cols b)"
    and "encode_params_binary ps (map (\<lambda>oid. if known oid then oid else UNKNOWN) oids) = Inr vs"
    and "interleaved ms2 (ext_messages [BindComplete] k rep)" "well_formed_reply rep"
    and "inbox c = map Inr ms1 @ map Inr ms2 @ rest"
  shows "\<exists>stmt c1 c2. prepare known sql c = (Ret (Ok stmt), c1) \<and> ps_name stmt = ''__pg_stmt_'' @ show_nat (unat n) \<and>
     ps_sql stmt = sql \<and> param_types stmt = map (\<lambda>oid. if known oid then oid else UNKNOWN) oids \<and>
     ps_columns stmt = (case cols of None \<Rightarrow> [] | Some cs \<Rightarrow> cs) \<and> statement_counter c1 = n \<and>
     query_prepared stmt ps c1 = (Ret (reply_result rep), c2) \<and>
     answered (c\<lparr>outbox := outbox c @ [Parse (ps_name stmt) sql [], Describe CHR ''S'' (ps_name stmt), Sync,
        Bind [] (ps_name stmt) [Binary] vs [Binary], Describe CHR ''P'' [], Execute [] 0, Sync]\<rparr>)
       c2 (map Inr (ms1 @ ms2)) rest (reply_status rep)"
proof -
  let ?stmt = "prepared_as known sql n oids cols"
  let ?nm = "''__pg_stmt_'' @ show_nat (unat n)"
  obtain c1 where c1: "prepare known sql c = (Ret (Ok ?stmt), c1)" "statement_counter c1 = n"
      "answered (sent c [Parse ?nm sql [], Describe CHR ''S'' ?nm, Sync]) c1 (map Inr ms1) (map Inr ms2 @ rest) b"
    using prepare_reply [OF assms(1-4,8), of known sql] by blast
  have p: "state c1 = Idle" "write_faults c1 = []" "inbox c1 = map Inr ms2 @ rest"
      "encode_params_binary ps (param_types ?stmt) = Inr vs"
    using c1(3) assms(2,5) by (simp_all add: answered_def prepared_as_def resolve_def cong: map_cong)
  obtain c2 where "query_prepared ?stmt ps c1 = (Ret (reply_result rep), c2)"
      "answered (sent c1 (prepared_batch ?stmt vs)) c2 (map Inr ms2) rest (reply_status rep)"
    using query_prepared_reply [OF p(1,2,4) assms(6) p(3) assms(7)] by blast
  then show ?thesis using c1
    by (intro exI [of _ ?stmt] exI [of _ c1] exI [of _ c2])
      (simp add: prepared_as_def resolve_def answered_def prepared_batch_def cong: map_cong)
qed

theorem prepare_then_query_witness:
  "\<exists>stmt c1 c2. prepare (\<lambda>oid. oid = 23) ''SELECT $1'' (sample_connection
       [ParseComplete, ParameterDescription (Ok [23]), NoData, ReadyForQuery CHR ''I'',
        BindComplete, NoData, CommandComplete (Ok ''OK''), ReadyForQuery CHR ''I'']) = (Ret (Ok stmt), c1) \<and>
     param_types stmt = [23] \<and>
     query_prepared stmt [\<lambda>ty f. if ty = 23 then Ok None else Err (UnknownOid ty)] c1 =
       (Ret (Ok \<lparr> qr_rows = [], qr_command_tag = ''OK'', qr_columns = [] \<rparr>), c2)"
proof -
  let ?c = "sample_connection
       [ParseComplete, ParameterDescription (Ok [23]), NoData, ReadyForQuery CHR ''I'',
        BindComplete, NoData, CommandComplete (Ok ''OK''), ReadyForQuery CHR ''I'']"
  let ?ps = "[\<lambda>ty f. if ty = 23 then Ok None else Err (UnknownOid ty)]"
  have i: "interleaved [ParseComplete, ParameterDescription (Ok [23]), NoData, ReadyForQuery CHR ''I'']
      (prepare_messages [23] None CHR ''I'')"
    "interleaved [BindComplete, NoData, CommandComplete (Ok ''OK''), ReadyForQuery CHR ''I'']
      (ext_messages [BindComplete] 0 (CommandReply ''OK'' CHR ''I''))"
    "well_formed_reply (CommandReply ''OK'' CHR ''I'')"
    by (simp_all add: prepare_messages_def well_formed_reply_def)
  have e: "encode_params_binary ?ps (map (\<lambda>oid. if oid = 23 then oid else UNKNOWN) [23]) = Inr [None]"
    by (simp add: encode_params_binary_def)
  from prepare_then_query [OF _ _ refl i(1) e i(2,3), of ?c "[]" "''SELECT $1''"]
  show ?thesis by force
qed

text \<open>
  C15.  A parameter that cannot be encoded, or a wrong number of parameters, is reported without a byte
  written or read; but the state has already been changed, so from then on the connection refuses
  every query as if a request were still in progress.
\<close>

theorem encoding_error_wedges:
  assumes "state c = Idle" "\<not> needs_recovery c" "encode_params_text ps = Inl e"
    and "length ps' \<noteq> length (param_types stmt)"
  shows "query_params sql ps c = (Ret (Err e), c\<lparr>state := ActiveExtendedQuery\<rparr>) \<and>
     query_params_stream sql ps c = (Ret (Err e), c\<lparr>state := Streaming\<rparr>) \<and>
     (\<exists>msg. query_prepared stmt ps' c = (Ret (Err (PgConfig msg)), c\<lparr>state := ActiveExtendedQuery\<rparr>)) \<and>
     (\<forall>s\<in>{ActiveExtendedQuery, Streaming}. \<exists>msg.
        query sql' (c\<lparr>state := s\<rparr>) = (Ret (Err (PgInvalidState msg)), c\<lparr>state := s\<rparr>))"
  using assms stuck_query [of "c\<lparr>state := ActiveExtendedQuery\<rparr>" sql'] stuck_query [of "c\<lparr>state := Streaming\<rparr>" sql']
  by (auto simp: query_params_def query_params_stream_def query_prepared_def bindc_def recover_def
      transition_extended transition_Idle_active active_states_def encode_params_binary_def)

theorem encoding_error_wedges_witness:
  "\<exists>e c1 msg. query_params ''SELECT $1'' [\<lambda>ty f. Err (UnknownOid ty)] (sample_connection []) = (Ret (Err e), c1) \<and>
     query ''SELECT 1'' c1 = (Ret (Err (PgInvalidState msg)), c1)"
  using encoding_error_wedges [of "sample_connection []" "[\<lambda>ty f. Err (UnknownOid ty)]" "PgTypeConversion (UnknownOid UNKNOWN)"
      "[]" "\<lparr> ps_name = [], ps_sql = [], param_types = [23], ps_columns = [] \<rparr>" "''SELECT $1''" "''SELECT 1''"]
  by auto

text \<open>
  The empty query, streamed: the server answers Describe with \<open>NoData\<close> and Execute with
  \<open>EmptyQueryResponse\<close>; the stream, already in its row state, passes over that and over
  \<open>ReadyForQuery\<close> and waits for ever.
\<close>

lemma empty_params_stream_waits:
  "fst (bindc (query_params_stream [] []) collect_stream (sample_connection
     [ParseComplete, BindComplete, NoData, EmptyQueryResponse, ReadyForQuery CHR ''I''])) = Pending"
  by (simp add: query_params_stream_def bindc_def recover_def transition_Idle_active active_states_def
      write_batch_ok local_loop_def read_replies_def sync_loop_sync preamble_step_def retc_def
      collect_stream_def finish_query_def stream_collect.simps stream_next_def new_extended_receiving_def
      handle_async_message_def)

end
