(* ===== verification/Pipeline.thy ===== *)
theory Pipeline
  imports Extended_Query
begin

text \<open>
  Pipelines (\<open>query/pipeline.rs\<close>): operations collected by the builder, sent as one batch with a
  single Sync, their results read in one loop.
\<close>

subsection \<open>The builder\<close>

datatype pipeline_op =
    PQuery string "bytes option list"
  | PExecute string "bytes option list"

datatype pipeline_result = RQuery query_result | RExecute string

definition pipeline_query ::
  "string \<Rightarrow> to_sql list \<Rightarrow> pipeline_op list \<Rightarrow> (pg_error, pipeline_op list) res"
where
  "pipeline_query sql ps ops = bind_res (encode_params_text ps) (\<lambda>vs. Ok (ops @ [PQuery sql vs]))"

definition pipeline_execute ::
  "string \<Rightarrow> to_sql list \<Rightarrow> pipeline_op list \<Rightarrow> (pg_error, pipeline_op list) res"
where
  "pipeline_execute sql ps ops = bind_res (encode_params_text ps) (\<lambda>vs. Ok (ops @ [PExecute sql vs]))"

subsection \<open>Sending and reading\<close>

fun op_batch :: "pipeline_op \<Rightarrow> frontend_message list" where
  "op_batch (PQuery sql vs) =
     [Parse [] sql [], Bind [] [] [Text] vs [Binary], Describe CHR ''P'' [], Execute [] 0]"
| "op_batch (PExecute sql vs) =
     [Parse [] sql [], Bind [] [] [Text] vs [Binary], Describe CHR ''P'' [], Execute [] 0]"

record pipeline_state =
  pl_results :: "pipeline_result list"
  current_op :: nat
  current_columns :: "field_description list option"
  current_rows :: "row list"

definition pipeline_start :: pipeline_state where
  "pipeline_start = \<lparr> pl_results = [], current_op = 0, current_columns = None, current_rows = [] \<rparr>"

definition unwrap_columns :: "field_description list option \<Rightarrow> field_description list" where
  "unwrap_columns cs = (case cs of None \<Rightarrow> [] | Some cs \<Rightarrow> cs)"

definition get_op :: "pipeline_op list \<Rightarrow> nat \<Rightarrow> pipeline_op option" where
  "get_op ops i = (if i < length ops then Some (ops ! i) else None)"

text \<open>The arms for \<open>CommandComplete\<close> and \<open>EmptyQueryResponse\<close>.\<close>

definition op_complete :: "pipeline_op list \<Rightarrow> string \<Rightarrow> pipeline_state \<Rightarrow> pipeline_state" where
  "op_complete ops tag s =
     (let s' = (case get_op ops (current_op s) of
                  Some (PQuery _ _) \<Rightarrow>
                    s\<lparr>pl_results := pl_results s @ [RQuery \<lparr> qr_rows = current_rows s, qr_command_tag = tag,
                        qr_columns = unwrap_columns (current_columns s) \<rparr>],
                      current_rows := [], current_columns := None\<rparr>
                | Some (PExecute _ _) \<Rightarrow> s\<lparr>pl_results := pl_results s @ [RExecute tag]\<rparr>
                | None \<Rightarrow> s)
      in s'\<lparr>current_op := current_op s' + 1\<rparr>)"

definition op_empty :: "pipeline_op list \<Rightarrow> pipeline_state \<Rightarrow> pipeline_state" where
  "op_empty ops s =
     (let s' = (case get_op ops (current_op s) of
                  Some (PQuery _ _) \<Rightarrow>
                    s\<lparr>pl_results := pl_results s @
                        [RQuery \<lparr> qr_rows = [], qr_command_tag = [], qr_columns = [] \<rparr>]\<rparr>
                | Some (PExecute _ _) \<Rightarrow> s\<lparr>pl_results := pl_results s @ [RExecute []]\<rparr>
                | None \<Rightarrow> s)
      in s'\<lparr>current_op := current_op s' + 1\<rparr>)"

definition pipeline_step :: "pipeline_op list \<Rightarrow> pipeline_state handler" where
  "pipeline_step ops m s =
     (case m of
        RowDescription body \<Rightarrow> with_body s body (\<lambda>cs. More (s\<lparr>current_columns := Some cs\<rparr>))
      | DataRow body \<Rightarrow> with_body s body (\<lambda>vals.
          More (s\<lparr>current_rows := current_rows s @
                   [\<lparr> row_columns = unwrap_columns (current_columns s), row_values = vals \<rparr>]\<rparr>))
      | CommandComplete body \<Rightarrow> More (op_complete ops (unwrap_or_empty body) s)
      | EmptyQueryResponse \<Rightarrow> More (op_empty ops s)
      | ErrorResponse body \<Rightarrow> error_stop body set_idle id s
      | ReadyForQuery b \<Rightarrow> ready_stop b set_idle s
      | _ \<Rightarrow> More s)"

definition pipeline_finish :: "pipeline_op list \<Rightarrow> pipeline_result list cm" where
  "pipeline_finish ops =
     bindc (transition ActiveExtendedQuery) (\<lambda>_.
     bindc (write_batch (concat (map op_batch ops) @ [Sync])) (\<lambda>_.
     bindc (local_loop (pipeline_step ops) pipeline_start) (\<lambda>s. retc (pl_results s))))"

interpretation pipeline_reply: synced "pipeline_step ops" "\<lambda>_. Idle" id id
  by unfold_locales (auto simp: pipeline_step_def stop_simps)

interpretation pipeline_quiet: quiet_handler "pipeline_step ops"
  by unfold_locales (auto simp: pipeline_step_def split: backend_message.split)

lemma pipeline_lossless: "lossless c (snd (pipeline_finish ops c))"
  unfolding pipeline_finish_def by (intro extended_lossless_intros pipeline_quiet.local_loop_lossless)

subsection \<open>What the server answers to one operation\<close>

datatype op_reply =
    OpRows "field_description list" "bytes option list list" string
  | OpCommand string
  | OpEmpty

fun op_messages :: "op_reply \<Rightarrow> backend_message list" where
  "op_messages (OpRows cols vs tag) =
     [ParseComplete, BindComplete, RowDescription (Inr cols)] @ map (\<lambda>v. DataRow (Inr v)) vs
     @ [CommandComplete (Inr tag)]"
| "op_messages (OpCommand tag) = [ParseComplete, BindComplete, NoData, CommandComplete (Inr tag)]"
| "op_messages OpEmpty = [ParseComplete, BindComplete, NoData, EmptyQueryResponse]"

fun op_result :: "pipeline_op \<Rightarrow> op_reply \<Rightarrow> pipeline_result" where
  "op_result (PQuery sql ps) (OpRows cols vs tag) =
     RQuery \<lparr> qr_rows = map (mk_row cols) vs, qr_command_tag = tag, qr_columns = cols \<rparr>"
| "op_result (PQuery sql ps) (OpCommand tag) = RQuery \<lparr> qr_rows = [], qr_command_tag = tag, qr_columns = [] \<rparr>"
| "op_result (PQuery sql ps) OpEmpty = RQuery \<lparr> qr_rows = [], qr_command_tag = [], qr_columns = [] \<rparr>"
| "op_result (PExecute sql ps) (OpRows cols vs tag) = RExecute tag"
| "op_result (PExecute sql ps) (OpCommand tag) = RExecute tag"
| "op_result (PExecute sql ps) OpEmpty = RExecute []"

text \<open>An operation added with \<open>execute\<close> is answered without rows.\<close>

fun op_fits :: "pipeline_op \<Rightarrow> op_reply \<Rightarrow> bool" where
  "op_fits (PExecute sql ps) (OpRows cols vs tag) = False"
| "op_fits _ _ = True"

lemma op_messages_sync: "m \<in> set (op_messages r) \<Longrightarrow> \<not> is_async m"
  by (cases r) auto

text \<open>The state between two operations.\<close>

definition after_ops :: "nat \<Rightarrow> pipeline_result list \<Rightarrow> pipeline_state" where
  "after_ops n rs = \<lparr> pl_results = rs, current_op = n, current_columns = None, current_rows = [] \<rparr>"

lemma pipeline_step_simps [simp]:
  "pipeline_step ops ParseComplete s = More s" "pipeline_step ops BindComplete s = More s"
  "pipeline_step ops NoData s = More s"
  "pipeline_step ops (RowDescription (Inr cs)) s = More (s\<lparr>current_columns := Some cs\<rparr>)"
  "pipeline_step ops (CommandComplete body) s = More (op_complete ops (unwrap_or_empty body) s)"
  "pipeline_step ops EmptyQueryResponse s = More (op_empty ops s)"
  by (simp_all add: pipeline_step_def with_body_def)

lemma feed_pipeline_rows:
  "current_columns s = Some cols \<Longrightarrow> feed (pipeline_step ops) (map (\<lambda>v. DataRow (Inr v)) vs) s =
   Some (s\<lparr>current_rows := current_rows s @ map (mk_row cols) vs\<rparr>)"
  by (induction vs arbitrary: s) (simp_all add: pipeline_step_def with_body_def unwrap_columns_def mk_row_def)

lemma feed_op:
  assumes "n < length ops" "op_fits (ops ! n) r"
  shows "feed (pipeline_step ops) (op_messages r) (after_ops n rs) = Some (after_ops (Suc n) (rs @ [op_result (ops ! n) r]))"
  using assms by (cases r; cases "ops ! n")
    (simp_all add: feed_append feed_pipeline_rows after_ops_def op_complete_def op_empty_def get_op_def
      unwrap_columns_def unwrap_or_empty_def)

lemma feed_ops:
  assumes "drop n ops = os @ later" "list_all2 op_fits os reps"
  shows "feed (pipeline_step ops) (concat (map op_messages reps)) (after_ops n rs) =
    Some (after_ops (n + length os) (rs @ map2 op_result os reps))"
  using assms(2,1)
proof (induction os reps arbitrary: n rs rule: list_all2_induct)
  case (Cons p os r reps)
  have n: "n < length ops" "ops ! n = p" "drop (Suc n) ops = os @ later"
    using Cons.prems by (metis append_Cons drop_eq_Nil list.distinct(1) not_le_imp_less,
      metis append_Cons nth_via_drop, metis append_Cons drop_Suc list.sel(3) tl_drop)
  then show ?case using Cons.hyps(1) Cons.IH [OF n(3)] by (simp add: feed_append feed_op)
qed simp

text \<open>
  What the server has sent of an operation when it fails: any beginning of the messages of a successful
  one, without the last.
\<close>

definition begun :: "backend_message list \<Rightarrow> bool" where
  "begun part = (\<exists>r q. butlast (op_messages r) = part @ q)"

lemma begun_messages:
  assumes "begun part" "m \<in> set part"
  shows "m \<in> {ParseComplete, BindComplete, NoData} \<or> (\<exists>cs. m = RowDescription (Inr cs)) \<or> (\<exists>v. m = DataRow (Inr v))"
proof -
  obtain r q where "butlast (op_messages r) = part @ q" using assms(1) by (auto simp: begun_def)
  then have "m \<in> set (butlast (op_messages r))" using assms(2) by simp
  then show ?thesis by (cases r) (auto simp: butlast_append)
qed

lemma feed_begun:
  assumes "begun part"
  shows "\<exists>s'. feed (pipeline_step ops) part s = Some s'"
proof -
  have step: "\<exists>s'. pipeline_step ops m s = More s'" if "m \<in> set part" for m s
    using begun_messages [OF assms that] by (auto simp: pipeline_step_def with_body_def)
  have "set xs \<subseteq> set part \<Longrightarrow> \<exists>s'. feed (pipeline_step ops) xs s = Some s'" for xs s
  proof (induction xs arbitrary: s)
    case (Cons m xs)
    obtain s1 where "pipeline_step ops m s = More s1" using step [of m s] Cons.prems by auto
    then show ?case using Cons by simp
  qed simp
  then show ?thesis by blast
qed

lemma begun_sync: "begun part \<Longrightarrow> \<forall>m\<in>set part. \<not> is_async m"
  using begun_messages by (fastforce simp: is_async_def)

lemma map_op_messages_sync: "\<forall>m\<in>set (concat (map op_messages reps)). \<not> is_async m"
  using op_messages_sync by auto

lemma pipeline_finish_unfold:
  assumes "state c = Idle" "write_faults c = []"
  shows "pipeline_finish ops c = bindc (local_loop (pipeline_step ops) pipeline_start) (\<lambda>s. retc (pl_results s))
     (sent (c\<lparr>state := ActiveExtendedQuery\<rparr>) (concat (map op_batch ops) @ [Sync]))"
  using assms by (simp add: pipeline_finish_def transition_extended write_batch_ok bindc_simps(1))

subsection \<open>Properties\<close>

text \<open>
  C17.  The results of a pipeline come in the order of its operations and belong to them: whatever the
  server answers to each operation, provided that a statement added with \<open>execute\<close> returns no rows (lemma
  \<open>pipeline_execute_rows_leak\<close>), and whatever asynchronous messages it mixes in, \<open>finish\<close> sends the
  four messages of every operation and one Sync, and returns one result per operation, made of that
  operation's rows, columns and tag alone.  If an operation fails, at Parse, at Bind, at Execute or after
  some rows, or the commit at Sync does, the server skips what follows and \<open>finish\<close> returns that error;
  in every case the connection is idle and in step afterwards.
\<close>

theorem pipeline_in_order:
  assumes "state c = Idle" "write_faults c = []" "ops = done @ failed" "list_all2 op_fits done reps"
    and "interleaved ms (concat (map op_messages reps) @ tail @ [ReadyForQuery b])"
    and "(failed = [] \<and> tail = [] \<and> out = Ok (map2 op_result done reps)) \<or>
         (tail = part @ [ErrorResponse body] \<and> (\<exists>r q. butlast (op_messages r) = part @ q) \<and> (failed = [] \<longrightarrow> part = []) \<and>
          from_error_body body = Inr se \<and> out = Err (PgServer se))"
    and "inbox c = map Inr ms @ rest"
  shows "\<exists>c'. pipeline_finish ops c = (Ret out, c') \<and>
     answered (c\<lparr>outbox := outbox c @ concat (map op_batch ops) @ [Sync]\<rparr>) c' (map Inr ms) rest b"
proof -
  let ?c = "sent (c\<lparr>state := ActiveExtendedQuery\<rparr>) (concat (map op_batch ops) @ [Sync])"
  let ?s = "after_ops (length done) (map2 op_result done reps)"
  have start: "pipeline_start = after_ops 0 []" by (simp add: pipeline_start_def after_ops_def)
  have f: "feed (pipeline_step ops) (concat (map op_messages reps)) pipeline_start = Some ?s"
    using feed_ops [of 0 ops "done" failed reps "[]"] assms(3,4) by (simp add: start)
  have i: "inbox ?c = map Inr ms @ rest" using assms(7) by simp
  note u = pipeline_finish_unfold [OF assms(1,2), of ops]
  from assms(6) show ?thesis
  proof
    assume a: "failed = [] \<and> tail = [] \<and> out = Ok (map2 op_result done reps)"
    then obtain c' where "read_replies (pipeline_step ops) pipeline_start ?c = (Ret (Ok ()), ?s, c')"
        "answered ?c (c'\<lparr>state := Idle\<rparr>) (map Inr ms) rest b" "state c' = Idle"
      using pipeline_reply.reads_reply [OF _ map_op_messages_sync f i, of b] assms(5) by auto
    then show ?thesis using a u
      by (intro exI [of _ c']) (simp add: retc_def after_ops_def answered_def)
  next
    assume a: "tail = part @ [ErrorResponse body] \<and> (\<exists>r q. butlast (op_messages r) = part @ q) \<and> (failed = [] \<longrightarrow> part = []) \<and>
          from_error_body body = Inr se \<and> out = Err (PgServer se)"
    then have p: "begun part" by (simp add: begun_def)
    obtain s' where s': "feed (pipeline_step ops) part ?s = Some s'" using feed_begun [OF p] by blast
    have f': "feed (pipeline_step ops) (concat (map op_messages reps) @ part) pipeline_start = Some s'"
      using f s' by (simp add: feed_append)
    have sync: "\<forall>m\<in>set (concat (map op_messages reps) @ part). \<not> is_async m"
      using map_op_messages_sync [of reps] begun_sync [OF p] by auto
    obtain c' where "read_replies (pipeline_step ops) pipeline_start ?c = (Ret (Err (PgServer se)), s', c')"
        "answered ?c c' (map Inr ms) rest b"
      using pipeline_reply.reads_error [OF _ sync f' i, of body b se] assms(5) a by auto
    then show ?thesis using a u by (intro exI [of _ c']) (simp add: answered_def)
  qed
qed

text \<open>Two operations, of which the second fails after a row.\<close>

theorem pipeline_in_order_witness:
  "\<exists>c'. pipeline_finish [PExecute ''A'' [], PQuery ''B'' []] (sample_connection
       [ParseComplete, BindComplete, NoData, CommandComplete (Ok ''INSERT 0 1''), ParseComplete, BindComplete,
        RowDescription (Ok []), DataRow (Ok [None]), ErrorResponse [], ReadyForQuery CHR ''I''])
     = (Ret (Err (PgServer (from_fields []))), c') \<and> state c' = Idle"
proof -
  let ?ms = "[ParseComplete, BindComplete, NoData, CommandComplete (Ok ''INSERT 0 1''), ParseComplete, BindComplete,
        RowDescription (Ok []), DataRow (Ok [None]), ErrorResponse [], ReadyForQuery CHR ''I'']"
  let ?part = "[ParseComplete, BindComplete, RowDescription (Ok []), DataRow (Ok [None])]"
  let ?reps = "[OpCommand ''INSERT 0 1'']"
  have i: "interleaved ?ms (concat (map op_messages ?reps) @ (?part @ [ErrorResponse []]) @ [ReadyForQuery CHR ''I''])" by simp
  have p: "\<exists>r q. butlast (op_messages r) = ?part @ q"
    by (rule exI [of _ "OpRows [] [[None]] []"], rule exI [of _ "[]"]) simp
  from pipeline_in_order [OF _ _ _ _ i, of "sample_connection ?ms" "[PExecute ''A'' [], PQuery ''B'' []]"
      "[PExecute ''A'' []]" "[PQuery ''B'' []]" "Err (PgServer (from_fields []))" ?part "[]" "from_fields []" "[]"]
  show ?thesis using p by (auto simp: from_error_body_def answered_def)
qed

text \<open>
  The restriction on \<open>execute\<close> is needed: its completion does not clear the rows read so far, so the
  rows of a statement that does return some are delivered as rows of the next query.
\<close>

lemma pipeline_execute_rows_leak:
  "fst (pipeline_finish [PExecute ''A'' [], PQuery ''B'' []] (sample_connection
       [ParseComplete, BindComplete, RowDescription (Ok []), DataRow (Ok [Some [1]]), CommandComplete (Ok ''SELECT 1''),
        ParseComplete, BindComplete, RowDescription (Ok []), DataRow (Ok [Some [2]]), CommandComplete (Ok ''SELECT 1''),
        ReadyForQuery CHR ''I'']))
     = Ret (Ok [RExecute ''SELECT 1'',
              RQuery \<lparr> qr_rows = [mk_row [] [Some [1]], mk_row [] [Some [2]]], qr_command_tag = ''SELECT 1'', qr_columns = [] \<rparr>])"
  by (simp add: pipeline_finish_unfold bindc_def local_loop_def read_replies_def sync_loop_sync pipeline_start_def
      pipeline_step_def with_body_def op_complete_def get_op_def unwrap_columns_def unwrap_or_empty_def
      ready_stop_def retc_def mk_row_def)

end
