(* ===== verification/Cursor.thy ===== *)
theory Cursor
  imports Extended_Query
begin

text \<open>
  Cursors (\<open>query/cursor.rs\<close>): \<open>Cursor\<close>, which returns batches, and \<open>CursorStream\<close>, which returns rows and
  fetches the next batch when its buffer is empty.  Both borrow the connection, which is passed along
  with them.
\<close>

subsection \<open>Opening a portal\<close>

definition portal_step :: "field_description list option handler" where
  "portal_step m cols =
     (case m of
        RowDescription body \<Rightarrow> with_body cols body (\<lambda>cs. More (Some cs))
      | ReadyForQuery b \<Rightarrow> ready_stop b set_idle cols
      | ErrorResponse body \<Rightarrow> error_stop body set_idle id cols
      | _ \<Rightarrow> More cols)"

definition next_portal_name :: "string cm" where
  "next_portal_name c =
     (Ret (Ok (''__pg_portal_'' @ show_nat (unat (statement_counter c)))),
      c\<lparr>statement_counter := statement_counter c + 1\<rparr>)"

definition portal_batch :: "string \<Rightarrow> string \<Rightarrow> bytes option list \<Rightarrow> frontend_message list" where
  "portal_batch portal sql vs =
     [Parse [] sql [], Bind portal [] [Text] vs [Binary], Describe CHR ''P'' portal, Sync]"

text \<open>
  The common body of \<open>query_cursor\<close> and \<open>query_cursor_stream\<close>: the portal name, the columns, and whether
  a transaction was begun for it.
\<close>

definition open_portal :: "string \<Rightarrow> to_sql list \<Rightarrow> (string \<times> field_description list \<times> bool) cm" where
  "open_portal sql ps c =
     (let need_transaction = (transaction_status c = TIdle) in
      bindc (if need_transaction then bindc (query ''BEGIN'') (\<lambda>_. retc ()) else retc ()) (\<lambda>_.
      bindc (transition ActiveExtendedQuery) (\<lambda>_.
      bindc (lift_res (encode_params_text ps)) (\<lambda>vs.
      bindc next_portal_name (\<lambda>portal.
      bindc (write_batch (portal_batch portal sql vs)) (\<lambda>_.
      bindc (local_loop portal_step None) (\<lambda>cols.
        retc (portal, case cols of None \<Rightarrow> [] | Some cs \<Rightarrow> cs, need_transaction))))))) c)"

subsection \<open>Batches\<close>

record cursor =
  cu_portal_name :: string
  cu_columns :: "field_description list"
  cu_fetch_size :: int
  cu_done :: bool
  cu_owns_transaction :: bool

definition query_cursor :: "string \<Rightarrow> to_sql list \<Rightarrow> int \<Rightarrow> cursor cm" where
  "query_cursor sql ps n = bindc (open_portal sql ps) (\<lambda>(portal, cols, own).
     retc \<lparr> cu_portal_name = portal, cu_columns = cols, cu_fetch_size = n, cu_done = False,
            cu_owns_transaction = own \<rparr>)"

fun fetch_step :: "(cursor \<times> row list) handler" where
  "fetch_step m (cu, rows) =
     (case m of
        RowDescription body \<Rightarrow> with_body (cu, rows) body (\<lambda>cs. More (cu\<lparr>cu_columns := cs\<rparr>, rows))
      | DataRow body \<Rightarrow> with_body (cu, rows) body (\<lambda>vals.
          More (cu, rows @ [\<lparr> row_columns = cu_columns cu, row_values = vals \<rparr>]))
      | CommandComplete _ \<Rightarrow> More (cu\<lparr>cu_done := True\<rparr>, rows)
      | ReadyForQuery b \<Rightarrow> ready_stop b set_idle (cu, rows)
      | ErrorResponse body \<Rightarrow> error_stop body set_idle id (cu, rows)
      | _ \<Rightarrow> More (cu, rows))"

definition fetch_next :: "cursor \<Rightarrow> connection \<Rightarrow> (pg_error, row list) outcome \<times> cursor \<times> connection" where
  "fetch_next cu c =
     (if cu_done cu then (Ret (Ok []), cu, c)
      else
        (case bindc (transition ActiveExtendedQuery) (\<lambda>_.
                write_batch [Execute (cu_portal_name cu) (cu_fetch_size cu), Sync]) c of
           (Pending, c1) \<Rightarrow> (Pending, cu, c1)
         | (Ret (Inl e), c1) \<Rightarrow> (Ret (Err e), cu, c1)
         | (Ret (Inr _), c1) \<Rightarrow>
             (case read_replies fetch_step (cu, []) c1 of
                (Pending, (cu', rows), c2) \<Rightarrow> (Pending, cu', c2)
              | (Ret (Inl e), (cu', rows), c2) \<Rightarrow> (Ret (Err e), cu', c2)
              | (Ret (Inr _), (cu', rows), c2) \<Rightarrow> (Ret (Ok rows), cu', c2))))"

definition close_portal_named :: "string \<Rightarrow> unit cm" where
  "close_portal_named portal =
     bindc (transition ActiveExtendedQuery) (\<lambda>_.
     bindc (write_batch [Close CHR ''P'' portal, Sync]) (\<lambda>_.
       local_loop (close_step set_idle) ()))"

definition commit_if :: "bool \<Rightarrow> unit cm" where
  "commit_if own = (if own then bindc (execute ''COMMIT'') (\<lambda>_. retc ()) else retc ())"

definition close_cursor :: "cursor \<Rightarrow> unit cm" where
  "close_cursor cu =
     bindc (close_portal_named (cu_portal_name cu)) (\<lambda>_. commit_if (cu_owns_transaction cu))"

subsection \<open>The row-by-row stream\<close>

datatype cursor_stream_state = CsActive | CsDone string | CsError

record cursor_stream =
  cs_portal_name :: string
  cs_columns :: "field_description list"
  cs_fetch_size :: int
  cs_state :: cursor_stream_state
  buffered_rows :: "row list"
  cs_owns_transaction :: bool

definition cursor_stream_new :: "string \<Rightarrow> field_description list \<Rightarrow> int \<Rightarrow> bool \<Rightarrow> cursor_stream" where
  "cursor_stream_new portal cols n own =
     \<lparr> cs_portal_name = portal, cs_columns = cols, cs_fetch_size = n, cs_state = CsActive,
       buffered_rows = [], cs_owns_transaction = own \<rparr>"

definition query_cursor_stream :: "string \<Rightarrow> to_sql list \<Rightarrow> int \<Rightarrow> cursor_stream cm" where
  "query_cursor_stream sql ps n = bindc (open_portal sql ps) (\<lambda>(portal, cols, own).
     retc (cursor_stream_new portal cols n own))"

definition cs_is_done :: "cursor_stream \<Rightarrow> bool" where
  "cs_is_done st = (case cs_state st of CsActive \<Rightarrow> False | _ \<Rightarrow> True)"

definition cs_command_tag :: "cursor_stream \<Rightarrow> string option" where
  "cs_command_tag st = (case cs_state st of CsDone t \<Rightarrow> Some t | _ \<Rightarrow> None)"

text \<open>\<open>buffered_rows.pop()\<close>: the buffer is kept in reverse.\<close>

definition pop_row :: "cursor_stream \<Rightarrow> row option \<times> cursor_stream" where
  "pop_row st =
     (if buffered_rows st = [] then (None, st)
      else (Some (last (buffered_rows st)), st\<lparr>buffered_rows := butlast (buffered_rows st)\<rparr>))"

fun batch_step :: "(cursor_stream \<times> string option \<times> row list) handler" where
  "batch_step m (st, tag, rows) =
     (case m of
        RowDescription body \<Rightarrow> with_body (st, tag, rows) body (\<lambda>cs. More (st\<lparr>cs_columns := cs\<rparr>, tag, rows))
      | DataRow body \<Rightarrow> with_body (st, tag, rows) body (\<lambda>vals.
          More (st, tag, rows @ [\<lparr> row_columns = cs_columns st, row_values = vals \<rparr>]))
      | CommandComplete body \<Rightarrow> More (st, Some (unwrap_or_empty body), rows)
      | ReadyForQuery b \<Rightarrow> ready_stop b set_idle (st, tag, rows)
      | ErrorResponse body \<Rightarrow>
          error_stop body set_idle (\<lambda>(st, tag, rows). (st\<lparr>cs_state := CsError\<rparr>, tag, rows)) (st, tag, rows)
      | _ \<Rightarrow> More (st, tag, rows))"

definition fetch_batch ::
  "cursor_stream \<Rightarrow> connection \<Rightarrow> (pg_error, unit) outcome \<times> (cursor_stream \<times> string option \<times> row list) \<times> connection"
where
  "fetch_batch st c =
     (case bindc (transition ActiveExtendedQuery) (\<lambda>_.
             write_batch [Execute (cs_portal_name st) (cs_fetch_size st), Sync]) c of
        (Pending, c1) \<Rightarrow> (Pending, (st, None, []), c1)
      | (Ret (Inl e), c1) \<Rightarrow> (Ret (Err e), (st, None, []), c1)
      | (Ret (Inr _), c1) \<Rightarrow> read_replies batch_step (st, None, []) c1)"

interpretation portal_reply: synced portal_step "\<lambda>_. Idle" id id
  by unfold_locales (auto simp: portal_step_def stop_simps)

interpretation fetch_reply: synced fetch_step "\<lambda>_. Idle" id id
  by unfold_locales (auto simp: stop_simps)

interpretation batch_reply: synced batch_step "\<lambda>_. Idle" id "\<lambda>(st, tag, rows). (st\<lparr>cs_state := CsError\<rparr>, tag, rows)"
  by unfold_locales (auto simp: stop_simps)

interpretation portal_quiet: quiet_handler portal_step
  by unfold_locales (auto simp: portal_step_def split: backend_message.split)

interpretation fetch_quiet: quiet_handler fetch_step
  by unfold_locales (auto split: backend_message.split)

interpretation batch_quiet: quiet_handler batch_step
  by unfold_locales (auto split: backend_message.split)

lemma fetch_batch_progress:
  assumes "fetch_batch st c = (Ret (Inr u), s', c')"
  shows "length (inbox c') < length (inbox c)"
proof -
  obtain c1 where c1: "bindc (transition ActiveExtendedQuery) (\<lambda>_.
      write_batch [Execute (cs_portal_name st) (cs_fetch_size st), Sync]) c = (Ret (Inr ()), c1)"
      "read_replies batch_step (st, None, []) c1 = (Ret (Inr u), s', c')"
    using assms by (auto simp: fetch_batch_def split: prod.splits outcome.splits sum.splits)
  have "lossless c (snd (bindc (transition ActiveExtendedQuery) (\<lambda>_.
      write_batch [Execute (cs_portal_name st) (cs_fetch_size st), Sync]) c))"
    by (intro extended_lossless_intros)
  then have "length (inbox c1) \<le> length (inbox c)" using c1(1) by (auto simp: lossless_def)
  then show ?thesis using batch_quiet.sync_loop_progress c1(2) by (fastforce simp: read_replies_def)
qed

function cursor_next ::
  "cursor_stream \<Rightarrow> connection \<Rightarrow> (pg_error, row option) outcome \<times> cursor_stream \<times> connection"
where
  "cursor_next st c =
     (if cs_state st \<noteq> CsActive \<or> buffered_rows st \<noteq> [] then
        (case pop_row st of (x, st1) \<Rightarrow> (Ret (Ok x), st1, c))
      else
        (case fetch_batch st c of
           (Pending, (st1, tag, rows), c1) \<Rightarrow> (Pending, st1, c1)
         | (Ret (Inl e), (st1, tag, rows), c1) \<Rightarrow> (Ret (Err e), st1, c1)
         | (Ret (Inr _), (st1, tag, rows), c1) \<Rightarrow>
             (let st2 = (case tag of None \<Rightarrow> st1 | Some t \<Rightarrow> st1\<lparr>cs_state := CsDone t\<rparr>) in
              if rows = [] \<and> \<not> cs_is_done st2 then cursor_next st2 c1
              else (case pop_row (st2\<lparr>buffered_rows := rev rows\<rparr>) of
                      (x, st3) \<Rightarrow> (Ret (Ok x), st3, c1)))))"
  by pat_completeness auto
termination
  by (relation "measure (\<lambda>(st, c). length (inbox c))") (auto dest: fetch_batch_progress [OF sym])

declare cursor_next.simps [simp del]

lemma cursor_next_progress:
  "cursor_next st c = (Ret (Inr (Some x)), st', c') \<Longrightarrow>
   length (inbox c') < length (inbox c) \<or> c' = c \<and> length (buffered_rows st') < length (buffered_rows st)"
proof (induction st c rule: cursor_next.induct)
  case (1 st c)
  show ?case
  proof (cases "cs_state st \<noteq> CsActive \<or> buffered_rows st \<noteq> []")
    case True
    then show ?thesis using "1.prems"
      by (subst (asm) cursor_next.simps) (auto simp: pop_row_def split: if_splits)
  next
    case False
    then obtain u st1 tag rows c1 where f: "fetch_batch st c = (Ret (Inr u), (st1, tag, rows), c1)"
      using "1.prems" by (subst (asm) cursor_next.simps) (auto split: prod.splits outcome.splits sum.splits)
    note p = fetch_batch_progress [OF f]
    show ?thesis
    proof (cases "rows = [] \<and> \<not> cs_is_done (case tag of None \<Rightarrow> st1 | Some t \<Rightarrow> st1\<lparr>cs_state := CsDone t\<rparr>)")
      case again: True
      have "cursor_next st c = cursor_next (case tag of None \<Rightarrow> st1 | Some t \<Rightarrow> st1\<lparr>cs_state := CsDone t\<rparr>) c1"
        using False f again by (subst cursor_next.simps) (simp add: Let_def)
      then show ?thesis using "1.IH" [OF False f [symmetric] refl refl refl refl refl refl again] "1.prems" p by auto
    next
      case stop: False
      then show ?thesis using "1.prems" False f p
        by (subst (asm) cursor_next.simps) (auto simp: Let_def pop_row_def split: if_splits)
    qed
  qed
qed

text \<open>\<open>while let Some(row) = self.next().await? { ... }\<close>\<close>

function cursor_collect ::
  "cursor_stream \<Rightarrow> connection \<Rightarrow> row list \<Rightarrow> (pg_error, row list) outcome \<times> cursor_stream \<times> connection"
where
  "cursor_collect st c acc =
     (case cursor_next st c of
        (Ret (Inr (Some x)), st', c') \<Rightarrow> cursor_collect st' c' (acc @ [x])
      | (Ret (Inr None), st', c') \<Rightarrow> (Ret (Ok acc), st', c')
      | (Ret (Inl e), st', c') \<Rightarrow> (Ret (Err e), st', c')
      | (Pending, st', c') \<Rightarrow> (Pending, st', c'))"
  by pat_completeness auto
termination
  by (relation "measures [\<lambda>(st, c, acc). length (inbox c), \<lambda>(st, c, acc). length (buffered_rows st)]")
    (auto dest: cursor_next_progress [OF sym])

declare cursor_collect.simps [simp del]

definition close_portal :: "cursor_stream \<Rightarrow> connection \<Rightarrow> (pg_error, unit) outcome \<times> cursor_stream \<times> connection" where
  "close_portal st c =
     (case cs_state st of
        CsDone t \<Rightarrow> (case commit_if (cs_owns_transaction st) c of (r, c1) \<Rightarrow> (r, st, c1))
      | _ \<Rightarrow>
          (case bindc (close_portal_named (cs_portal_name st)) (\<lambda>_. commit_if (cs_owns_transaction st)) c of
             (Ret (Inr u), c1) \<Rightarrow> (Ret (Ok u), st\<lparr>cs_state := CsDone []\<rparr>, c1)
           | (r, c1) \<Rightarrow> (r, st, c1)))"

definition drop_cursor_stream :: "cursor_stream \<Rightarrow> connection \<Rightarrow> connection" where
  "drop_cursor_stream st c = (if cs_is_done st then c else c\<lparr>needs_recovery := True\<rparr>)"

definition cursor_consume :: "cursor_stream \<Rightarrow> string cm" where
  "cursor_consume st c =
     (case cursor_collect st c [] of
        (Pending, st1, c1) \<Rightarrow> (Pending, c1)
      | (Ret (Inl e), st1, c1) \<Rightarrow> (Ret (Err e), drop_cursor_stream st1 c1)
      | (Ret (Inr _), st1, c1) \<Rightarrow>
          (case close_portal st1 c1 of
             (Pending, st2, c2) \<Rightarrow> (Pending, c2)
           | (Ret (Inl e), st2, c2) \<Rightarrow> (Ret (Err e), drop_cursor_stream st2 c2)
           | (Ret (Inr _), st2, c2) \<Rightarrow>
               (Ret (Ok (case cs_state st2 of CsDone t \<Rightarrow> t | _ \<Rightarrow> [])), drop_cursor_stream st2 c2)))"

subsection \<open>Lemmas: one batch\<close>

text \<open>The reply to Execute with a row limit: \<open>None\<close> when the portal was suspended, the tag at its end.\<close>

definition batch_messages :: "bytes option list list \<Rightarrow> string option \<Rightarrow> backend_message list" where
  "batch_messages vs tag = map (\<lambda>v. DataRow (Inr v)) vs @
     [case tag of None \<Rightarrow> PortalSuspended | Some t \<Rightarrow> CommandComplete (Inr t)]"

lemma batch_messages_sync: "\<forall>m\<in>set (batch_messages vs tag). \<not> is_async m"
  by (auto simp: batch_messages_def split: option.splits)

lemma feed_batch_rows:
  "feed batch_step (map (\<lambda>v. DataRow (Inr v)) vs) (st, tag, rows) = Some (st, tag, rows @ map (mk_row (cs_columns st)) vs)"
  by (induction vs arbitrary: rows) (simp_all add: with_body_def mk_row_def)

lemma feed_batch:
  "feed batch_step (batch_messages vs tag) (st, None, []) = Some (st, tag, map (mk_row (cs_columns st)) vs)"
  by (cases tag) (simp_all add: batch_messages_def feed_append feed_batch_rows unwrap_or_empty_def)

lemma feed_fetch_rows:
  "feed fetch_step (map (\<lambda>v. DataRow (Inr v)) vs) (cu, rows) = Some (cu, rows @ map (mk_row (cu_columns cu)) vs)"
  by (induction vs arbitrary: rows) (simp_all add: with_body_def mk_row_def)

lemma feed_fetch:
  "feed fetch_step (batch_messages vs tag) (cu, []) =
     Some (if tag = None then cu else cu\<lparr>cu_done := True\<rparr>, map (mk_row (cu_columns cu)) vs)"
  by (cases tag) (simp_all add: batch_messages_def feed_append feed_fetch_rows)

lemma start_fetch:
  assumes "state c = Idle" "write_faults c = []"
  shows "bindc (transition ActiveExtendedQuery) (\<lambda>_. write_batch ms) c =
    (Ret (Ok ()), sent (c\<lparr>state := ActiveExtendedQuery\<rparr>) ms)"
  using assms by (simp add: transition_extended write_batch_ok bindc_simps(1))

abbreviation fetch_request :: "cursor_stream \<Rightarrow> frontend_message list" where
  "fetch_request st \<equiv> [Execute (cs_portal_name st) (cs_fetch_size st), Sync]"

lemma fetch_batch_reply:
  assumes "state c = Idle" "write_faults c = []"
    and "interleaved ms (batch_messages vs tag @ [ReadyForQuery b])" "inbox c = map Inr ms @ rest"
  shows "\<exists>c'. fetch_batch st c = (Ret (Ok ()), (st, tag, map (mk_row (cs_columns st)) vs), c') \<and>
     answered (sent c (fetch_request st)) c' (map Inr ms) rest b"
proof -
  let ?c = "sent (c\<lparr>state := ActiveExtendedQuery\<rparr>) (fetch_request st)"
  have i: "inbox ?c = map Inr ms @ rest" using assms(4) by simp
  obtain c' where "read_replies batch_step (st, None, []) ?c = (Ret (Ok ()), (st, tag, map (mk_row (cs_columns st)) vs), c')"
      "answered ?c (c'\<lparr>state := Idle\<rparr>) (map Inr ms) rest b" "state c' = Idle"
    using batch_reply.reads_reply [OF assms(3) batch_messages_sync feed_batch i, of st] by auto
  then show ?thesis using start_fetch [OF assms(1,2)]
    by (intro exI [of _ c']) (simp add: fetch_batch_def answered_def)
qed

lemma fetch_next_reply:
  assumes "state c = Idle" "write_faults c = []" "\<not> cu_done cu"
    and "interleaved ms (batch_messages vs tag @ [ReadyForQuery b])" "inbox c = map Inr ms @ rest"
  shows "\<exists>c'. fetch_next cu c = (Ret (Ok (map (mk_row (cu_columns cu)) vs)), if tag = None then cu else cu\<lparr>cu_done := True\<rparr>, c') \<and>
     answered (sent c [Execute (cu_portal_name cu) (cu_fetch_size cu), Sync]) c' (map Inr ms) rest b"
proof -
  let ?c = "sent (c\<lparr>state := ActiveExtendedQuery\<rparr>) [Execute (cu_portal_name cu) (cu_fetch_size cu), Sync]"
  have i: "inbox ?c = map Inr ms @ rest" using assms(5) by simp
  obtain c' where "read_replies fetch_step (cu, []) ?c =
        (Ret (Ok ()), (if tag = None then cu else cu\<lparr>cu_done := True\<rparr>, map (mk_row (cu_columns cu)) vs), c')"
      "answered ?c (c'\<lparr>state := Idle\<rparr>) (map Inr ms) rest b" "state c' = Idle"
    using fetch_reply.reads_reply [OF assms(4) batch_messages_sync feed_fetch i] by auto
  then show ?thesis using start_fetch [OF assms(1,2)] assms(3)
    by (intro exI [of _ c']) (simp add: fetch_next_def answered_def split del: if_split)
qed

subsection \<open>Lemmas: all batches\<close>

lemma cursor_collect_buffer:
  "buffered_rows st = rev rows \<Longrightarrow> cursor_collect st c acc = cursor_collect (st\<lparr>buffered_rows := []\<rparr>) c (acc @ rows)"
proof (induction rows arbitrary: st acc)
  case (Cons x rows)
  let ?st = "st\<lparr>buffered_rows := rev rows\<rparr>"
  have "cursor_next st c = (Ret (Ok (Some x)), ?st, c)"
    using Cons.prems by (subst cursor_next.simps) (simp add: pop_row_def)
  then have "cursor_collect st c acc = cursor_collect ?st c (acc @ [x])"
    by (subst cursor_collect.simps) simp
  then show ?case using Cons.IH [of ?st "acc @ [x]"] by simp
next
  case Nil
  then have "st\<lparr>buffered_rows := []\<rparr> = st" by (cases st) simp
  then show ?case by simp
qed

lemma cursor_collect_done:
  "cs_state st \<noteq> CsActive \<Longrightarrow> buffered_rows st = [] \<Longrightarrow> cursor_collect st c acc = (Ret (Ok acc), st, c)"
  by (subst cursor_collect.simps, subst cursor_next.simps) (simp add: pop_row_def)

definition after_batch :: "string option \<Rightarrow> cursor_stream \<Rightarrow> cursor_stream" where
  "after_batch tag st = (case tag of None \<Rightarrow> st | Some t \<Rightarrow> st\<lparr>cs_state := CsDone t\<rparr>)"

lemma after_batch_buffer [simp]: "buffered_rows (after_batch tag st) = buffered_rows st"
  by (simp add: after_batch_def split: option.split)

lemma cursor_collect_fetch:
  assumes "cs_state st = CsActive" "buffered_rows st = []"
    and f: "fetch_batch st c = (Ret (Ok ()), (st, tag, rows), c1)"
  shows "cursor_collect st c acc = cursor_collect (after_batch tag st) c1 (acc @ rows)"
proof (cases rows)
  case Nil
  show ?thesis
  proof (cases tag)
    case None
    then have "cursor_next st c = cursor_next st c1"
      using assms Nil by (subst cursor_next.simps) (simp add: cs_is_done_def)
    then show ?thesis unfolding None Nil after_batch_def append_Nil2 option.case
      by (subst (1 2) cursor_collect.simps) simp
  next
    case (Some t)
    then have "cursor_next st c = (Ret (Ok None), after_batch tag st, c1)"
      using assms Nil by (subst cursor_next.simps) (simp add: cs_is_done_def pop_row_def after_batch_def)
    then show ?thesis using Some Nil assms(2) cursor_collect_done [of "after_batch tag st" c1 acc]
      by (subst cursor_collect.simps) (simp add: after_batch_def)
  qed
next
  case (Cons x xs)
  let ?st = "(after_batch tag st)\<lparr>buffered_rows := rev xs\<rparr>"
  have "cursor_next st c = (Ret (Ok (Some x)), ?st, c1)"
    using assms Cons by (subst cursor_next.simps) (simp add: cs_is_done_def pop_row_def after_batch_def split: option.split)
  then have "cursor_collect st c acc = cursor_collect ?st c1 (acc @ [x])"
    by (subst cursor_collect.simps) simp
  moreover have "?st\<lparr>buffered_rows := []\<rparr> = after_batch tag st"
    using assms(2) by (simp add: after_batch_def split: option.split)
  ultimately show ?thesis using Cons cursor_collect_buffer [of ?st xs c1 "acc @ [x]"] by simp
qed

lemma answered_trans:
  assumes "answered (sent c q1) c1 xs r1 b1" "answered (sent c1 q2) c2 ys rest b2"
  shows "answered (sent c (q1 @ q2)) c2 (xs @ ys) rest b2"
  using assms by (simp add: answered_def)

type_synonym batch = "backend_message list \<times> bytes option list list \<times> char"

abbreviation batch_inbox :: "batch list \<Rightarrow> (auth_error, backend_message) res list" where
  "batch_inbox bs \<equiv> concat (map (\<lambda>bt. map Inr (fst bt)) bs)"

abbreviation batch_rows :: "batch list \<Rightarrow> bytes option list list" where
  "batch_rows bs \<equiv> concat (map (\<lambda>bt. fst (snd bt)) bs)"

definition suspended_batch :: "batch \<Rightarrow> bool" where
  "suspended_batch bt = (case bt of (ms, vs, b) \<Rightarrow> interleaved ms (batch_messages vs None @ [ReadyForQuery b]))"

lemma cursor_collect_batches:
  assumes "state c = Idle" "write_faults c = []" and st: "cs_state st = CsActive" "buffered_rows st = []"
    and "\<forall>bt\<in>set bs. suspended_batch bt"
    and fin: "interleaved ms (batch_messages vs (Some tag) @ [ReadyForQuery b])"
    and "inbox c = batch_inbox bs @ map Inr ms @ rest"
  shows "\<exists>c'. cursor_collect st c acc =
       (Ret (Ok (acc @ map (mk_row (cs_columns st)) (batch_rows bs @ vs))), st\<lparr>cs_state := CsDone tag\<rparr>, c') \<and>
     answered (sent c (concat (replicate (length bs + 1) (fetch_request st)))) c' (batch_inbox bs @ map Inr ms) rest b"
  using assms(1,2,5,7)
proof (induction bs arbitrary: c acc)
  case Nil
  then obtain c' where c': "fetch_batch st c = (Ret (Ok ()), (st, Some tag, map (mk_row (cs_columns st)) vs), c')"
      "answered (sent c (fetch_request st)) c' (map Inr ms) rest b"
    using fetch_batch_reply [OF _ _ fin, of c rest st] by auto
  have "cursor_collect st c acc = (Ret (Ok (acc @ map (mk_row (cs_columns st)) vs)), st\<lparr>cs_state := CsDone tag\<rparr>, c')"
    using cursor_collect_fetch [OF st c'(1)] cursor_collect_done st(2) by (simp add: after_batch_def)
  then show ?case using c'(2) by simp
next
  case (Cons bt bs)
  obtain ms1 vs1 b1 where bt: "bt = (ms1, vs1, b1)" by (metis prod_cases3)
  let ?rest = "batch_inbox bs @ map Inr ms @ rest"
  have i: "interleaved ms1 (batch_messages vs1 None @ [ReadyForQuery b1])" "inbox c = map Inr ms1 @ ?rest"
    using Cons.prems bt by (simp_all add: suspended_batch_def)
  obtain c1 where c1: "fetch_batch st c = (Ret (Ok ()), (st, None, map (mk_row (cs_columns st)) vs1), c1)"
      "answered (sent c (fetch_request st)) c1 (map Inr ms1) ?rest b1"
    using fetch_batch_reply [OF Cons.prems(1,2) i, of st] by auto
  have p: "state c1 = Idle" "write_faults c1 = []" "inbox c1 = ?rest" "\<forall>bt\<in>set bs. suspended_batch bt"
    using c1(2) Cons.prems by (simp_all add: answered_def)
  obtain c' where c': "cursor_collect st c1 (acc @ map (mk_row (cs_columns st)) vs1) =
       (Ret (Ok (acc @ map (mk_row (cs_columns st)) (vs1 @ batch_rows bs @ vs))), st\<lparr>cs_state := CsDone tag\<rparr>, c')"
     "answered (sent c1 (concat (replicate (length bs + 1) (fetch_request st)))) c' (batch_inbox bs @ map Inr ms) rest b"
    using Cons.IH [OF p(1,2,4,3), of "acc @ map (mk_row (cs_columns st)) vs1"] by auto
  have "answered (sent c (concat (replicate (Suc (length bs) + 1) (fetch_request st)))) c'
      (map Inr ms1 @ batch_inbox bs @ map Inr ms) rest b"
    using answered_trans [OF c1(2) c'(2)] by simp
  then show ?case using c'(1) cursor_collect_fetch [OF st c1(1)] bt by (simp add: after_batch_def)
qed

lemma feed_portal:
  "feed portal_step [ParseComplete, BindComplete, RowDescription (Inr cols)] None = Some (Some cols)"
  by (simp add: portal_step_def with_body_def)

lemma execute_reply_ok:
  assumes "state c = Idle" "\<not> needs_recovery c" "write_faults c = []"
    and "interleaved ms [CommandComplete (Inr tag), ReadyForQuery b]" "inbox c = map Inr ms @ rest"
  shows "\<exists>c'. query sql c = (Ret (Ok \<lparr> qr_rows = [], qr_command_tag = tag, qr_columns = [] \<rparr>), c') \<and>
     execute sql c = (Ret (Ok tag), c') \<and> answered (sent c [Query sql]) c' (map Inr ms) rest b"
proof -
  have "interleaved ms (reply_messages (CommandReply tag b))" "well_formed_reply (CommandReply tag b)"
    using assms(4) by (simp_all add: well_formed_reply_def)
  from query_reply [OF assms(1-3) this(1) assms(5) this(2), of sql] show ?thesis
    by (auto simp: execute_def retc_def)
qed

lemma open_portal_reply:
  assumes "state c = Idle" "\<not> needs_recovery c" "write_faults c = []" "transaction_status c = TIdle"
    and "encode_params_text ps = Inr vs"
    and "interleaved ms0 [CommandComplete (Inr btag), ReadyForQuery b0]"
    and "interleaved ms1 [ParseComplete, BindComplete, RowDescription (Inr cols), ReadyForQuery b1]"
    and "inbox c = map Inr ms0 @ map Inr ms1 @ rest"
  shows "\<exists>portal c'. open_portal sql ps c = (Ret (Ok (portal, cols, True)), c') \<and>
     answered (sent c (Query ''BEGIN'' # portal_batch portal sql vs)) c' (map Inr (ms0 @ ms1)) rest b1"
proof -
  obtain c1 where q: "query ''BEGIN'' c = (Ret (Ok \<lparr> qr_rows = [], qr_command_tag = btag, qr_columns = [] \<rparr>), c1)"
      "answered (sent c [Query ''BEGIN'']) c1 (map Inr ms0) (map Inr ms1 @ rest) b0"
    using execute_reply_ok [OF assms(1-3,6,8), of "''BEGIN''"] by blast
  then have c1: "state c1 = Idle" "write_faults c1 = []" "inbox c1 = map Inr ms1 @ rest"
    using assms(3) by (simp_all add: answered_def)
  let ?portal = "''__pg_portal_'' @ show_nat (unat (statement_counter c1))"
  let ?c2 = "sent (c1\<lparr>state := ActiveExtendedQuery, statement_counter := statement_counter c1 + 1\<rparr>) (portal_batch ?portal sql vs)"
  have i: "interleaved ms1 ([ParseComplete, BindComplete, RowDescription (Inr cols)] @ [ReadyForQuery b1])"
    "\<forall>m\<in>set [ParseComplete, BindComplete, RowDescription (Inr cols)]. \<not> is_async m"
    "inbox ?c2 = map Inr ms1 @ rest" using assms(7) c1(3) by simp_all
  obtain c' where "read_replies portal_step None ?c2 = (Ret (Ok ()), Some cols, c')"
      "answered ?c2 (c'\<lparr>state := Idle\<rparr>) (map Inr ms1) rest b1" "state c' = Idle"
    using portal_reply.reads_reply [OF i(1,2) feed_portal i(3)] by auto
  moreover from this have "answered (sent c1 (portal_batch ?portal sql vs)) c' (map Inr ms1) rest b1"
    by (simp add: answered_def)
  ultimately show ?thesis using q c1 assms(4,5) answered_trans [OF q(2)]
    by (intro exI [of _ ?portal] exI [of _ c'])
      (auto simp: open_portal_def bindc_def retc_def next_portal_name_def transition_extended write_batch_ok)
qed

lemma cursor_lossless:
  "lossless c (snd (open_portal sql ps c))" "lossless c (snd (snd (fetch_batch st c)))"
  "lossless c (snd (close_portal_named portal c))" "lossless c (snd (commit_if own c))"
proof -
  have r: "lossless c (snd (next_portal_name c))" for c by (simp add: next_portal_name_def)
  show "lossless c (snd (open_portal sql ps c))"
    unfolding open_portal_def Let_def
    by (intro extended_lossless_intros query_lossless portal_quiet.local_loop_lossless r)
      (auto intro: extended_lossless_intros query_lossless)
  show "lossless c (snd (close_portal_named portal c))"
    unfolding close_portal_named_def by (intro extended_lossless_intros close_portal_quiet.local_loop_lossless)
  show "lossless c (snd (commit_if own c))"
    by (auto simp: commit_if_def intro: extended_lossless_intros execute_lossless)
  let ?w = "bindc (transition ActiveExtendedQuery) (\<lambda>_. write_batch (fetch_request st)) c"
  have w: "lossless c (snd ?w)" by (intro extended_lossless_intros)
  then show "lossless c (snd (snd (fetch_batch st c)))"
    using batch_quiet.sync_loop_lossless [of "snd ?w" "inbox (snd ?w)" "(st, None, [])"] lossless_trans [OF w]
    by (auto simp: fetch_batch_def read_replies_def split: prod.splits outcome.splits sum.splits)
qed

subsection \<open>Properties\<close>

text \<open>
  C16.  A streaming cursor delivers the whole result once and in order: \<open>query_cursor_stream\<close> outside a
  transaction begins one, opens a named portal and returns a stream; however the server cuts the
  result into batches (empty ones included) and whatever asynchronous messages it mixes in, iterating
  \<open>next\<close> yields exactly the rows of all batches in order, with one Execute and Sync per batch;
  \<open>consume\<close> reads them all, commits the transaction the cursor began, and returns the tag of the last
  batch.  The connection is idle and in step afterwards.
\<close>

theorem cursor_stream_yields_all:
  assumes "state c = Idle" "\<not> needs_recovery c" "write_faults c = []" "transaction_status c = TIdle"
    and "encode_params_text ps = Inr vs"
    and "interleaved ms0 [CommandComplete (Inr btag), ReadyForQuery b0]"
    and "interleaved ms1 [ParseComplete, BindComplete, RowDescription (Inr cols), ReadyForQuery b1]"
    and "\<forall>bt\<in>set bs. suspended_batch bt"
    and "interleaved ms2 (batch_messages last_rows (Some tag) @ [ReadyForQuery b2])"
    and "interleaved ms3 [CommandComplete (Inr ctag), ReadyForQuery b3]"
    and "inbox c = map Inr (ms0 @ ms1) @ batch_inbox bs @ map Inr ms2 @ map Inr ms3 @ rest"
  shows "\<exists>st c1 c2 c3. query_cursor_stream sql ps n c = (Ret (Ok st), c1) \<and>
     cursor_collect st c1 [] = (Ret (Ok (map (mk_row cols) (batch_rows bs @ last_rows))), st\<lparr>cs_state := CsDone tag\<rparr>, c2) \<and>
     cursor_consume st c1 = (Ret (Ok tag), c3) \<and>
     answered (c\<lparr>outbox := outbox c @ [Query ''BEGIN''] @ portal_batch (cs_portal_name st) sql vs
         @ concat (replicate (length bs + 1) [Execute (cs_portal_name st) n, Sync]) @ [Query ''COMMIT'']\<rparr>)
       c3 (map Inr (ms0 @ ms1) @ batch_inbox bs @ map Inr ms2 @ map Inr ms3) rest b3"
proof -
  let ?r1 = "batch_inbox bs @ map Inr ms2 @ map Inr ms3 @ rest"
  have i: "inbox c = map Inr ms0 @ map Inr ms1 @ ?r1" using assms(11) by simp
  obtain portal c1 where o: "open_portal sql ps c = (Ret (Ok (portal, cols, True)), c1)"
      "answered (sent c (Query ''BEGIN'' # portal_batch portal sql vs)) c1 (map Inr (ms0 @ ms1)) ?r1 b1"
    using open_portal_reply [OF assms(1-7) i, of sql] by blast
  let ?st = "cursor_stream_new portal cols n True"
  have st: "cs_state ?st = CsActive" "buffered_rows ?st = []" "cs_columns ?st = cols" "cs_portal_name ?st = portal"
    "cs_fetch_size ?st = n" "cs_owns_transaction ?st" by (simp_all add: cursor_stream_new_def)
  have c1: "state c1 = Idle" "write_faults c1 = []" "inbox c1 = ?r1" "\<not> needs_recovery c1"
    using o(2) assms(2,3) by (simp_all add: answered_def)
  obtain c2 where c: "cursor_collect ?st c1 [] =
        (Ret (Ok (map (mk_row cols) (batch_rows bs @ last_rows))), ?st\<lparr>cs_state := CsDone tag\<rparr>, c2)"
      "answered (sent c1 (concat (replicate (length bs + 1) (fetch_request ?st)))) c2 (batch_inbox bs @ map Inr ms2) (map Inr ms3 @ rest) b2"
    using cursor_collect_batches [OF c1(1,2) st(1,2) assms(8,9) c1(3), of "[]"] st(3) by auto
  have c2: "state c2 = Idle" "write_faults c2 = []" "inbox c2 = map Inr ms3 @ rest" "\<not> needs_recovery c2"
    using c(2) c1 by (simp_all add: answered_def)
  obtain c3 where e: "execute ''COMMIT'' c2 = (Ret (Ok ctag), c3)" "answered (sent c2 [Query ''COMMIT'']) c3 (map Inr ms3) rest b3"
    using execute_reply_ok [OF c2(1,4,2) assms(10) c2(3), of "''COMMIT''"] by blast
  have "query_cursor_stream sql ps n c = (Ret (Ok ?st), c1)"
    using o(1) by (simp add: query_cursor_stream_def retc_def)
  moreover have "cursor_consume ?st c1 = (Ret (Ok tag), c3)"
    using c(1) e(1) st(6)
    by (simp add: cursor_consume_def close_portal_def commit_if_def retc_def drop_cursor_stream_def cs_is_done_def)
  ultimately show ?thesis using c(1) answered_trans [OF answered_trans [OF o(2) c(2)] e(2)] st(4,5)
    by (intro exI [of _ ?st] exI [of _ c1] exI [of _ c2] exI [of _ c3]) simp
qed

theorem cursor_stream_yields_all_witness:
  "\<exists>st c1 c3. query_cursor_stream ''SELECT'' [] 1 (sample_connection
       [CommandComplete (Ok ''BEGIN''), ReadyForQuery CHR ''T'',
        ParseComplete, BindComplete, RowDescription (Ok []), ReadyForQuery CHR ''T'',
        DataRow (Ok [Some [1]]), PortalSuspended, ReadyForQuery CHR ''T'',
        DataRow (Ok [Some [2]]), CommandComplete (Ok ''SELECT 2''), ReadyForQuery CHR ''T'',
        CommandComplete (Ok ''COMMIT''), ReadyForQuery CHR ''I'']) = (Ret (Ok st), c1) \<and>
     cursor_consume st c1 = (Ret (Ok ''SELECT 2''), c3) \<and> transaction_status c3 = TIdle"
proof -
  let ?b = "([DataRow (Ok [Some [1]]), PortalSuspended, ReadyForQuery CHR ''T''], [[Some [1]]], CHR ''T'') :: batch"
  let ?c = "sample_connection
       [CommandComplete (Ok ''BEGIN''), ReadyForQuery CHR ''T'',
        ParseComplete, BindComplete, RowDescription (Ok []), ReadyForQuery CHR ''T'',
        DataRow (Ok [Some [1]]), PortalSuspended, ReadyForQuery CHR ''T'',
        DataRow (Ok [Some [2]]), CommandComplete (Ok ''SELECT 2''), ReadyForQuery CHR ''T'',
        CommandComplete (Ok ''COMMIT''), ReadyForQuery CHR ''I'']"
  have "\<forall>bt\<in>set [?b]. suspended_batch bt" by (simp add: suspended_batch_def batch_messages_def)
  from cursor_stream_yields_all [OF _ _ _ _ _ _ _ this, of ?c "[]" "[]"
      "[CommandComplete (Ok ''BEGIN''), ReadyForQuery CHR ''T'']" "''BEGIN''" "CHR ''T''"
      "[ParseComplete, BindComplete, RowDescription (Ok []), ReadyForQuery CHR ''T'']" "[]" "CHR ''T''"
      "[DataRow (Ok [Some [2]]), CommandComplete (Ok ''SELECT 2''), ReadyForQuery CHR ''T'']" "[[Some [2]]]" "''SELECT 2''" "CHR ''T''"
      "[CommandComplete (Ok ''COMMIT''), ReadyForQuery CHR ''I'']" "''COMMIT''" "CHR ''I''" "[]" "''SELECT''" 1]
  show ?thesis by (fastforce simp: batch_messages_def answered_def ready_status_def status_from_u8_def)
qed

text \<open>
  C36.  A cursor stream that is dropped between two batches blocks the connection: the connection is
  idle and nothing of the reply is outstanding, yet the drop demands recovery, and the next query waits
  for a \<open>ReadyForQuery\<close> that never comes, without having sent anything, as long as the server sends
  only asynchronous messages.
\<close>

theorem dropped_cursor_stream_blocks:
  assumes "cs_state st = CsActive" "\<forall>r\<in>set (inbox c). \<exists>m. r = Inr m \<and> is_async m"
  shows "\<exists>c'. query sql (drop_cursor_stream st c) = (Pending, c') \<and> outbox c' = outbox c"
proof -
  let ?c = "c\<lparr>needs_recovery := True\<rparr>"
  have "\<forall>r\<in>set ms. \<exists>m. r = Inr m \<and> is_async m \<Longrightarrow>
      \<exists>c'. read_until_ready_loop ms d = (Pending, c') \<and> outbox c' = outbox d" for ms d
  proof (induction ms arbitrary: d)
    case (Cons r ms)
    then obtain m where m: "r = Inr m" "is_async m" by auto
    then have "\<forall>b. m \<noteq> ReadyForQuery b" by auto
    then show ?case using Cons.IH [of "snd (handle_async_message m (d\<lparr>inbox := ms\<rparr>))"] Cons.prems m
      by (simp add: read_until_ready_skip del: read_until_ready_loop.simps)
  qed simp
  from this [of "inbox c" ?c] show ?thesis using assms
    by (auto simp: drop_cursor_stream_def cs_is_done_def query_def query_stream_def bindc_def recover_def read_until_ready_def)
qed

theorem dropped_cursor_stream_blocks_witness:
  "\<exists>c'. query ''SELECT 1'' (drop_cursor_stream (cursor_stream_new ''p'' [] 10 True) (sample_connection [])) = (Pending, c')
     \<and> outbox c' = []"
  using dropped_cursor_stream_blocks [of "cursor_stream_new ''p'' [] 10 True" "sample_connection []" "''SELECT 1''"]
  by (simp add: cursor_stream_new_def)

end
