(* ===== verification/Transaction.thy ===== *)
theory Transaction
  imports Query
begin

text \<open>
  Transactions and savepoints (\<open>transaction/mod.rs\<close>, \<open>transaction/savepoint.rs\<close>).  A guard borrows
  its connection, so an operation on a guard takes and returns the guard and the connection; the
  value a consumed guard has when it is dropped is returned too.
\<close>

subsection \<open>Guards\<close>

record transaction =
  committed :: bool
  savepoint_depth :: "32 word"

definition transaction_new :: transaction where
  "transaction_new = \<lparr> committed = False, savepoint_depth = 0 \<rparr>"

type_synonym 'a txm = "transaction \<Rightarrow> connection \<Rightarrow> (pg_error, 'a) outcome \<times> transaction \<times> connection"

text \<open>A method of the connection called through the guard.\<close>

definition on_conn :: "'a cm \<Rightarrow> 'a txm" where
  "on_conn m t c = (case m c of (r, c') \<Rightarrow> (r, t, c'))"

definition bindt :: "'a txm \<Rightarrow> ('a \<Rightarrow> 'b txm) \<Rightarrow> 'b txm" where
  "bindt m f t c = (case m t c of
      (Ret (Inr a), t', c') \<Rightarrow> f a t' c'
    | (Ret (Inl e), t', c') \<Rightarrow> (Ret (Inl e), t', c')
    | (Pending, t', c') \<Rightarrow> (Pending, t', c'))"

definition set_committed :: "unit txm" where
  "set_committed t c = (Ret (Ok ()), t\<lparr>committed := True\<rparr>, c)"

definition commit :: "unit txm" where
  "commit = bindt (on_conn (execute ''COMMIT'')) (\<lambda>_. set_committed)"

definition rollback :: "unit txm" where
  "rollback = bindt (on_conn (execute ''ROLLBACK'')) (\<lambda>_. set_committed)"

definition txn_is_failed :: "connection \<Rightarrow> bool" where
  "txn_is_failed c = (transaction_status c = Failed)"

definition txn_query :: "string \<Rightarrow> query_result txm" where "txn_query sql = on_conn (query sql)"
definition txn_execute :: "string \<Rightarrow> string txm" where "txn_execute sql = on_conn (execute sql)"
definition txn_query_one :: "string \<Rightarrow> row option txm" where "txn_query_one sql = on_conn (query_one sql)"

text \<open>\<open>Drop\<close> of the guard: nothing is sent.\<close>

definition drop_transaction :: "transaction \<Rightarrow> connection \<Rightarrow> connection" where
  "drop_transaction t c = c"

definition transaction :: "transaction cm" where
  "transaction = bindc (execute ''BEGIN'') (\<lambda>_. retc transaction_new)"

definition transaction_with :: "transaction_options \<Rightarrow> transaction cm" where
  "transaction_with opts = bindc (execute (to_begin_sql opts)) (\<lambda>_. retc transaction_new)"

definition with_transaction :: "'a txm \<Rightarrow> 'a cm" where
  "with_transaction f =
     bindc transaction (\<lambda>txn c.
       case f txn c of
         (Pending, t1, c1) \<Rightarrow> (Pending, c1)
       | (Ret (Inr v), t1, c1) \<Rightarrow>
           (case commit t1 c1 of
              (Pending, t2, c2) \<Rightarrow> (Pending, c2)
            | (Ret (Inl e), t2, c2) \<Rightarrow> (Ret (Err e), drop_transaction t2 c2)
            | (Ret (Inr _), t2, c2) \<Rightarrow> (Ret (Ok v), drop_transaction t2 c2))
       | (Ret (Inl e), t1, c1) \<Rightarrow>
           (case rollback t1 c1 of
              (Pending, t2, c2) \<Rightarrow> (Pending, c2)
            | (Ret _, t2, c2) \<Rightarrow> (Ret (Err e), drop_transaction t2 c2)))"

subsection \<open>Savepoints\<close>

record savepoint =
  sp_name :: string
  released :: bool

definition savepoint :: "string \<Rightarrow> savepoint txm" where
  "savepoint n = bindt (on_conn (execute (savepoint_sql n))) (\<lambda>_ t c.
     (Ret (Ok \<lparr> sp_name = n, released = False \<rparr>), t\<lparr>savepoint_depth := savepoint_depth t + 1\<rparr>, c))"

definition drop_savepoint :: "savepoint \<Rightarrow> transaction \<Rightarrow> transaction" where
  "drop_savepoint sp t = (if released sp then t else t\<lparr>savepoint_depth := savepoint_depth t - 1\<rparr>)"

text \<open>
  \<open>release\<close> and \<open>rollback\<close> consume the savepoint: it is dropped at the end, also when the statement
  failed.
\<close>

definition finish_savepoint :: "string \<Rightarrow> savepoint \<Rightarrow> unit txm" where
  "finish_savepoint sql sp t c =
     (case on_conn (execute sql) t c of
        (Pending, t1, c1) \<Rightarrow> (Pending, t1, c1)
      | (Ret (Inl e), t1, c1) \<Rightarrow> (Ret (Err e), drop_savepoint sp t1, c1)
      | (Ret (Inr _), t1, c1) \<Rightarrow>
          (Ret (Ok ()), drop_savepoint (sp\<lparr>released := True\<rparr>) (t1\<lparr>savepoint_depth := savepoint_depth t1 - 1\<rparr>), c1))"

definition release :: "savepoint \<Rightarrow> unit txm" where
  "release sp = finish_savepoint (release_savepoint_sql (sp_name sp)) sp"

definition rollback_to :: "savepoint \<Rightarrow> unit txm" where
  "rollback_to sp = finish_savepoint (rollback_savepoint_sql (sp_name sp)) sp"

subsection \<open>A body that executes statements\<close>

text \<open>The body \<open>for s in sqls { txn.execute(s)?; }\<close>.\<close>

fun execute_all :: "string list \<Rightarrow> unit txm" where
  "execute_all [] t c = (Ret (Ok ()), t, c)"
| "execute_all (s # ss) t c = bindt (txn_execute s) (\<lambda>_. execute_all ss) t c"

text \<open>
  \<open>served sqls reps\<close>: \<open>reps\<close> are the replies to the statements up to and including the first that
  fails; \<open>first_error\<close> is that failure.
\<close>

fun served :: "string list \<Rightarrow> reply list \<Rightarrow> bool" where
  "served [] reps = (reps = [])"
| "served (s # ss) [] = False"
| "served (s # ss) (r # rs) = (case reply_result r of Inr _ \<Rightarrow> served ss rs | Inl _ \<Rightarrow> rs = [])"

fun first_error :: "reply list \<Rightarrow> (pg_error, unit) res" where
  "first_error [] = Ok ()"
| "first_error (r # rs) = (case reply_result r of Inr _ \<Rightarrow> first_error rs | Inl e \<Rightarrow> Err e)"

text \<open>The messages of several replies, one after the other, each with its asynchronous messages.\<close>

definition replies :: "backend_message list list \<Rightarrow> reply list \<Rightarrow> bool" where
  "replies mss reps = list_all2 (\<lambda>ms r. interleaved ms (reply_messages r) \<and> well_formed_reply r) mss reps"

definition ready :: "connection \<Rightarrow> bool" where
  "ready c = (state c = Idle \<and> \<not> needs_recovery c \<and> write_faults c = [])"

lemma execute_reply:
  assumes "ready c" "interleaved ms (reply_messages r)" "well_formed_reply r" "inbox c = map Inr ms @ rest"
  shows "\<exists>c'. execute sql c = (Ret (bind_res (reply_result r) (\<lambda>q. Ok (qr_command_tag q))), c') \<and>
     ready c' \<and> inbox c' = rest \<and> outbox c' = outbox c @ [Query sql] \<and>
     transaction_status c' = ready_status (reply_status r) \<and>
     notification_queue c' = notification_queue c @ notifs (map Inr ms)"
proof -
  obtain c' where q: "query sql c = (Ret (reply_result r), c')"
    "answered (c\<lparr>outbox := outbox c @ [Query sql]\<rparr>) c' (map Inr ms) rest (reply_status r)"
    using query_reply [OF _ _ _ assms(2,4,3)] assms(1) unfolding ready_def by blast
  then show ?thesis using assms(1)
    by (cases "reply_result r") (auto simp: execute_def retc_def bind_res_def answered_def ready_def)
qed

lemma execute_all_replies:
  assumes "ready c" "served sqls reps" "replies mss reps" "inbox c = map Inr (concat mss) @ rest"
  shows "\<exists>c'. execute_all sqls t c = (Ret (first_error reps), t, c') \<and> ready c' \<and> inbox c' = rest \<and>
     outbox c' = outbox c @ map Query (take (length reps) sqls) \<and>
     notification_queue c' = notification_queue c @ notifs (map Inr (concat mss))"
  using assms
proof (induction sqls reps arbitrary: c mss rule: served.induct)
  case (1 reps)
  then show ?case by (simp add: replies_def)
next
  case (2 s ss)
  then show ?case by simp
next
  case (3 s ss r rs)
  obtain ms mss' where m: "mss = ms # mss'" "interleaved ms (reply_messages r)" "well_formed_reply r"
    "replies mss' rs" using "3.prems"(3) by (auto simp: replies_def list_all2_Cons2)
  have "inbox c = map Inr ms @ (map Inr (concat mss') @ rest)" using "3.prems"(4) m(1) by simp
  from execute_reply [OF "3.prems"(1) m(2,3) this, of s] obtain c1 where
    c1: "execute s c = (Ret (bind_res (reply_result r) (\<lambda>q. Ok (qr_command_tag q))), c1)" "ready c1"
      "inbox c1 = map Inr (concat mss') @ rest" "outbox c1 = outbox c @ [Query s]"
      "notification_queue c1 = notification_queue c @ notifs (map Inr ms)" by blast
  show ?case
  proof (cases "reply_result r")
    case (Inl e)
    then show ?thesis using "3.prems"(2) c1 m
      by (simp add: bindt_def txn_execute_def on_conn_def bind_res_def replies_def)
  next
    case (Inr q)
    then have "served ss rs" using "3.prems"(2) by simp
    from "3.IH" [OF Inr c1(2) this m(4) c1(3)] Inr c1 m show ?thesis
      by (auto simp: bindt_def txn_execute_def on_conn_def bind_res_def)
  qed
qed

subsection \<open>Properties\<close>

text \<open>
  C8.  \<open>with_transaction\<close> is all or nothing towards the server: if the body runs statements in
  sequence, then what is sent is \<open>BEGIN\<close>, the statements up to the first one that fails, and then
  exactly one of \<open>COMMIT\<close> (if none failed) and \<open>ROLLBACK\<close> (otherwise), in this order; the caller gets
  the body's error, or the outcome of \<open>COMMIT\<close>; and the connection ends idle and in step, with the
  transaction status of the last reply.  (A \<open>COMMIT\<close> that the server answers with the tag \<open>ROLLBACK\<close>
  counts as success.)
\<close>

theorem with_transaction_all_or_nothing:
  assumes "ready c" "reply_result r0 = Inr q0" "served sqls reps"
    and "replies mss (r0 # reps @ [fin])" "inbox c = map Inr (concat mss) @ rest"
  shows "\<exists>c'. with_transaction (execute_all sqls) c =
       (Ret (bind_res (first_error reps) (\<lambda>_. bind_res (reply_result fin) (\<lambda>_. Ok ()))), c') \<and>
     outbox c' = outbox c @ map Query (''BEGIN'' # take (length reps) sqls @
       [if first_error reps = Ok () then ''COMMIT'' else ''ROLLBACK'']) \<and>
     ready c' \<and> inbox c' = rest \<and> transaction_status c' = ready_status (reply_status fin) \<and>
     notification_queue c' = notification_queue c @ notifs (map Inr (concat mss))"
proof -
  obtain ms0 mss1 ms2 where m: "mss = ms0 # mss1 @ [ms2]" "replies [ms0] [r0]" "replies mss1 reps" "replies [ms2] [fin]"
    using assms(4) by (auto simp: replies_def list_all2_Cons2 list_all2_append2)
  have "inbox c = map Inr ms0 @ (map Inr (concat mss1) @ (map Inr ms2 @ rest))" using assms(5) m(1) by simp
  from execute_reply [OF assms(1) _ _ this, of r0 "''BEGIN''"] m(2) assms(2) obtain c1 where
    c1: "execute ''BEGIN'' c = (Ret (Ok (qr_command_tag q0)), c1)" "ready c1"
      "inbox c1 = map Inr (concat mss1) @ (map Inr ms2 @ rest)" "outbox c1 = outbox c @ [Query ''BEGIN'']"
      "notification_queue c1 = notification_queue c @ notifs (map Inr ms0)"
    by (auto simp: replies_def bind_res_def)
  from execute_all_replies [OF c1(2) assms(3) m(3) c1(3), of transaction_new] obtain c2 where
    c2: "execute_all sqls transaction_new c1 = (Ret (first_error reps), transaction_new, c2)" "ready c2"
      "inbox c2 = map Inr ms2 @ rest" "outbox c2 = outbox c1 @ map Query (take (length reps) sqls)"
      "notification_queue c2 = notification_queue c1 @ notifs (map Inr (concat mss1))" by blast
  let ?last = "if first_error reps = Ok () then ''COMMIT'' else ''ROLLBACK''"
  from execute_reply [OF c2(2) _ _ c2(3), of fin ?last] m(4) obtain c3 where
    c3: "execute ?last c2 = (Ret (bind_res (reply_result fin) (\<lambda>q. Ok (qr_command_tag q))), c3)" "ready c3"
      "inbox c3 = rest" "outbox c3 = outbox c2 @ [Query ?last]" "transaction_status c3 = ready_status (reply_status fin)"
      "notification_queue c3 = notification_queue c2 @ notifs (map Inr ms2)" by (auto simp: replies_def)
  have "with_transaction (execute_all sqls) c =
      (Ret (bind_res (first_error reps) (\<lambda>_. bind_res (reply_result fin) (\<lambda>_. Ok ()))), c3)"
    using c1(1) c2(1) c3(1)
    by (cases "first_error reps"; cases "reply_result fin")
      (simp_all add: with_transaction_def transaction_def retc_def bind_res_def commit_def rollback_def bindt_def
        on_conn_def set_committed_def drop_transaction_def)
  then show ?thesis using c1 c2 c3 m(1) by auto
qed

theorem with_transaction_all_or_nothing_witness:
  "\<exists>c'. with_transaction (execute_all [''INSERT''])
       (sample_connection [CommandComplete (Ok ''BEGIN''), ReadyForQuery CHR ''T'', CommandComplete (Ok ''INSERT 0 1''),
          ReadyForQuery CHR ''T'', CommandComplete (Ok ''COMMIT''), ReadyForQuery CHR ''I'']) = (Ret (Ok ()), c') \<and>
     outbox c' = [Query ''BEGIN'', Query ''INSERT'', Query ''COMMIT''] \<and> transaction_status c' = TIdle"
proof -
  let ?mss = "[[CommandComplete (Ok ''BEGIN''), ReadyForQuery CHR ''T''],
     [CommandComplete (Ok ''INSERT 0 1''), ReadyForQuery CHR ''T''], [CommandComplete (Ok ''COMMIT''), ReadyForQuery CHR ''I'']]"
  have "replies ?mss (CommandReply ''BEGIN'' CHR ''T'' # [CommandReply ''INSERT 0 1'' CHR ''T''] @ [CommandReply ''COMMIT'' CHR ''I''])"
    by (simp add: replies_def is_async_def well_formed_reply_def)
  from with_transaction_all_or_nothing [OF _ _ _ this, of "sample_connection (concat ?mss)" _ "[''INSERT'']" "[]"]
  show ?thesis by (auto simp: ready_def ready_status_def status_from_u8_def bind_res_def)
qed

text \<open>
  C33.  The savepoint counter is balanced on every path: creating a savepoint and then finishing it, by
  \<open>release\<close>, by \<open>rollback\<close> or by dropping the guard, whether or not the server accepts the statement,
  leaves the depth of the transaction as it was, also across the wrap-around of the 32-bit counter.
\<close>

theorem savepoint_depth_balanced:
  assumes "savepoint n t c = (Ret (Ok sp), t1, c1)"
  shows "\<not> released sp \<and> sp_name sp = n \<and> savepoint_depth t1 = savepoint_depth t + 1 \<and>
     savepoint_depth (drop_savepoint sp t1) = savepoint_depth t \<and>
     (\<forall>r t2 c2. release sp t1 c1 = (Ret r, t2, c2) \<longrightarrow> savepoint_depth t2 = savepoint_depth t) \<and>
     (\<forall>r t2 c2. rollback_to sp t1 c1 = (Ret r, t2, c2) \<longrightarrow> savepoint_depth t2 = savepoint_depth t)"
  using assms
  by (auto simp: savepoint_def bindt_def on_conn_def release_def rollback_to_def finish_savepoint_def
      drop_savepoint_def split: prod.splits outcome.splits sum.splits)

theorem savepoint_depth_balanced_witness:
  "\<exists>sp t1 c1. savepoint ''a'' transaction_new (sample_connection [CommandComplete (Ok ''SAVEPOINT''), ReadyForQuery CHR ''T''])
     = (Ret (Ok sp), t1, c1) \<and> savepoint_depth (drop_savepoint sp t1) = 0"
proof -
  let ?ms = "[CommandComplete (Ok ''SAVEPOINT''), ReadyForQuery CHR ''T'']"
  have "interleaved ?ms (reply_messages (CommandReply ''SAVEPOINT'' CHR ''T''))" "ready (sample_connection ?ms)"
    "well_formed_reply (CommandReply ''SAVEPOINT'' CHR ''T'')"
    by (simp_all add: is_async_def ready_def well_formed_reply_def)
  from execute_reply [OF this(2,1,3), of "[]" "savepoint_sql ''a''"] obtain c1 where
    "execute (savepoint_sql ''a'') (sample_connection ?ms) = (Ret (Ok ''SAVEPOINT''), c1)"
    by (auto simp: bind_res_def)
  then have s: "\<exists>sp t1 c1. savepoint ''a'' transaction_new (sample_connection ?ms) = (Ret (Ok sp), t1, c1)"
    by (simp add: savepoint_def bindt_def on_conn_def)
  then obtain sp t1 c1 where "savepoint ''a'' transaction_new (sample_connection ?ms) = (Ret (Ok sp), t1, c1)" by blast
  from this savepoint_depth_balanced [OF this] show ?thesis by (auto simp: transaction_new_def)
qed

end
