(* ===== verification/Copy.thy ===== *)
theory Copy
  imports Extended_Query
begin

text \<open>
  Bulk copy (\<open>copy/mod.rs\<close>): starting a copy, the writer \<open>CopyIn\<close>, the reader \<open>CopyOut\<close> with its line and
  CSV iterators, and what dropping them does (\<open>connection.rs\<close>: \<open>cancel_copy_in_sync\<close>,
  \<open>drain_copy_out_sync\<close> and the byte scanner behind them); the binary format writer (\<open>copy/binary.rs\<close>).
  Both objects borrow the connection, which is passed along with them.  \<open>String::from_utf8_lossy\<close> is the
  parameter \<open>lossy\<close>; the blocking socket of a drop is the record \<open>sync_io\<close>.
\<close>

subsection \<open>Dropping without a runtime\<close>

text \<open>
  Whether the blocking write succeeded, and what the blocking drain did: never, in every build but the
  one with the native test transport over plain TCP.
\<close>

record sync_io =
  sync_write :: bool
  sync_drain :: "connection \<Rightarrow> bool \<times> connection"

definition no_sync_io :: sync_io where
  "no_sync_io = \<lparr> sync_write = False, sync_drain = \<lambda>c. (False, c) \<rparr>"

definition cancel_copy_in_sync :: "sync_io \<Rightarrow> connection \<Rightarrow> connection" where
  "cancel_copy_in_sync io c =
     (if sync_write io then (snd (sync_drain io c))\<lparr>state := Idle\<rparr> else c\<lparr>state := Closed\<rparr>)"

definition drain_copy_out_sync :: "sync_io \<Rightarrow> connection \<Rightarrow> connection" where
  "drain_copy_out_sync io c =
     (case sync_drain io c of (ok, c1) \<Rightarrow> c1\<lparr>state := (if ok then Idle else Closed)\<rparr>)"

text \<open>
  \<open>try_sync_drain_until_ready\<close> on the results of the coming socket reads (\<open>None\<close> is an error, an empty
  list the end of the stream).
\<close>

definition scan_ready :: "bytes \<Rightarrow> bool" where
  "scan_ready buf =
     (let pos = length (takeWhile (\<lambda>b. b \<noteq> 0x5A) buf) in
      pos < length buf \<and> pos + 6 \<le> length buf \<and>
      from_be_sint 4 (take 4 (drop (pos + 1) buf)) = 5 \<and>
      buf ! (pos + 5) \<in> {0x49, 0x54, 0x45})"

fun try_sync_drain :: "bytes \<Rightarrow> bytes option list \<Rightarrow> bool" where
  "try_sync_drain buf rs =
     (if scan_ready buf then True
      else (case rs of
              [] \<Rightarrow> False
            | None # _ \<Rightarrow> False
            | Some chunk # rs' \<Rightarrow>
                if chunk = [] then False
                else if 10 * 1024 * 1024 < length (buf @ chunk) then False
                else try_sync_drain (buf @ chunk) rs'))"

declare try_sync_drain.simps [simp del]

subsection \<open>Starting a copy\<close>

record copy_op =
  copy_format :: nat
  column_formats :: "nat list"
  cp_done :: bool

definition unexpected_stop :: "string \<Rightarrow> 's \<Rightarrow> 's step" where
  "unexpected_stop msg s = Stop (\<lambda>c.
     case read_until_ready c of
       (Ret (Inr _), c2) \<Rightarrow> (Ret (Err (PgProtocol (PrProtocolViolation msg))), s, c2\<lparr>state := Idle\<rparr>)
     | (Ret (Inl e), c2) \<Rightarrow> (Ret (Err e), s, c2)
     | (Pending, c2) \<Rightarrow> (Pending, s, c2))"

definition copy_in_step :: "copy_op option handler" where
  "copy_in_step m s =
     (case m of
        CopyInResponse f body \<Rightarrow> with_body s body (\<lambda>fs.
          Stop (\<lambda>c. (Ret (Ok ()), Some \<lparr> copy_format = f, column_formats = fs, cp_done = False \<rparr>, c)))
      | ErrorResponse body \<Rightarrow> error_stop body set_idle id s
      | _ \<Rightarrow> unexpected_stop ''expected CopyInResponse after COPY query'' s)"

definition copy_out_step :: "copy_op option handler" where
  "copy_out_step m s =
     (case m of
        CopyOutResponse f body \<Rightarrow> with_body s body (\<lambda>fs.
          Stop (\<lambda>c. (Ret (Ok ()), Some \<lparr> copy_format = f, column_formats = fs, cp_done = False \<rparr>, c)))
      | ErrorResponse body \<Rightarrow> error_stop body set_idle id s
      | _ \<Rightarrow> unexpected_stop ''expected CopyOutResponse after COPY query'' s)"

definition start_copy :: "connection_state \<Rightarrow> copy_op option handler \<Rightarrow> string \<Rightarrow> copy_op cm" where
  "start_copy st h sql =
     bindc (transition st) (\<lambda>_.
     bindc (send_c (Query sql)) (\<lambda>_.
     bindc (local_loop h None) (\<lambda>cp. retc (the cp))))"

definition copy_in :: "string \<Rightarrow> copy_op cm" where "copy_in = start_copy CopyIn copy_in_step"
definition copy_out :: "string \<Rightarrow> copy_op cm" where "copy_out = start_copy CopyOut copy_out_step"

subsection \<open>Writing\<close>

definition copy_write :: "bytes \<Rightarrow> unit cm" where
  "copy_write data = send_c (FCopyData data)"

definition TAB :: char where "TAB = CHR 0x09"

definition copy_write_row :: "string list \<Rightarrow> unit cm" where
  "copy_write_row cols = copy_write (bytes_of (join [TAB] cols @ [LF]))"

definition write_csv_row :: "string list \<Rightarrow> char \<Rightarrow> char \<Rightarrow> unit cm" where
  "write_csv_row cols d q = copy_write (bytes_of (csv_line d q cols))"

definition write_csv_row_with_null :: "string option list \<Rightarrow> char \<Rightarrow> char \<Rightarrow> string \<Rightarrow> unit cm" where
  "write_csv_row_with_null cols d q null_string = copy_write (bytes_of (csv_line_with_null d q null_string cols))"

definition drop_copy_in :: "sync_io \<Rightarrow> copy_op \<Rightarrow> connection \<Rightarrow> connection" where
  "drop_copy_in io cp c = (if cp_done cp then c else cancel_copy_in_sync io c)"

fun copy_finish_step :: "(copy_op \<times> nat) handler" where
  "copy_finish_step m (cp, rows) =
     (case m of
        CommandComplete body \<Rightarrow>
          More (cp, case rows_affected (unwrap_or_empty body) of None \<Rightarrow> 0 | Some n \<Rightarrow> n)
      | ReadyForQuery b \<Rightarrow> ready_stop b set_idle (cp\<lparr>cp_done := True\<rparr>, rows)
      | ErrorResponse body \<Rightarrow>
          error_stop body set_idle (\<lambda>(cp, rows). (cp\<lparr>cp_done := True\<rparr>, rows)) (cp, rows)
      | _ \<Rightarrow> More (cp, rows))"

definition copy_finish :: "sync_io \<Rightarrow> copy_op \<Rightarrow> nat cm" where
  "copy_finish io cp c =
     (case send_c FCopyDone c of
        (Pending, c1) \<Rightarrow> (Pending, c1)
      | (Ret (Inl e), c1) \<Rightarrow> (Ret (Err e), drop_copy_in io cp c1)
      | (Ret (Inr _), c1) \<Rightarrow>
          (case read_replies copy_finish_step (cp, 0) c1 of
             (Pending, s, c2) \<Rightarrow> (Pending, c2)
           | (Ret (Inl e), (cp', rows), c2) \<Rightarrow> (Ret (Err e), drop_copy_in io cp' c2)
           | (Ret (Inr _), (cp', rows), c2) \<Rightarrow> (Ret (Ok rows), drop_copy_in io cp' c2)))"

definition copy_cancel :: "sync_io \<Rightarrow> string \<Rightarrow> copy_op \<Rightarrow> unit cm" where
  "copy_cancel io reason cp c =
     (case bindc (send_c (CopyFail reason)) (\<lambda>_. read_until_ready) c of
        (Pending, c1) \<Rightarrow> (Pending, c1)
      | (Ret (Inl e), c1) \<Rightarrow> (Ret (Err e), drop_copy_in io cp c1)
      | (Ret (Inr _), c1) \<Rightarrow> (Ret (Ok ()), drop_copy_in io (cp\<lparr>cp_done := True\<rparr>) (c1\<lparr>state := Idle\<rparr>)))"

subsection \<open>Reading\<close>

fun read_next_step :: "(copy_op \<times> bytes option) handler" where
  "read_next_step m (cp, chunk) =
     (case m of
        CopyData d \<Rightarrow> Stop (\<lambda>c. (Ret (Ok ()), (cp, Some d), c))
      | ReadyForQuery b \<Rightarrow> ready_stop b set_idle (cp\<lparr>cp_done := True\<rparr>, chunk)
      | ErrorResponse body \<Rightarrow>
          error_stop body set_idle (\<lambda>(cp, chunk). (cp\<lparr>cp_done := True\<rparr>, chunk)) (cp, chunk)
      | _ \<Rightarrow> More (cp, chunk))"

definition copy_read_next :: "copy_op \<Rightarrow> connection \<Rightarrow> (pg_error, bytes option) outcome \<times> copy_op \<times> connection" where
  "copy_read_next cp c =
     (case read_replies read_next_step (cp, None) c of
        (Pending, (cp', chunk), c') \<Rightarrow> (Pending, cp', c')
      | (Ret (Inl e), (cp', chunk), c') \<Rightarrow> (Ret (Err e), cp', c')
      | (Ret (Inr _), (cp', chunk), c') \<Rightarrow> (Ret (Ok chunk), cp', c'))"

interpretation copy_finish_reply: synced copy_finish_step "\<lambda>_. Idle"
    "\<lambda>(cp, rows). (cp\<lparr>cp_done := True\<rparr>, rows)" "\<lambda>(cp, rows). (cp\<lparr>cp_done := True\<rparr>, rows)"
  by unfold_locales (auto simp: stop_simps)

interpretation read_next_reply: synced read_next_step "\<lambda>_. Idle"
    "\<lambda>(cp, chunk). (cp\<lparr>cp_done := True\<rparr>, chunk)" "\<lambda>(cp, chunk). (cp\<lparr>cp_done := True\<rparr>, chunk)"
  by unfold_locales (auto simp: stop_simps)

interpretation copy_finish_quiet: quiet_handler copy_finish_step
  by unfold_locales (auto split: backend_message.split)

interpretation read_next_quiet: quiet_handler read_next_step
  by unfold_locales (auto split: backend_message.split)

lemma copy_read_next_progress:
  "copy_read_next cp c = (Ret r, cp', c') \<Longrightarrow> length (inbox c') < length (inbox c)"
  using read_next_quiet.sync_loop_progress [of "inbox c" "(cp, None)" c]
  by (fastforce simp: copy_read_next_def read_replies_def split: prod.splits outcome.splits sum.splits)

text \<open>
  \<open>while let Some(chunk) = self.read_next().await? { body }\<close> on the variables \<open>v\<close> of the loop; the body
  may fail.
\<close>

function read_loop ::
  "(bytes \<Rightarrow> 'v \<Rightarrow> (pg_error, unit) res \<times> 'v) \<Rightarrow> copy_op \<Rightarrow> connection \<Rightarrow> 'v \<Rightarrow>
   (pg_error, unit) outcome \<times> copy_op \<times> connection \<times> 'v"
where
  "read_loop body cp c v =
     (case copy_read_next cp c of
        (Ret (Inr (Some chunk)), cp', c') \<Rightarrow>
          (case body chunk v of
             (Inl e, v') \<Rightarrow> (Ret (Err e), cp', c', v')
           | (Inr _, v') \<Rightarrow> read_loop body cp' c' v')
      | (Ret (Inr None), cp', c') \<Rightarrow> (Ret (Ok ()), cp', c', v)
      | (Ret (Inl e), cp', c') \<Rightarrow> (Ret (Err e), cp', c', v)
      | (Pending, cp', c') \<Rightarrow> (Pending, cp', c', v))"
  by pat_completeness auto
termination
  by (relation "measure (\<lambda>(body, cp, c, v). length (inbox c))") (auto dest: copy_read_next_progress [OF sym])

declare read_loop.simps [simp del]

definition copy_read_all :: "copy_op \<Rightarrow> connection \<Rightarrow> (pg_error, bytes) outcome \<times> copy_op \<times> connection" where
  "copy_read_all cp c =
     (case read_loop (\<lambda>chunk result. (Ok (), result @ chunk)) cp c [] of
        (Ret (Inr _), cp', c', result) \<Rightarrow> (Ret (Ok result), cp', c')
      | (Ret (Inl e), cp', c', result) \<Rightarrow> (Ret (Err e), cp', c')
      | (Pending, cp', c', result) \<Rightarrow> (Pending, cp', c'))"

definition copy_for_each ::
  "(bytes \<Rightarrow> 'u \<Rightarrow> (pg_error, unit) res \<times> 'u) \<Rightarrow> copy_op \<Rightarrow> connection \<Rightarrow> 'u \<Rightarrow>
   (pg_error, unit) outcome \<times> copy_op \<times> connection \<times> 'u"
where
  "copy_for_each f = read_loop f"

text \<open>\<open>buffer.find('\n')\<close> and the two halves around it.\<close>

fun break_line :: "string \<Rightarrow> (string \<times> string) option" where
  "break_line [] = None"
| "break_line (ch # s) =
     (if ch = LF then Some ([], s) else map_option (\<lambda>(l, r). (ch # l, r)) (break_line s))"

lemma break_line_length: "break_line s = Some (l, r) \<Longrightarrow> length r < length s"
  by (induction s arbitrary: l) (auto split: if_splits)

function drain_lines ::
  "(string \<Rightarrow> 'f) \<Rightarrow> ('f \<Rightarrow> 'u \<Rightarrow> (pg_error, unit) res \<times> 'u) \<Rightarrow> string \<Rightarrow> 'u \<Rightarrow>
   (pg_error, unit) res \<times> string \<times> 'u"
where
  "drain_lines parse f buffer u =
     (case break_line buffer of
        None \<Rightarrow> (Ok (), buffer, u)
      | Some (ln, buffer') \<Rightarrow>
          if ln = [] then drain_lines parse f buffer' u
          else (case f (parse ln) u of
                  (Inl e, u') \<Rightarrow> (Err e, buffer', u')
                | (Inr _, u') \<Rightarrow> drain_lines parse f buffer' u'))"
  by pat_completeness auto
termination
  by (relation "measure (\<lambda>(parse, f, buffer, u). length buffer)") (auto dest: break_line_length)

declare drain_lines.simps [simp del]

text \<open>The common body of \<open>for_each_row\<close> and \<open>for_each_csv_row\<close>, which differ in how they split a line.\<close>

definition for_each_line ::
  "(bytes \<Rightarrow> string) \<Rightarrow> (string \<Rightarrow> 'f) \<Rightarrow> ('f \<Rightarrow> 'u \<Rightarrow> (pg_error, unit) res \<times> 'u) \<Rightarrow>
   copy_op \<Rightarrow> connection \<Rightarrow> 'u \<Rightarrow> (pg_error, unit) outcome \<times> copy_op \<times> connection \<times> 'u"
where
  "for_each_line lossy parse f cp c u =
     (case read_loop (\<lambda>chunk (buffer, u). drain_lines parse f (buffer @ lossy chunk) u) cp c ([], u) of
        (Pending, cp', c', (buffer, u')) \<Rightarrow> (Pending, cp', c', u')
      | (Ret (Inl e), cp', c', (buffer, u')) \<Rightarrow> (Ret (Err e), cp', c', u')
      | (Ret (Inr _), cp', c', (buffer, u')) \<Rightarrow>
          (if trim_end buffer = [] then (Ret (Ok ()), cp', c', u')
           else (case f (parse (trim_end buffer)) u' of (r, u'') \<Rightarrow> (Ret r, cp', c', u''))))"

definition for_each_row ::
  "(bytes \<Rightarrow> string) \<Rightarrow> (string list \<Rightarrow> 'u \<Rightarrow> (pg_error, unit) res \<times> 'u) \<Rightarrow>
   copy_op \<Rightarrow> connection \<Rightarrow> 'u \<Rightarrow> (pg_error, unit) outcome \<times> copy_op \<times> connection \<times> 'u"
where
  "for_each_row lossy = for_each_line lossy (split_char TAB)"

definition for_each_csv_row ::
  "(bytes \<Rightarrow> string) \<Rightarrow> char \<Rightarrow> char \<Rightarrow> (string list \<Rightarrow> 'u \<Rightarrow> (pg_error, unit) res \<times> 'u) \<Rightarrow>
   copy_op \<Rightarrow> connection \<Rightarrow> 'u \<Rightarrow> (pg_error, unit) outcome \<times> copy_op \<times> connection \<times> 'u"
where
  "for_each_csv_row lossy d q = for_each_line lossy (parse_csv_line d q)"

definition drop_copy_out :: "sync_io \<Rightarrow> copy_op \<Rightarrow> connection \<Rightarrow> connection" where
  "drop_copy_out io cp c = (if cp_done cp then c else drain_copy_out_sync io c)"

subsection \<open>Lemmas: lines\<close>

text \<open>
  The reference: the lines of a text up to its last newline without the empty ones, what follows it,
  and the callback run over a list of parsed lines until it fails.
\<close>

fun complete_lines :: "string \<Rightarrow> string \<Rightarrow> string list" where
  "complete_lines cur [] = []"
| "complete_lines cur (ch # s) =
     (if ch = LF then (if cur = [] then id else Cons cur) (complete_lines [] s)
      else complete_lines (cur @ [ch]) s)"

fun last_line :: "string \<Rightarrow> string \<Rightarrow> string" where
  "last_line cur [] = cur"
| "last_line cur (ch # s) = (if ch = LF then last_line [] s else last_line (cur @ [ch]) s)"

fun run_rows ::
  "('f \<Rightarrow> 'u \<Rightarrow> (pg_error, unit) res \<times> 'u) \<Rightarrow> 'f list \<Rightarrow> 'u \<Rightarrow> (pg_error, unit) res \<times> 'u"
where
  "run_rows f [] u = (Ok (), u)"
| "run_rows f (x # xs) u = (case f x u of (Inl e, u') \<Rightarrow> (Err e, u') | (Inr _, u') \<Rightarrow> run_rows f xs u')"

lemma run_rows_append:
  "run_rows f (xs @ ys) u = (case run_rows f xs u of (Inl e, u') \<Rightarrow> (Err e, u') | (Inr _, u') \<Rightarrow> run_rows f ys u')"
  by (induction xs arbitrary: u) (auto split: prod.splits sum.splits)

lemma break_line_None: "break_line s = None \<longleftrightarrow> LF \<notin> set s"
  by (induction s) auto

lemma break_line_Some: "break_line s = Some (l, r) \<Longrightarrow> s = l @ LF # r \<and> LF \<notin> set l"
  by (induction s arbitrary: l) (auto split: if_splits)

lemma lines_plain: "LF \<notin> set l \<Longrightarrow> complete_lines cur l = [] \<and> last_line cur l = cur @ l"
  by (induction l arbitrary: cur) auto

lemma lines_step: "LF \<notin> set l \<Longrightarrow>
    complete_lines cur (l @ LF # r) = (if cur @ l = [] then id else Cons (cur @ l)) (complete_lines [] r) \<and>
    last_line cur (l @ LF # r) = last_line [] r"
  by (induction l arbitrary: cur) auto

lemma lines_append:
  "complete_lines cur (s @ t) = complete_lines cur s @ complete_lines (last_line cur s) t"
  "last_line cur (s @ t) = last_line (last_line cur s) t"
  by (induction s arbitrary: cur) auto

lemma lines_cur: "LF \<notin> set cur \<Longrightarrow> complete_lines [] (cur @ s) = complete_lines cur s \<and> last_line [] (cur @ s) = last_line cur s"
  using lines_append [of "[]" cur s] lines_plain [of cur "[]"] by simp

lemma last_line_no_LF: "LF \<notin> set cur \<Longrightarrow> LF \<notin> set (last_line cur s)"
  by (induction s arbitrary: cur) auto

lemma drain_lines_rows:
  "run_rows f (map parse (complete_lines [] buffer)) u = (r, u') \<Longrightarrow>
   \<exists>b. drain_lines parse f buffer u = (r, b, u') \<and> (r = Inr () \<longrightarrow> b = last_line [] buffer)"
proof (induction parse f buffer u rule: drain_lines.induct)
  case (1 parse f buffer u)
  show ?case
  proof (cases "break_line buffer")
    case None
    then have "LF \<notin> set buffer" by (simp add: break_line_None)
    from lines_plain [OF this, of "[]"] show ?thesis using "1.prems"
      by (subst drain_lines.simps) (simp add: None)
  next
    case (Some p)
    obtain l s where p: "p = (l, s)" by fastforce
    have b: "complete_lines [] buffer = (if l = [] then id else Cons l) (complete_lines [] s)"
        "last_line [] buffer = last_line [] s"
      using break_line_Some [of buffer l s] Some p lines_step [of l "[]" s] by auto
    show ?thesis
    proof (cases "l = []")
      case True
      then show ?thesis using "1.IH"(1) [OF Some p [symmetric] True] "1.prems" b Some p
        by (subst drain_lines.simps) simp
    next
      case False
      obtain x v where fx: "f (parse l) u = (x, v)" by fastforce
      show ?thesis
      proof (cases x)
        case (Inl e)
        then show ?thesis using False b Some p fx "1.prems" by (subst drain_lines.simps) auto
      next
        case (Inr y)
        then show ?thesis using "1.IH"(2) [OF Some p [symmetric] False fx [symmetric], of y] "1.prems" False b Some p fx
          by (subst drain_lines.simps) auto
      qed
    qed
  qed
qed

subsection \<open>Lemmas: chunks\<close>

definition copy_messages :: "bytes list \<Rightarrow> string \<Rightarrow> backend_message list" where
  "copy_messages chunks tag = map CopyData chunks @ [CopyDone, CommandComplete (Inr tag)]"

lemma copy_sync [simp]: "\<not> is_async (CopyData d)" "\<not> is_async CopyDone"
  "\<not> is_async (CopyInResponse f r)" "\<not> is_async (CopyOutResponse f r)"
  by (simp_all add: is_async_def)

lemma read_next_chunk:
  assumes "interleaved ms (CopyData d # ts)" "inbox c = map Inr ms @ rest"
  shows "\<exists>pre ms' c1. ms = pre @ ms' \<and> interleaved ms' ts \<and> passed c c1 (map Inr pre) \<and>
     copy_read_next cp c = (Ret (Ok (Some d)), cp, c1) \<and> inbox c1 = map Inr ms' @ rest"
  using read_replies_stop [of ms "[]" "CopyData d" ts read_next_step "(cp, None)" "(cp, None)" "(cp, Some d)" c rest] assms
  by (fastforce simp: copy_read_next_def)

lemma read_next_end:
  assumes "interleaved ms [CopyDone, CommandComplete (Inr tag), ReadyForQuery b]" "inbox c = map Inr ms @ rest"
  shows "\<exists>c'. copy_read_next cp c = (Ret (Ok None), cp\<lparr>cp_done := True\<rparr>, c') \<and> answered c c' (map Inr ms) rest b"
proof -
  have i: "interleaved ms ([CopyDone, CommandComplete (Inr tag)] @ [ReadyForQuery b])"
      "\<forall>m\<in>set [CopyDone, CommandComplete (Inr tag)]. \<not> is_async m"
      "feed read_next_step [CopyDone, CommandComplete (Inr tag)] (cp, None) = Some (cp, None)"
    using assms(1) by simp_all
  from read_next_reply.reads_reply [OF i assms(2)] obtain c' where
    "read_replies read_next_step (cp, None) c = (Ret (Ok ()), (cp\<lparr>cp_done := True\<rparr>, None), c')"
    "answered c (c'\<lparr>state := Idle\<rparr>) (map Inr ms) rest b" "state c' = Idle" by auto
  then show ?thesis by (intro exI [of _ c']) (simp add: copy_read_next_def answered_def)
qed

text \<open>The loop over a copy the server sends in \<open>chunks\<close>: the body sees them all, or up to its first error.\<close>

lemma read_loop_chunks:
  assumes "interleaved ms (copy_messages chunks tag @ [ReadyForQuery b])" "inbox c = map Inr ms @ rest"
    and "run_rows body chunks v = (r, v')"
  shows "\<exists>cp' c'. read_loop body cp c v = (Ret r, cp', c', v') \<and>
     (r = Ok () \<longrightarrow> cp' = cp\<lparr>cp_done := True\<rparr> \<and> answered c c' (map Inr ms) rest b)"
  using assms
proof (induction chunks arbitrary: ms c v)
  case Nil
  then obtain c' where "copy_read_next cp c = (Ret (Ok None), cp\<lparr>cp_done := True\<rparr>, c')"
      "answered c c' (map Inr ms) rest b"
    using read_next_end [of ms tag b c rest cp] by (auto simp: copy_messages_def)
  then show ?case using Nil.prems(3) by (subst read_loop.simps) simp
next
  case (Cons d chunks)
  have i: "interleaved ms (CopyData d # copy_messages chunks tag @ [ReadyForQuery b])"
    using Cons.prems(1) by (simp add: copy_messages_def)
  from read_next_chunk [OF i Cons.prems(2), of cp] obtain pre ms' c1 where
    c1: "ms = pre @ ms'" "interleaved ms' (copy_messages chunks tag @ [ReadyForQuery b])" "passed c c1 (map Inr pre)"
      "copy_read_next cp c = (Ret (Ok (Some d)), cp, c1)" "inbox c1 = map Inr ms' @ rest" by auto
  obtain x v1 where b: "body d v = (x, v1)" by fastforce
  show ?case
  proof (cases x)
    case (Inl e)
    then show ?thesis using Cons.prems(3) b c1(4) by (subst read_loop.simps) auto
  next
    case (Inr y)
    then have "run_rows body chunks v1 = (r, v')" using Cons.prems(3) b by simp
    from Cons.IH [OF c1(2,5) this] obtain cp' c' where
      "read_loop body cp c1 v1 = (Ret r, cp', c', v')"
      "r = Ok () \<longrightarrow> cp' = cp\<lparr>cp_done := True\<rparr> \<and> answered c1 c' (map Inr ms') rest b" by blast
    moreover have "read_loop body cp c v = read_loop body cp c1 v1"
      using c1(4) b Inr by (subst read_loop.simps) simp
    ultimately show ?thesis using c1(1) passed_answered [OF c1(3)] by auto
  qed
qed

text \<open>The rows of a copied text: its non-empty lines, the last one without its trailing white space.\<close>

definition text_rows :: "string \<Rightarrow> string list" where
  "text_rows text = complete_lines [] text @
     (let l = trim_end (last_line [] text) in if l = [] then [] else [l])"

lemma run_rows_chunks:
  assumes "LF \<notin> set buffer"
    and "run_rows f (map parse (complete_lines buffer (concat (map lossy chunks)))) u = (r, u')"
  shows "\<exists>b. run_rows (\<lambda>chunk (buffer, u). drain_lines parse f (buffer @ lossy chunk) u) chunks (buffer, u) = (r, b, u') \<and>
     (r = Ok () \<longrightarrow> b = last_line buffer (concat (map lossy chunks)))"
  using assms
proof (induction chunks arbitrary: buffer u)
  case (Cons d chunks)
  let ?t = "concat (map lossy chunks)" and ?b = "last_line buffer (lossy d)"
  obtain r1 u1 where r1: "run_rows f (map parse (complete_lines buffer (lossy d))) u = (r1, u1)" by fastforce
  obtain b1 where b1: "drain_lines parse f (buffer @ lossy d) u = (r1, b1, u1)" "r1 = Ok () \<longrightarrow> b1 = ?b"
    using drain_lines_rows [of f parse "buffer @ lossy d" u r1 u1] lines_cur [OF Cons.prems(1)] r1 by auto
  show ?case
  proof (cases r1)
    case (Inl e)
    then show ?thesis using Cons.prems(2) r1 b1 by (auto simp: lines_append run_rows_append)
  next
    case (Inr x)
    then have "run_rows f (map parse (complete_lines ?b ?t)) u1 = (r, u')"
      using Cons.prems(2) r1 by (simp add: lines_append run_rows_append)
    from Cons.IH [OF last_line_no_LF [OF Cons.prems(1)] this] show ?thesis
      using b1 Inr by (auto simp: lines_append)
  qed
qed simp

lemma for_each_line_rows:
  assumes ms: "interleaved ms (copy_messages chunks tag @ [ReadyForQuery b])" "inbox c = map Inr ms @ rest"
    and r: "run_rows f (map parse (text_rows (concat (map lossy chunks)))) u = (r, u')"
  shows "\<exists>cp' c'. for_each_line lossy parse f cp c u = (Ret r, cp', c', u') \<and>
     (r = Ok () \<longrightarrow> cp_done cp' \<and> answered c c' (map Inr ms) rest b)"
proof -
  let ?t = "concat (map lossy chunks)"
  obtain r1 u1 where r1: "run_rows f (map parse (complete_lines [] ?t)) u = (r1, u1)" by fastforce
  have r': "(case r1 of Inl e \<Rightarrow> (Err e, u1)
     | Inr _ \<Rightarrow> run_rows f (map parse (let l = trim_end (last_line [] ?t) in if l = [] then [] else [l])) u1) = (r, u')"
    using r r1 by (simp add: text_rows_def run_rows_append)
  obtain bf where b: "run_rows (\<lambda>chunk (buffer, u). drain_lines parse f (buffer @ lossy chunk) u) chunks ([], u) = (r1, bf, u1)"
      "r1 = Ok () \<longrightarrow> bf = last_line [] ?t"
    using run_rows_chunks [of "[]" f parse lossy chunks u r1 u1] r1 by auto
  from read_loop_chunks [OF ms b(1), of cp] obtain cp' c' where
    l: "read_loop (\<lambda>chunk (buffer, u). drain_lines parse f (buffer @ lossy chunk) u) cp c ([], u) = (Ret r1, cp', c', bf, u1)"
      "r1 = Ok () \<longrightarrow> cp' = cp\<lparr>cp_done := True\<rparr> \<and> answered c c' (map Inr ms) rest b" by blast
  show ?thesis
  proof (cases r1)
    case (Inl e)
    then show ?thesis using l r' by (auto simp: for_each_line_def)
  next
    case (Inr x)
    then show ?thesis using l b(2) r'
      by (cases "f (parse (trim_end (last_line [] ?t))) u1")
        (auto simp: for_each_line_def Let_def split: if_splits sum.splits)
  qed
qed

subsection \<open>Lemmas: starting, writing, finishing\<close>

lemma start_copy_ok:
  assumes "state c = Idle" "write_faults c = []" "st \<in> set active_states" "\<not> is_async t"
    and "h t None = Stop (\<lambda>c. (Ret (Ok ()), Some cp, c))"
    and "interleaved ms [t]" "inbox c = map Inr ms @ rest"
  shows "\<exists>c1. start_copy st h sql c = (Ret (Ok cp), c1) \<and>
     passed (sent (c\<lparr>state := st\<rparr>) [Query sql]) c1 (map Inr ms) \<and> inbox c1 = rest"
proof -
  let ?c = "sent (c\<lparr>state := st\<rparr>) [Query sql]"
  have "inbox ?c = map Inr ms @ rest" using assms(7) by simp
  then obtain c1 where c1: "passed ?c c1 (map Inr ms)" "read_replies h None ?c = (Ret (Ok ()), Some cp, c1)" "inbox c1 = rest"
    using read_replies_stop [of ms "[]" t "[]" h None None "Some cp" ?c rest] assms(4-6) by auto
  have "start_copy st h sql c = (Ret (Ok cp), c1)"
    using assms(1-3) c1(2) by (simp add: start_copy_def bindc_def transition_Idle_active send_c_ok retc_def)
  then show ?thesis using c1 by blast
qed

primrec copy_writes :: "bytes list \<Rightarrow> unit cm" where
  "copy_writes [] = retc ()"
| "copy_writes (d # ds) = bindc (copy_write d) (\<lambda>_. copy_writes ds)"

lemma copy_writes_ok:
  "write_faults c = [] \<Longrightarrow> copy_writes ds c = (Ret (Ok ()), sent c (map FCopyData ds))"
proof (induction ds arbitrary: c)
  case (Cons d ds)
  then show ?case using Cons.IH [of "sent c [FCopyData d]"] by (simp add: copy_write_def send_c_ok bindc_simps(1))
qed (simp add: retc_def)

definition copied_rows :: "string \<Rightarrow> nat" where
  "copied_rows tag = (case rows_affected tag of None \<Rightarrow> 0 | Some n \<Rightarrow> n)"

lemma copy_finish_ok:
  assumes "write_faults c = []" "interleaved ms [CommandComplete (Inr tag), ReadyForQuery b]" "inbox c = map Inr ms @ rest"
  shows "\<exists>c'. copy_finish io cp c = (Ret (Ok (copied_rows tag)), c') \<and>
     answered (sent c [FCopyDone]) c' (map Inr ms) rest b"
proof -
  let ?c = "sent c [FCopyDone]"
  have i: "interleaved ms ([CommandComplete (Inr tag)] @ [ReadyForQuery b])"
      "\<forall>m\<in>set [CommandComplete (Inr tag)]. \<not> is_async m" "inbox ?c = map Inr ms @ rest"
      "feed copy_finish_step [CommandComplete (Inr tag)] (cp, 0) = Some (cp, copied_rows tag)"
    using assms(2,3) by (simp_all add: copied_rows_def unwrap_or_empty_def)
  from copy_finish_reply.reads_reply [OF i(1,2,4,3)] obtain c' where
    "read_replies copy_finish_step (cp, 0) ?c = (Ret (Ok ()), (cp\<lparr>cp_done := True\<rparr>, copied_rows tag), c')"
    "answered ?c (c'\<lparr>state := Idle\<rparr>) (map Inr ms) rest b" "state c' = Idle" by auto
  then show ?thesis using assms(1)
    by (intro exI [of _ c']) (simp add: copy_finish_def send_c_ok drop_copy_in_def answered_def)
qed

lemma copy_finish_error:
  assumes "write_faults c = []" "interleaved ms [ErrorResponse body, ReadyForQuery b]" "inbox c = map Inr ms @ rest"
    and "from_error_body body = Inr se"
  shows "\<exists>c'. copy_finish io cp c = (Ret (Err (PgServer se)), c') \<and>
     answered (sent c [FCopyDone]) c' (map Inr ms) rest b"
proof -
  let ?c = "sent c [FCopyDone]"
  have i: "interleaved ms ([] @ [ErrorResponse body, ReadyForQuery b])" "\<forall>m\<in>set ([] :: backend_message list). \<not> is_async m"
      "feed copy_finish_step [] (cp, 0) = Some (cp, 0)" "inbox ?c = map Inr ms @ rest"
    using assms(2,3) by simp_all
  from copy_finish_reply.reads_error [OF i assms(4)] show ?thesis using assms(1)
    by (auto simp: copy_finish_def send_c_ok drop_copy_in_def)
qed

subsection \<open>The binary format\<close>

record binary_copy_writer =
  bw_buf :: bytes
  bw_column_count :: int
  header_written :: bool

definition binary_new :: "int \<Rightarrow> binary_copy_writer" where
  "binary_new n = \<lparr> bw_buf = [], bw_column_count = n, header_written = False \<rparr>"

definition copy_magic :: bytes where
  "copy_magic = bytes_of ''PGCOPY'' @ [0x0A, 0xFF, 0x0D, 0x0A, 0]"

definition binary_header :: "binary_copy_writer \<Rightarrow> bytes \<times> binary_copy_writer" where
  "binary_header w =
     (if header_written w then ([], w)
      else (let buf = copy_magic @ be_sint 4 0 @ be_sint 4 0
            in (buf, w\<lparr>bw_buf := buf, header_written := True\<rparr>)))"

text \<open>\<open>n as i16\<close>, and the encoding of one field.\<close>

definition wrap_sint :: "nat \<Rightarrow> int \<Rightarrow> int" where
  "wrap_sint k n = from_be_sint k (be_sint k n)"

fun encode_field :: "bytes option \<Rightarrow> bytes" where
  "encode_field (Some data) = be_sint 4 (int (length data)) @ data"
| "encode_field None = be_sint 4 (-1)"

text \<open>\<open>None\<close> is the panic of the assertion.\<close>

definition binary_write_row :: "bytes option list \<Rightarrow> binary_copy_writer \<Rightarrow> (bytes \<times> binary_copy_writer) option" where
  "binary_write_row vals w =
     (if wrap_sint 2 (int (length vals)) \<noteq> bw_column_count w then None
      else (let r = be_sint 2 (bw_column_count w) @ concat (map encode_field vals)
            in Some (r, w\<lparr>bw_buf := bw_buf w @ r\<rparr>)))"

definition binary_trailer :: "binary_copy_writer \<Rightarrow> bytes \<times> binary_copy_writer" where
  "binary_trailer w = (be_sint 2 (-1), w\<lparr>bw_buf := bw_buf w @ be_sint 2 (-1)\<rparr>)"

definition binary_clear :: "binary_copy_writer \<Rightarrow> binary_copy_writer" where
  "binary_clear w = w\<lparr>bw_buf := [], header_written := False\<rparr>"

fun binary_write_rows :: "bytes option list list \<Rightarrow> binary_copy_writer \<Rightarrow> binary_copy_writer option" where
  "binary_write_rows [] w = Some w"
| "binary_write_rows (r # rs) w = Option.bind (binary_write_row r w) (\<lambda>(_, w'). binary_write_rows rs w')"

text \<open>The reader of the format documentation: fields of a tuple, tuples up to the trailer.\<close>

fun decode_fields :: "nat \<Rightarrow> bytes \<Rightarrow> (bytes option list \<times> bytes) option" where
  "decode_fields 0 bs = Some ([], bs)"
| "decode_fields (Suc n) bs =
     (if length bs < 4 then None
      else (let len = from_be_sint 4 (take 4 bs); rest = drop 4 bs in
        if len = -1 then map_option (\<lambda>(fs, r). (None # fs, r)) (decode_fields n rest)
        else if len < 0 \<or> length rest < nat len then None
        else map_option (\<lambda>(fs, r). (Some (take (nat len) rest) # fs, r)) (decode_fields n (drop (nat len) rest))))"

fun decode_rows :: "nat \<Rightarrow> bytes \<Rightarrow> (bytes option list list \<times> bytes) option" where
  "decode_rows 0 bs = None"
| "decode_rows (Suc fuel) bs =
     (if length bs < 2 then None
      else (let n = from_be_sint 2 (take 2 bs) in
        if n = -1 then Some ([], drop 2 bs)
        else if n < 0 then None
        else Option.bind (decode_fields (nat n) (drop 2 bs)) (\<lambda>(fs, r).
               map_option (\<lambda>(rs, r'). (fs # rs, r')) (decode_rows fuel r))))"

definition decode_binary_copy :: "bytes \<Rightarrow> bytes option list list option" where
  "decode_binary_copy bs =
     (if take 11 bs = copy_magic \<and> take 8 (drop 11 bs) = be_sint 4 0 @ be_sint 4 0
      then (case decode_rows (length bs) (drop 19 bs) of Some (rs, []) \<Rightarrow> Some rs | _ \<Rightarrow> None)
      else None)"

definition field_fits :: "bytes option \<Rightarrow> bool" where
  "field_fits v = (case v of None \<Rightarrow> True | Some d \<Rightarrow> length d < 2 ^ 31)"

lemma decode_fields_encode:
  "\<forall>v\<in>set vals. field_fits v \<Longrightarrow> decode_fields (length vals) (concat (map encode_field vals) @ rest) = Some (vals, rest)"
proof (induction vals)
  case (Cons v vals)
  then show ?case by (cases v) (simp_all add: field_fits_def Let_def)
qed simp

lemma decode_rows_encode:
  assumes "n < 2 ^ 15" "\<forall>r\<in>set rs. length r = n \<and> (\<forall>v\<in>set r. field_fits v)" "length rs < fuel"
  shows "decode_rows fuel (concat (map (\<lambda>r. be_sint 2 (int n) @ concat (map encode_field r)) rs) @ be_sint 2 (-1)) = Some (rs, [])"
  using assms(2,3)
proof (induction rs arbitrary: fuel)
  case Nil
  then show ?case by (cases fuel) (simp_all add: Let_def)
next
  case (Cons r rs)
  then obtain k where k: "fuel = Suc k" "length rs < k" by (cases fuel) auto
  then show ?case using Cons.IH [of k] Cons.prems(1) assms(1) decode_fields_encode [of r]
    by (simp add: Let_def)
qed

lemma binary_write_rows_buf:
  assumes "n < 2 ^ 15" "bw_column_count w = int n" "\<forall>r\<in>set rs. length r = n"
  shows "\<exists>w'. binary_write_rows rs w = Some w' \<and> bw_column_count w' = int n \<and>
     bw_buf w' = bw_buf w @ concat (map (\<lambda>r. be_sint 2 (int n) @ concat (map encode_field r)) rs)"
  using assms(2,3)
proof (induction rs arbitrary: w)
  case (Cons r rs)
  let ?w = "w\<lparr>bw_buf := bw_buf w @ be_sint 2 (int n) @ concat (map encode_field r)\<rparr>"
  have "binary_write_rows (r # rs) w = binary_write_rows rs ?w"
    using Cons.prems assms(1) by (simp add: binary_write_row_def wrap_sint_def Let_def)
  then show ?case using Cons.IH [of ?w] Cons.prems by auto
qed simp

lemma binary_file:
  assumes "n < 2 ^ 15" "\<forall>r\<in>set rs. length r = n"
  shows "\<exists>w. binary_write_rows rs (snd (binary_header (binary_new (int n)))) = Some w \<and>
     bw_buf (snd (binary_trailer w)) = copy_magic @ be_sint 4 0 @ be_sint 4 0
       @ concat (map (\<lambda>r. be_sint 2 (int n) @ concat (map encode_field r)) rs) @ be_sint 2 (-1)"
  using binary_write_rows_buf [OF assms(1), of "snd (binary_header (binary_new (int n)))" rs] assms(2)
  by (auto simp: binary_header_def binary_new_def binary_trailer_def Let_def)

lemma copy_magic_length [simp]: "length copy_magic = 11"
  by (simp add: copy_magic_def bytes_of_def)

lemma concat_length_ge: "\<forall>r\<in>set rs. 1 \<le> length (g r) \<Longrightarrow> length rs \<le> length (concat (map g rs))"
  by (induction rs) fastforce+

subsection \<open>Properties\<close>



text \<open>
  A character whose two bytes come in two chunks reaches the callback as two replacement characters (\<open>lossy\<close>
  here knows just that character).
\<close>

lemma cut_character_corrupted:
  defines "lossy \<equiv> \<lambda>bs :: bytes. if bs = [0xC3, 0xA9] then [CHR 0xC3, CHR 0xA9] else [CHR 0xEF, CHR 0xBF, CHR 0xBD]"
  shows "\<exists>cp' c'. for_each_row lossy (\<lambda>row rows. (Ok (), rows @ [row])) cp
       (sample_connection (copy_messages [[0xC3], [0xA9]] ''COPY 1'' @ [ReadyForQuery CHR ''I''])) [] =
     (Ret (Ok ()), cp', c', [[[CHR 0xEF, CHR 0xBF, CHR 0xBD, CHR 0xEF, CHR 0xBF, CHR 0xBD]]])"
proof -
  let ?ms = "copy_messages [[0xC3], [0xA9]] ''COPY 1'' @ [ReadyForQuery CHR ''I'']"
  have i: "interleaved ?ms ?ms" by (simp add: copy_messages_def is_async_def)
  have r: "run_rows (\<lambda>row rows. (Ok (), rows @ [row])) (map (split_char TAB) (text_rows (concat (map lossy [[0xC3], [0xA9]])))) [] =
      (Ok (), [[[CHR 0xEF, CHR 0xBF, CHR 0xBD, CHR 0xEF, CHR 0xBF, CHR 0xBD]]])"
    by (simp add: lossy_def text_rows_def Let_def trim_end_def LF_def TAB_def is_cont_def is_whitespace_def)
  show ?thesis using for_each_line_rows [OF i _ r, of "sample_connection ?ms" "[]" cp] by (auto simp: for_each_row_def)
qed

text \<open>
  C19.  Copying in writes exactly the data and reports the server's count: \<open>copy_in\<close> sends the statement
  and enters the copy state, every write sends its bytes as one CopyData, and \<open>finish\<close> sends CopyDone and
  returns the number of rows of the command tag, or the server's error (for instance about malformed
  data); in both cases the connection is idle and in step, and dropping the writer does nothing.
\<close>

theorem copy_in_delivers:
  assumes "state c = Idle" "write_faults c = []"
    and "interleaved ms0 [CopyInResponse fmt (Inr fs)]" "interleaved ms [t, ReadyForQuery b]"
    and "inbox c = map Inr ms0 @ map Inr ms @ rest"
    and "(t = CommandComplete (Inr tag) \<and> out = Ok (case rows_affected tag of None \<Rightarrow> 0 | Some n \<Rightarrow> n)) \<or>
         (t = ErrorResponse body \<and> from_error_body body = Inr se \<and> out = Err (PgServer se))"
  shows "\<exists>cp c1 c2 c3. copy_in sql c = (Ret (Ok cp), c1) \<and> state c1 = CopyIn \<and>
     copy_writes ds c1 = (Ret (Ok ()), c2) \<and> copy_finish io cp c2 = (Ret out, c3) \<and>
     answered (c\<lparr>outbox := outbox c @ [Query sql] @ map FCopyData ds @ [FCopyDone]\<rparr>) c3 (map Inr (ms0 @ ms)) rest b"
proof -
  let ?cp = "\<lparr> copy_format = fmt, column_formats = fs, cp_done = False \<rparr>"
  have st: "copy_in_step (CopyInResponse fmt (Inr fs)) None = Stop (\<lambda>c. (Ret (Ok ()), Some ?cp, c))"
    by (simp add: copy_in_step_def with_body_def)
  obtain c1 where c1: "copy_in sql c = (Ret (Ok ?cp), c1)"
      "passed (sent (c\<lparr>state := CopyIn\<rparr>) [Query sql]) c1 (map Inr ms0)" "inbox c1 = map Inr ms @ rest"
    using start_copy_ok [of c CopyIn "CopyInResponse fmt (Inr fs)" copy_in_step ?cp ms0 "map Inr ms @ rest" sql] assms st
    by (auto simp: copy_in_def active_states_def)
  let ?c2 = "sent c1 (map FCopyData ds)"
  have w: "write_faults c1 = []" "write_faults ?c2 = []" "inbox ?c2 = map Inr ms @ rest"
    using c1(2,3) assms(2) by (simp_all add: passed_def)
  have "\<exists>c3. copy_finish io ?cp ?c2 = (Ret out, c3) \<and> answered (sent ?c2 [FCopyDone]) c3 (map Inr ms) rest b"
    using assms(4,6) copy_finish_ok [OF w(2) _ w(3), of tag b io ?cp] copy_finish_error [OF w(2) _ w(3), of body b se io ?cp]
    by (auto simp: copied_rows_def)
  then obtain c3 where "copy_finish io ?cp ?c2 = (Ret out, c3)" "answered (sent ?c2 [FCopyDone]) c3 (map Inr ms) rest b" by blast
  then show ?thesis using c1 copy_writes_ok [OF w(1), of ds]
    by (intro exI [of _ ?cp] exI [of _ c1] exI [of _ ?c2] exI [of _ c3]) (simp add: passed_def answered_def)
qed

theorem copy_in_delivers_witness:
  "\<exists>cp c1 c2 c3. copy_in ''COPY t FROM STDIN'' (sample_connection
       [CopyInResponse 0 (Ok [0]), CommandComplete (Ok ''COPY 1''), ReadyForQuery CHR ''I'']) = (Ret (Ok cp), c1) \<and>
     copy_writes [[49, 10]] c1 = (Ret (Ok ()), c2) \<and>
     copy_finish no_sync_io cp c2 = (Ret (Ok (case rows_affected ''COPY 1'' of None \<Rightarrow> 0 | Some n \<Rightarrow> n)), c3) \<and> state c3 = Idle \<and>
     outbox c3 = [Query ''COPY t FROM STDIN'', FCopyData [49, 10], FCopyDone]"
proof -
  let ?start = "[CopyInResponse 0 (Ok [0])]" and ?ms = "[CommandComplete (Ok ''COPY 1''), ReadyForQuery CHR ''I'']"
  have "interleaved ?start ?start" "interleaved ?ms ?ms" by simp_all
  from copy_in_delivers [OF _ _ this, of "sample_connection (?start @ ?ms)" "[]" "''COPY 1''" _ "[]" default_server_error
      "''COPY t FROM STDIN''" "[[49, 10]]" no_sync_io]
  show ?thesis by (auto simp: answered_def)
qed

text \<open>
  C35.  Binary copy round trip: header, rows and trailer written by \<open>BinaryCopyWriter\<close> for any rows of the
  declared width (fewer than 32768 columns, fields shorter than 2 GiB) form a file that a reader of the
  documented format decodes to exactly those rows, NULLs and empty fields kept apart.
\<close>

theorem binary_copy_round_trip:
  assumes "n < 2 ^ 15" "\<forall>r\<in>set rs. length r = n \<and> (\<forall>v\<in>set r. field_fits v)"
  shows "\<exists>w. binary_write_rows rs (snd (binary_header (binary_new (int n)))) = Some w \<and>
     decode_binary_copy (bw_buf (snd (binary_trailer w))) = Some rs"
proof -
  let ?rows = "concat (map (\<lambda>r. be_sint 2 (int n) @ concat (map encode_field r)) rs)"
  obtain w where w: "binary_write_rows rs (snd (binary_header (binary_new (int n)))) = Some w"
      "bw_buf (snd (binary_trailer w)) = copy_magic @ be_sint 4 0 @ be_sint 4 0 @ ?rows @ be_sint 2 (-1)"
    using binary_file [OF assms(1), of rs] assms(2) by auto
  have "length rs \<le> length ?rows" by (rule concat_length_ge) simp
  then have "length rs < length (bw_buf (snd (binary_trailer w)))" by (simp add: w(2))
  from decode_rows_encode [OF assms this] show ?thesis using w by (simp add: decode_binary_copy_def)
qed

theorem binary_copy_round_trip_witness:
  "\<exists>w. binary_write_rows [[Some [1, 2], None], [Some [], Some [3]]] (snd (binary_header (binary_new (int 2)))) = Some w \<and>
     decode_binary_copy (bw_buf (snd (binary_trailer w))) = Some [[Some [1, 2], None], [Some [], Some [3]]]"
  by (rule binary_copy_round_trip) (simp_all add: field_fits_def)

text \<open>
  Dropping an unfinished copy without blocking sockets (every build but the native test one) closes
  the connection, so that no later request can misread the rest of the copy.
\<close>

lemma dropped_copy_closes:
  "\<not> cp_done cp \<Longrightarrow> state (drop_copy_in no_sync_io cp c) = Closed \<and> state (drop_copy_out no_sync_io cp c) = Closed"
  by (simp add: drop_copy_in_def drop_copy_out_def cancel_copy_in_sync_def drain_copy_out_sync_def no_sync_io_def)

text \<open>
  The byte scanner of the native build looks at the first \<open>Z\<close> only: when copied data before
  \<open>ReadyForQuery\<close> contains that byte, the message is not found.
\<close>

lemma drain_misses_ready: "\<not> try_sync_drain [] [Some [0x5A, 0x31, 0x5A, 0, 0, 0, 5, 0x49], Some []]"
proof -
  have "\<not> scan_ready []" "\<not> scan_ready [0x5A, 0x31, 0x5A, 0, 0, 0, 5, 0x49]"
    by (simp_all add: scan_ready_def from_be_sint_def from_be_def Let_def)
  then show ?thesis by (subst try_sync_drain.simps, subst try_sync_drain.simps) simp
qed

end
