(* ===== verification/Type_Codec.thy ===== *)
theory Type_Codec
  imports Extended_Query
begin

text \<open>
  The \<open>ToSql\<close> and \<open>FromSql\<close> instances of \<open>types/encode.rs\<close> and \<open>types/decode.rs\<close> for booleans, integers,
  strings, byte arrays and options.  The binary decoders of \<open>postgres_protocol::types\<close> are the record
  \<open>value_lib\<close>; the display texts of the standard library's parse errors are the record \<open>std_messages\<close>.
  The floating-point instances and those of the third-party types are in \<open>Extern_Types\<close>.
\<close>

record value_lib =
  bool_from_sql :: "bytes \<Rightarrow> (string, bool) res"
  char_from_sql :: "bytes \<Rightarrow> (string, int) res"
  int2_from_sql :: "bytes \<Rightarrow> (string, int) res"
  int4_from_sql :: "bytes \<Rightarrow> (string, int) res"
  int8_from_sql :: "bytes \<Rightarrow> (string, int) res"
  oid_from_sql :: "bytes \<Rightarrow> (string, nat) res"
  text_from_sql :: "bytes \<Rightarrow> (string, string) res"
  bytea_from_sql :: "bytes \<Rightarrow> bytes"

record std_messages =
  utf8_message :: "bytes \<Rightarrow> string"
  int_message :: "string \<Rightarrow> string"

subsection \<open>UTF-8\<close>

definition cont_byte :: "nat \<Rightarrow> nat \<Rightarrow> byte \<Rightarrow> bool" where
  "cont_byte lo hi b = (lo \<le> unat b \<and> unat b \<le> hi)"

text \<open>\<open>std::str::from_utf8\<close>: well-formed sequences without overlong forms and surrogates.\<close>

fun valid_utf8 :: "bytes \<Rightarrow> bool" where
  "valid_utf8 [] = True"
| "valid_utf8 (a # bs) =
     (if unat a < 0x80 then valid_utf8 bs
      else if 0xC2 \<le> unat a \<and> unat a \<le> 0xDF then
        (case bs of b # bs' \<Rightarrow> cont_byte 0x80 0xBF b \<and> valid_utf8 bs' | [] \<Rightarrow> False)
      else if 0xE0 \<le> unat a \<and> unat a \<le> 0xEF then
        (case bs of
           b # c # bs' \<Rightarrow>
             cont_byte (if unat a = 0xE0 then 0xA0 else 0x80) (if unat a = 0xED then 0x9F else 0xBF) b \<and>
             cont_byte 0x80 0xBF c \<and> valid_utf8 bs'
         | _ \<Rightarrow> False)
      else if 0xF0 \<le> unat a \<and> unat a \<le> 0xF4 then
        (case bs of
           b # c # d # bs' \<Rightarrow>
             cont_byte (if unat a = 0xF0 then 0x90 else 0x80) (if unat a = 0xF4 then 0x8F else 0xBF) b \<and>
             cont_byte 0x80 0xBF c \<and> cont_byte 0x80 0xBF d \<and> valid_utf8 bs'
         | _ \<Rightarrow> False)
      else False)"

definition from_utf8 :: "std_messages \<Rightarrow> bytes \<Rightarrow> (type_error, string) res" where
  "from_utf8 ms bs = (if valid_utf8 bs then Ok (string_of bs) else Err (Utf8Error (utf8_message ms bs)))"

subsection \<open>Encoding\<close>

definition bool_to_sql :: "bool \<Rightarrow> to_sql" where
  "bool_to_sql v ty f = Ok (Some (case f of
     Text \<Rightarrow> bytes_of (if v then ''t'' else ''f'') | Binary \<Rightarrow> [if v then 1 else 0]))"

text \<open>\<open>i8\<close>, \<open>i16\<close>, \<open>i32\<close> and \<open>i64\<close> with 1, 2, 4 and 8 bytes.\<close>

definition int_to_sql :: "nat \<Rightarrow> int \<Rightarrow> to_sql" where
  "int_to_sql k v ty f = Ok (Some (case f of Text \<Rightarrow> bytes_of (show_int v) | Binary \<Rightarrow> be_sint k v))"

definition u32_to_sql :: "nat \<Rightarrow> to_sql" where
  "u32_to_sql v ty f = Ok (Some (case f of Text \<Rightarrow> bytes_of (show_nat v) | Binary \<Rightarrow> be_bytes 4 v))"

definition string_to_sql :: "string \<Rightarrow> to_sql" where
  "string_to_sql v ty f = Ok (Some (bytes_of v))"

definition hex_digit :: "byte \<Rightarrow> byte" where
  "hex_digit n = (if n \<le> 9 then 0x30 + n else if n \<le> 15 then 0x41 + (n - 10) else 0x30)"

definition hex_pair :: "byte \<Rightarrow> bytes" where
  "hex_pair b = [hex_digit (drop_bit 4 b), hex_digit (and b 0x0F)]"

definition bytea_to_sql :: "bytes \<Rightarrow> to_sql" where
  "bytea_to_sql v ty f = Ok (Some (case f of
     Text \<Rightarrow> [0x5C, 0x78] @ concat (map hex_pair v) | Binary \<Rightarrow> v))"

definition option_to_sql :: "('a \<Rightarrow> to_sql) \<Rightarrow> 'a option \<Rightarrow> to_sql" where
  "option_to_sql enc v ty f = (case v of Some x \<Rightarrow> enc x ty f | None \<Rightarrow> Ok None)"

subsection \<open>Decoding\<close>

definition unexpected_null :: "(type_error, 'a) res" where
  "unexpected_null = Err (Conversion ''unexpected NULL'')"

text \<open>\<open>char::to_digit(16)\<close>.\<close>

definition to_digit16 :: "char \<Rightarrow> nat option" where
  "to_digit16 ch =
     (let n = of_char ch in
      if 48 \<le> n \<and> n \<le> 57 then Some (n - 48)
      else if 65 \<le> n \<and> n \<le> 70 then Some (n - 55)
      else if 97 \<le> n \<and> n \<le> 102 then Some (n - 87) else None)"

text \<open>\<open>char::to_digit(16)\<close> on the bytes of a character.\<close>

definition hex_digit_of :: "string \<Rightarrow> nat option" where
  "hex_digit_of w = (case w of [ch] \<Rightarrow> to_digit16 ch | _ \<Rightarrow> None)"

fun decode_hex_pairs :: "string list \<Rightarrow> (type_error, bytes) res" where
  "decode_hex_pairs (h # l # s) =
     (case hex_digit_of h of
        None \<Rightarrow> Err (Conversion (''invalid hex char: '' @ h))
      | Some hi \<Rightarrow>
          (case hex_digit_of l of
             None \<Rightarrow> Err (Conversion (''invalid hex char: '' @ l))
           | Some lo \<Rightarrow> bind_res (decode_hex_pairs s) (\<lambda>bs. Ok (of_nat (hi * 16 + lo) # bs))))"
| "decode_hex_pairs _ = Ok []"

definition decode_hex :: "string \<Rightarrow> (type_error, bytes) res" where
  "decode_hex s =
     (let chars = filter (\<lambda>ch. \<not> is_whitespace ch) (utf8_chars s) in
      if odd (length chars) then Err (InvalidDataFormat ''hex string has an odd number of digits'')
      else decode_hex_pairs chars)"

definition is_octal :: "byte \<Rightarrow> bool" where
  "is_octal b = (0x30 \<le> b \<and> b \<le> 0x37)"

fun decode_bytea_escape :: "bytes \<Rightarrow> (type_error, bytes) res" where
  "decode_bytea_escape [] = Ok []"
| "decode_bytea_escape (a # bs) =
     (if a \<noteq> 0x5C then bind_res (decode_bytea_escape bs) (\<lambda>rs. Ok (a # rs))
      else
        (case bs of
           [] \<Rightarrow> Err (InvalidDataFormat ''trailing backslash in bytea escape format'')
         | e # bs' \<Rightarrow>
             if e = 0x5C then bind_res (decode_bytea_escape bs') (\<lambda>rs. Ok (0x5C # rs))
             else if is_octal e then
               (case bs' of
                  o1 # o2 # bs'' \<Rightarrow>
                    if is_octal o1 \<and> is_octal o2 then
                      bind_res (decode_bytea_escape bs'') (\<lambda>rs.
                        Ok (or (or (push_bit 6 (e - 0x30)) (push_bit 3 (o1 - 0x30))) (o2 - 0x30) # rs))
                    else Err (InvalidDataFormat ''invalid octal escape in bytea text format'')
                | _ \<Rightarrow> Err (InvalidDataFormat ''incomplete octal escape in bytea text format''))
             else Err (InvalidDataFormat (''invalid bytea escape sequence: '' @ [CHR 0x5C] @ latin1_utf8 (unat e)))))"

definition as_text :: "std_messages \<Rightarrow> bytes option \<Rightarrow> (type_error, string) res" where
  "as_text ms raw = (case raw of Some b \<Rightarrow> from_utf8 ms b | None \<Rightarrow> unexpected_null)"

text \<open>\<open>types::...from_sql(raw.ok_or_else(...)?).map_err(...)\<close>\<close>

definition binary_from_sql :: "(bytes \<Rightarrow> (string, 'a) res) \<Rightarrow> bytes option \<Rightarrow> (type_error, 'a) res" where
  "binary_from_sql dec raw = (case raw of None \<Rightarrow> unexpected_null | Some b \<Rightarrow> map_err Conversion (dec b))"

definition sql_bool :: "value_lib \<Rightarrow> std_messages \<Rightarrow> nat \<Rightarrow> bytes option \<Rightarrow> format_code \<Rightarrow> (type_error, bool) res" where
  "sql_bool l ms ty raw f = (case f of
     Text \<Rightarrow> bind_res (as_text ms raw) (\<lambda>s.
       if s \<in> set [''t'', ''true'', ''TRUE'', ''True'', ''1'', ''yes'', ''YES'', ''on'', ''ON''] then Ok True
       else if s \<in> set [''f'', ''false'', ''FALSE'', ''False'', ''0'', ''no'', ''NO'', ''off'', ''OFF''] then Ok False
       else Err (Conversion (''invalid bool text: '' @ s)))
   | Binary \<Rightarrow> binary_from_sql (bool_from_sql l) raw)"

definition parse_int_text ::
  "(string \<Rightarrow> 'a option) \<Rightarrow> (string \<Rightarrow> type_error) \<Rightarrow> std_messages \<Rightarrow> bytes option \<Rightarrow> (type_error, 'a) res"
where
  "parse_int_text parse err ms raw = bind_res (as_text ms raw) (\<lambda>s.
     case parse s of Some v \<Rightarrow> Ok v | None \<Rightarrow> Err (err (int_message ms s)))"

definition sql_i8 :: "value_lib \<Rightarrow> std_messages \<Rightarrow> nat \<Rightarrow> bytes option \<Rightarrow> format_code \<Rightarrow> (type_error, int) res" where
  "sql_i8 l ms ty raw f = (case f of
     Text \<Rightarrow> parse_int_text (parse_sint (-(2 ^ 7)) (2 ^ 7 - 1)) ParseIntError ms raw
   | Binary \<Rightarrow> binary_from_sql (char_from_sql l) raw)"

definition sql_i16 :: "value_lib \<Rightarrow> std_messages \<Rightarrow> nat \<Rightarrow> bytes option \<Rightarrow> format_code \<Rightarrow> (type_error, int) res" where
  "sql_i16 l ms ty raw f = (case f of
     Text \<Rightarrow> parse_int_text (parse_sint (-(2 ^ 15)) (2 ^ 15 - 1)) ParseIntError ms raw
   | Binary \<Rightarrow> binary_from_sql (int2_from_sql l) raw)"

definition sql_i32 :: "value_lib \<Rightarrow> std_messages \<Rightarrow> nat \<Rightarrow> bytes option \<Rightarrow> format_code \<Rightarrow> (type_error, int) res" where
  "sql_i32 l ms ty raw f = (case f of
     Text \<Rightarrow> parse_int_text (parse_sint (-(2 ^ 31)) (2 ^ 31 - 1)) ParseIntError ms raw
   | Binary \<Rightarrow> binary_from_sql (int4_from_sql l) raw)"

definition sql_i64 :: "value_lib \<Rightarrow> std_messages \<Rightarrow> nat \<Rightarrow> bytes option \<Rightarrow> format_code \<Rightarrow> (type_error, int) res" where
  "sql_i64 l ms ty raw f = (case f of
     Text \<Rightarrow> parse_int_text (parse_sint (-(2 ^ 63)) (2 ^ 63 - 1)) Conversion ms raw
   | Binary \<Rightarrow> binary_from_sql (int8_from_sql l) raw)"

definition sql_u32 :: "value_lib \<Rightarrow> std_messages \<Rightarrow> nat \<Rightarrow> bytes option \<Rightarrow> format_code \<Rightarrow> (type_error, nat) res" where
  "sql_u32 l ms ty raw f = (case f of
     Text \<Rightarrow> parse_int_text (parse_uint (2 ^ 32 - 1)) Conversion ms raw
   | Binary \<Rightarrow> binary_from_sql (oid_from_sql l) raw)"

definition sql_string :: "value_lib \<Rightarrow> std_messages \<Rightarrow> nat \<Rightarrow> bytes option \<Rightarrow> format_code \<Rightarrow> (type_error, string) res" where
  "sql_string l ms ty raw f = (case raw of
     None \<Rightarrow> unexpected_null
   | Some b \<Rightarrow> (case f of Text \<Rightarrow> from_utf8 ms b | Binary \<Rightarrow> map_err Conversion (text_from_sql l b)))"

definition sql_bytea :: "value_lib \<Rightarrow> std_messages \<Rightarrow> nat \<Rightarrow> bytes option \<Rightarrow> format_code \<Rightarrow> (type_error, bytes) res" where
  "sql_bytea l ms ty raw f = (case raw of
     None \<Rightarrow> unexpected_null
   | Some b \<Rightarrow> (case f of
       Text \<Rightarrow>
         if take 2 b = [0x5C, 0x78] then
           bind_res (from_utf8 ms (drop 2 b)) (\<lambda>hex.
             map_err (\<lambda>e. Conversion (''invalid bytea hex: '' @ show_type_error e)) (decode_hex (trim hex)))
         else decode_bytea_escape b
     | Binary \<Rightarrow> Ok (bytea_from_sql l b)))"

definition sql_option ::
  "(nat \<Rightarrow> bytes option \<Rightarrow> format_code \<Rightarrow> (type_error, 'a) res) \<Rightarrow>
   nat \<Rightarrow> bytes option \<Rightarrow> format_code \<Rightarrow> (type_error, 'a option) res"
where
  "sql_option dec ty raw f = (case raw of
     Some b \<Rightarrow> bind_res (dec ty (Some b) f) (\<lambda>v. Ok (Some v)) | None \<Rightarrow> Ok None)"

subsection \<open>Lemmas: text\<close>

lemma valid_utf8_ascii: "\<forall>b\<in>set bs. unat b < 128 \<Longrightarrow> valid_utf8 bs"
  by (induction bs) auto

lemma bytes_of_ascii: "\<forall>ch\<in>set s. (of_char ch :: nat) < 128 \<Longrightarrow> valid_utf8 (bytes_of s)"
  by (intro valid_utf8_ascii) (auto simp: bytes_of_def)

lemma as_text_bytes_of: "valid_utf8 (bytes_of s) \<Longrightarrow> as_text ms (Some (bytes_of s)) = Ok s"
  by (simp add: as_text_def from_utf8_def)

lemma digit_char_ascii: "d < 10 \<Longrightarrow> (of_char (digit_char d) :: nat) < 128"
  by (simp add: digit_char_def)

lemma show_nat_ascii: "valid_utf8 (bytes_of (show_nat n))"
  using show_nat_digits digit_char_ascii by (intro bytes_of_ascii) fastforce

lemma show_int_ascii: "valid_utf8 (bytes_of (show_int i))"
proof -
  have "(of_char CHR ''-'' :: nat) < 128" by simp
  moreover have "\<forall>ch\<in>set (show_nat n). (of_char ch :: nat) < 128" for n
    using show_nat_digits digit_char_ascii by fastforce
  ultimately show ?thesis unfolding show_int_def by (intro bytes_of_ascii) auto
qed

lemma parse_int_text_show: "parse (show_int i) = Some i \<Longrightarrow> parse_int_text parse err ms (Some (bytes_of (show_int i))) = Ok i"
  by (simp add: parse_int_text_def as_text_bytes_of show_int_ascii)

subsection \<open>Lemmas: byte arrays\<close>

text \<open>How the server prints a byte in the escape output format.\<close>

definition escape_byte :: "byte \<Rightarrow> bytes" where
  "escape_byte b =
     (if b = 0x5C then [0x5C, 0x5C]
      else if 0x20 \<le> b \<and> b \<le> 0x7E then [b]
      else [0x5C, 0x30 + drop_bit 6 b, 0x30 + and (drop_bit 3 b) 7, 0x30 + and b 7])"

lemma all_bytes: "list_all (\<lambda>k. P (of_nat k)) [0..<256] \<Longrightarrow> P (b :: byte)"
proof -
  assume "list_all (\<lambda>k. P (of_nat k)) [0..<256]"
  then have "\<forall>k\<in>set [0..<256]. P (of_nat k)" by (simp add: list_all_iff)
  moreover have "unat b \<in> set [0..<256]" using unsigned_less [of b] by simp
  ultimately have "P (of_nat (unat b))" by (rule bspec)
  then show ?thesis by simp
qed

definition hex_value :: "nat \<Rightarrow> nat" where
  "hex_value n = (if n \<le> 9 then 48 + n else 55 + n)"

lemma hex_pair_table:
  "list_all (\<lambda>k. let b = (of_nat k :: byte) in unat (hex_digit (drop_bit 4 b)) = hex_value (unat b div 16) \<and>
     unat (hex_digit (and b 0x0F)) = hex_value (unat b mod 16)) [0..<256]"
  by code_simp

lemma hex_value_digit:
  "n < 16 \<Longrightarrow> to_digit16 (char_of (hex_value n)) = Some n"
  by (auto simp: hex_value_def to_digit16_def Let_def)

lemma to_digit16_not_ws: "to_digit16 ch = Some n \<Longrightarrow> \<not> is_ws ch \<and> \<not> is_cont ch"
  by (auto simp: is_ws_def is_cont_def to_digit16_def Let_def split: if_splits)

lemma octal_table:
  "list_all (\<lambda>k. let b = (of_nat k :: byte); p = 0x30 + drop_bit 6 b; q = 0x30 + and (drop_bit 3 b) 7; r = 0x30 + and b 7 in
     is_octal p \<and> is_octal q \<and> is_octal r \<and> p \<noteq> 0x5C \<and>
     or (or (push_bit 6 (p - 0x30)) (push_bit 3 (q - 0x30))) (r - 0x30) = b) [0..<256]"
  by code_simp

lemma hex_pair_decoded:
  "\<exists>h l. string_of (hex_pair b) = [h, l] \<and> to_digit16 h = Some (unat b div 16) \<and> to_digit16 l = Some (unat b mod 16)"
proof -
  have "unat b < 256" using unsigned_less [of b] by simp
  then show ?thesis
    using all_bytes [OF hex_pair_table, of b] hex_value_digit [of "unat b div 16"] hex_value_digit [of "unat b mod 16"]
    by (simp add: hex_pair_def string_of_def Let_def)
qed

lemma decode_hex_pairs_hex:
  "decode_hex_pairs (map (\<lambda>ch. [ch]) (string_of (concat (map hex_pair v)))) = Ok v \<and>
   plain_word (string_of (concat (map hex_pair v))) \<and> even (length (string_of (concat (map hex_pair v))))"
proof (induction v)
  case (Cons b v)
  obtain h l where h: "string_of (hex_pair b) = [h, l]" "to_digit16 h = Some (unat b div 16)" "to_digit16 l = Some (unat b mod 16)"
    using hex_pair_decoded [of b] by blast
  have "string_of (concat (map hex_pair (b # v))) = h # l # string_of (concat (map hex_pair v))"
    using h(1) by (simp add: string_of_def)
  moreover have "(of_nat (unat b div 16 * 16 + unat b mod 16) :: byte) = b" by simp
  ultimately show ?case using Cons h(2,3) to_digit16_not_ws by (auto simp: hex_digit_of_def)
qed (simp add: string_of_def)

lemma decode_hex_hex: "decode_hex (trim (string_of (concat (map hex_pair v)))) = Ok v"
proof -
  let ?s = "string_of (concat (map hex_pair v))"
  have w: "plain_word ?s" "even (length ?s)" using decode_hex_pairs_hex [of v] by simp_all
  have "filter (\<lambda>ch. \<not> is_whitespace ch) (map (\<lambda>ch. [ch]) ?s) = map (\<lambda>ch. [ch]) ?s"
    using w(1) by (auto simp: plain_word_def intro: filter_True)
  then show ?thesis using decode_hex_pairs_hex [of v] w
    by (simp add: decode_hex_def trim_word utf8_chars_word)
qed

lemma hex_pair_ascii: "\<forall>b\<in>set (hex_pair x). unat b < 128"
proof -
  have "unat x < 256" using unsigned_less [of x] by simp
  then have "unat x div 16 < 16" by simp
  moreover have "hex_value n < 128" if "n < 16" for n using that by (simp add: hex_value_def)
  ultimately have "hex_value (unat x div 16) < 128" "hex_value (unat x mod 16) < 128" by simp_all
  then show ?thesis using all_bytes [OF hex_pair_table, of x] by (simp add: hex_pair_def Let_def)
qed

lemma decode_escape: "decode_bytea_escape (escape_byte b @ rest) = bind_res (decode_bytea_escape rest) (\<lambda>rs. Ok (b # rs))"
  using all_bytes [OF octal_table, of b] by (simp add: escape_byte_def Let_def)

lemma decode_escapes: "decode_bytea_escape (concat (map escape_byte v)) = Ok v"
  by (induction v) (simp_all add: decode_escape)

lemma escape_not_hex: "take 2 (concat (map escape_byte v)) \<noteq> [0x5C, 0x78]"
proof (cases v)
  case (Cons b v')
  have "is_octal (0x30 + drop_bit 6 b)" using all_bytes [OF octal_table, of b] by (simp add: Let_def)
  then have "0x30 + drop_bit 6 b \<noteq> 0x78" by (auto simp: is_octal_def)
  then show ?thesis using Cons by (auto simp: escape_byte_def)
qed simp

subsection \<open>Properties\<close>

text \<open>What \<open>postgres_protocol::types\<close> documents of its binary decoders.\<close>

definition lib_documented :: "value_lib \<Rightarrow> bool" where
  "lib_documented l =
     (bool_from_sql l [0] = Ok False \<and> bool_from_sql l [1] = Ok True \<and>
      (\<forall>i. -(2 ^ 7) \<le> i \<and> i < 2 ^ 7 \<longrightarrow> char_from_sql l (be_sint 1 i) = Ok i) \<and>
      (\<forall>i. -(2 ^ 15) \<le> i \<and> i < 2 ^ 15 \<longrightarrow> int2_from_sql l (be_sint 2 i) = Ok i) \<and>
      (\<forall>i. -(2 ^ 31) \<le> i \<and> i < 2 ^ 31 \<longrightarrow> int4_from_sql l (be_sint 4 i) = Ok i) \<and>
      (\<forall>i. -(2 ^ 63) \<le> i \<and> i < 2 ^ 63 \<longrightarrow> int8_from_sql l (be_sint 8 i) = Ok i) \<and>
      (\<forall>n < 2 ^ 32. oid_from_sql l (be_bytes 4 n) = Ok n) \<and>
      (\<forall>s. valid_utf8 (bytes_of s) \<longrightarrow> text_from_sql l (bytes_of s) = Ok s) \<and>
      (\<forall>b. bytea_from_sql l b = b))"

definition round_trips ::
  "('a \<Rightarrow> to_sql) \<Rightarrow> (nat \<Rightarrow> bytes option \<Rightarrow> format_code \<Rightarrow> (type_error, 'a) res) \<Rightarrow> 'a \<Rightarrow> bool"
where
  "round_trips enc dec v = (\<forall>ty f. \<exists>b. enc v ty f = Ok (Some b) \<and> dec ty (Some b) f = Ok v)"

lemma round_trips_formats:
  assumes "\<And>ty. \<exists>b. enc v ty Text = Ok (Some b) \<and> dec ty (Some b) Text = Ok v"
    and "\<And>ty. \<exists>b. enc v ty Binary = Ok (Some b) \<and> dec ty (Some b) Binary = Ok v"
  shows "round_trips enc dec v"
proof -
  have "\<exists>b. enc v ty f = Ok (Some b) \<and> dec ty (Some b) f = Ok v" for ty f
    using assms [of ty] by (cases f) auto
  then show ?thesis by (simp add: round_trips_def)
qed

lemma int_round_trip:
  assumes "parse_sint lo hi (show_int i) = Some i" "dec_bin (be_sint k i) = Ok i"
    and "\<And>ty raw f. dec ty raw f = (case f of Text \<Rightarrow> parse_int_text (parse_sint lo hi) err ms raw
       | Binary \<Rightarrow> binary_from_sql dec_bin raw)"
  shows "round_trips (int_to_sql k) dec i"
  using assms by (intro round_trips_formats) (simp_all add: int_to_sql_def parse_int_text_show binary_from_sql_def)

text \<open>
  C37.  Values survive the trip through SQL: for booleans, 8- to 64-bit integers, object ids, UTF-8 strings
  and byte arrays, in the text and in the binary format, decoding what \<open>to_sql\<close> wrote gives the value
  back, at the extremes of the ranges too; the escape format in which a server may print byte arrays is
  read back exactly as well; and \<open>None\<close> is NULL and back.
\<close>

theorem value_round_trip:
  assumes "lib_documented l"
  shows "round_trips bool_to_sql (sql_bool l ms) v \<and>
     (-(2 ^ 7) \<le> a \<and> a < 2 ^ 7 \<longrightarrow> round_trips (int_to_sql 1) (sql_i8 l ms) a) \<and>
     (-(2 ^ 15) \<le> b \<and> b < 2 ^ 15 \<longrightarrow> round_trips (int_to_sql 2) (sql_i16 l ms) b) \<and>
     (-(2 ^ 31) \<le> c \<and> c < 2 ^ 31 \<longrightarrow> round_trips (int_to_sql 4) (sql_i32 l ms) c) \<and>
     (-(2 ^ 63) \<le> d \<and> d < 2 ^ 63 \<longrightarrow> round_trips (int_to_sql 8) (sql_i64 l ms) d) \<and>
     (n < 2 ^ 32 \<longrightarrow> round_trips u32_to_sql (sql_u32 l ms) n) \<and>
     (valid_utf8 (bytes_of s) \<longrightarrow> round_trips string_to_sql (sql_string l ms) s) \<and>
     round_trips bytea_to_sql (sql_bytea l ms) bs \<and>
     sql_bytea l ms ty (Some (concat (map escape_byte bs))) Text = Ok bs \<and>
     option_to_sql bytea_to_sql None ty f = Ok None \<and> sql_option (sql_bytea l ms) ty None f = Ok None"
proof (intro conjI impI, goal_cases)
  case 1
  have "valid_utf8 (bytes_of ''t'')" "valid_utf8 (bytes_of ''f'')" by (simp_all add: bytes_of_ascii)
  then show ?case using assms
    by (intro round_trips_formats)
      (auto simp: bool_to_sql_def sql_bool_def as_text_bytes_of binary_from_sql_def lib_documented_def)
next
  case 2
  then show ?case using assms by (intro int_round_trip) (auto simp: sql_i8_def lib_documented_def)
next
  case 3
  then show ?case using assms by (intro int_round_trip) (auto simp: sql_i16_def lib_documented_def)
next
  case 4
  then show ?case using assms by (intro int_round_trip) (auto simp: sql_i32_def lib_documented_def)
next
  case 5
  then show ?case using assms by (intro int_round_trip) (auto simp: sql_i64_def lib_documented_def)
next
  case 6
  then show ?case using assms
    by (intro round_trips_formats) (simp_all add: u32_to_sql_def sql_u32_def parse_int_text_def
        as_text_bytes_of show_nat_ascii binary_from_sql_def lib_documented_def)
next
  case 7
  then show ?case using assms
    by (intro round_trips_formats) (simp_all add: string_to_sql_def sql_string_def from_utf8_def lib_documented_def)
next
  case 8
  have "valid_utf8 (concat (map hex_pair bs))" using hex_pair_ascii by (intro valid_utf8_ascii) auto
  then show ?case using assms
    by (intro round_trips_formats)
      (simp_all add: bytea_to_sql_def sql_bytea_def from_utf8_def decode_hex_hex lib_documented_def)
next
  case 9
  then show ?case using escape_not_hex [of bs] by (simp add: sql_bytea_def decode_escapes)
qed (simp_all add: option_to_sql_def sql_option_def)

definition sample_lib :: value_lib where
  "sample_lib = \<lparr> bool_from_sql = \<lambda>b. Ok (b \<noteq> [0]), char_from_sql = \<lambda>b. Ok (from_be_sint 1 b),
     int2_from_sql = \<lambda>b. Ok (from_be_sint 2 b), int4_from_sql = \<lambda>b. Ok (from_be_sint 4 b),
     int8_from_sql = \<lambda>b. Ok (from_be_sint 8 b), oid_from_sql = \<lambda>b. Ok (from_be b),
     text_from_sql = \<lambda>b. Ok (string_of b), bytea_from_sql = \<lambda>b. b \<rparr>"

theorem value_round_trip_witness:
  "round_trips (int_to_sql 4) (sql_i32 sample_lib \<lparr> utf8_message = \<lambda>_. [], int_message = \<lambda>_. [] \<rparr>) (-(2 ^ 31)) \<and>
   round_trips bytea_to_sql (sql_bytea sample_lib \<lparr> utf8_message = \<lambda>_. [], int_message = \<lambda>_. [] \<rparr>) [0, 255, 92]"
proof -
  have "lib_documented sample_lib" by (simp add: lib_documented_def sample_lib_def)
  from value_round_trip [OF this, of "\<lparr> utf8_message = \<lambda>_. [], int_message = \<lambda>_. [] \<rparr>" True 0 0 "-(2 ^ 31)" 0 0 "[]" "[0, 255, 92]"]
  show ?thesis by simp
qed

text \<open>
  Octal escapes above 377 do not fit a byte; the shift drops the ninth bit, so the escape for 400 is read
  as the byte 0 instead of being refused.
\<close>

lemma octal_escape_wraps: "decode_bytea_escape [0x5C, 0x34, 0x30, 0x30] = Ok [0]"
  by (simp add: is_octal_def)

end
