(* ===== verification/Guards.thy ===== *)
theory Guards
  imports Transaction Copy Type_Codec
begin

text \<open>
  The extended protocol and COPY through the guards of \<open>transaction/mod.rs\<close> and
  \<open>transaction/savepoint.rs\<close>, and \<open>notify\<close> of \<open>notification.rs\<close>, which sends its arguments as
  parameters.  A savepoint borrows the transaction, so its operations are those of the transaction.
\<close>

subsection \<open>Transactions\<close>

definition txn_query_params :: "string \<Rightarrow> to_sql list \<Rightarrow> query_result txm" where
  "txn_query_params sql ps = on_conn (query_params sql ps)"

definition txn_execute_params :: "string \<Rightarrow> to_sql list \<Rightarrow> string txm" where
  "txn_execute_params sql ps = on_conn (execute_params sql ps)"

definition txn_prepare :: "(nat \<Rightarrow> bool) \<Rightarrow> string \<Rightarrow> prepared_statement txm" where
  "txn_prepare known sql = on_conn (prepare known sql)"

definition txn_copy_in :: "string \<Rightarrow> copy_op txm" where "txn_copy_in sql = on_conn (copy_in sql)"
definition txn_copy_out :: "string \<Rightarrow> copy_op txm" where "txn_copy_out sql = on_conn (copy_out sql)"

subsection \<open>Savepoints\<close>

definition sp_query :: "savepoint \<Rightarrow> string \<Rightarrow> query_result txm" where "sp_query sp sql = txn_query sql"
definition sp_execute :: "savepoint \<Rightarrow> string \<Rightarrow> string txm" where "sp_execute sp sql = txn_execute sql"

definition sp_query_params :: "savepoint \<Rightarrow> string \<Rightarrow> to_sql list \<Rightarrow> query_result txm" where
  "sp_query_params sp sql ps = txn_query_params sql ps"

definition sp_execute_params :: "savepoint \<Rightarrow> string \<Rightarrow> to_sql list \<Rightarrow> string txm" where
  "sp_execute_params sp sql ps = txn_execute_params sql ps"

definition sp_prepare :: "savepoint \<Rightarrow> (nat \<Rightarrow> bool) \<Rightarrow> string \<Rightarrow> prepared_statement txm" where
  "sp_prepare sp known sql = txn_prepare known sql"

subsection \<open>Notifying\<close>

definition notify :: "string \<Rightarrow> string \<Rightarrow> unit cm" where
  "notify ch payload =
     bindc (execute_params ''SELECT pg_notify($1, $2)'' [string_to_sql ch, string_to_sql payload]) (\<lambda>_. retc ())"

subsection \<open>Lemmas\<close>

text \<open>
  Channel and payload of \<open>notify\<close> reach the server as the two parameters, byte for byte, so neither can
  change the statement.
\<close>

lemma notify_parameters:
  assumes "state c = Idle" "write_faults c = []" "inbox c = map Inr ms @ rest"
    and "interleaved ms (ext_messages [ParseComplete, BindComplete] k rep)" "well_formed_reply rep"
  shows "\<exists>c'. notify ch payload c = (Ret (bind_res (reply_result rep) (\<lambda>_. Ok ())), c') \<and>
     outbox c' = outbox c @ params_batch ''SELECT pg_notify($1, $2)'' [Some (bytes_of ch), Some (bytes_of payload)] \<and>
     state c' = Idle \<and> inbox c' = rest"
proof -
  let ?ps = "[string_to_sql ch, string_to_sql payload]"
  have "encode_params_text ?ps = Ok [Some (bytes_of ch), Some (bytes_of payload)]"
    by (simp add: string_to_sql_def)
  from query_params_reply [OF assms(1,2) this assms(4,3,5), of "''SELECT pg_notify($1, $2)''"] show ?thesis
    by (cases "reply_result rep") (auto simp: notify_def execute_params_def retc_def bind_res_def answered_def)
qed

end
