(* ===== verification/Bodies.thy ===== *)
theory Bodies
  imports Query
begin

text \<open>
  Small conversions at the edge of the protocol: message bodies read into rows and column descriptions
  (\<open>read_row_description\<close>, \<open>read_data_row\<close> of \<open>query/mod.rs\<close>), the display of a notice, \<open>query_each_async\<close>, the format codes of
  \<open>types/format.rs\<close> and the validation of \<open>transport/params.rs\<close>.  The arguments of the messages \<open>RowDescription\<close>
  and \<open>DataRow\<close> of \<open>Protocol\<close> are the outcomes of these readers.
\<close>

subsection \<open>Bodies\<close>

text \<open>
  The iterators of \<open>postgres_protocol\<close> are lists of what they yield, in order, until an error.
\<close>

fun read_row_description ::
  "(io_error, field_description) res list \<Rightarrow> field_description list \<Rightarrow> (io_error, field_description list) res"
where
  "read_row_description [] fs = Ok fs"
| "read_row_description (Inl e # iter) fs = Err e"
| "read_row_description (Inr f # iter) fs = read_row_description iter (fs @ [f])"

text \<open>\<open>None\<close> is the panic of slicing the buffer out of its bounds.\<close>

definition slice :: "bytes \<Rightarrow> nat \<times> nat \<Rightarrow> bytes option" where
  "slice buf r = (case r of (a, b) \<Rightarrow> if a \<le> b \<and> b \<le> length buf then Some (take (b - a) (drop a buf)) else None)"

fun read_data_row ::
  "bytes \<Rightarrow> (io_error, (nat \<times> nat) option) res list \<Rightarrow> bytes option list \<Rightarrow> (io_error, bytes option list) res option"
where
  "read_data_row buf [] vals = Some (Ok vals)"
| "read_data_row buf (Inl e # iter) vals = Some (Err e)"
| "read_data_row buf (Inr None # iter) vals = read_data_row buf iter (vals @ [None])"
| "read_data_row buf (Inr (Some r) # iter) vals =
     (case slice buf r of None \<Rightarrow> None | Some v \<Rightarrow> read_data_row buf iter (vals @ [Some v]))"

subsection \<open>Notices\<close>

definition notice_from_fields :: "error_body \<Rightarrow> (pg_error, server_error) res" where
  "notice_from_fields b = map_err PgIo (from_notice_body b)"

definition show_notice :: "server_error \<Rightarrow> string" where
  "show_notice n =
     severity n @ '': '' @ message n @ '' (SQLSTATE '' @ code n @ '')'' @
     (case detail n of None \<Rightarrow> [] | Some d \<Rightarrow> nl @ ''DETAIL: '' @ d) @
     (case hint n of None \<Rightarrow> [] | Some h \<Rightarrow> nl @ ''HINT: '' @ h)"

subsection \<open>Rows to an asynchronous callback\<close>

function stream_each_async ::
  "(row \<Rightarrow> 'u \<Rightarrow> (pg_error, unit) outcome \<times> 'u) \<Rightarrow> row_stream \<Rightarrow> connection \<Rightarrow> 'u \<Rightarrow>
   (pg_error, unit) outcome \<times> row_stream \<times> connection \<times> 'u"
where
  "stream_each_async f st c u =
     (case stream_next st c of
        (Ret (Inr (Some x)), st', c') \<Rightarrow>
          (case f x u of
             (Pending, u') \<Rightarrow> (Pending, st', c', u')
           | (Ret (Inl e), u') \<Rightarrow> (Ret (Err e), st', c', u')
           | (Ret (Inr _), u') \<Rightarrow> stream_each_async f st' c' u')
      | (Ret (Inr None), st', c') \<Rightarrow> (Ret (Ok ()), st', c', u)
      | (Ret (Inl e), st', c') \<Rightarrow> (Ret (Err e), st', c', u)
      | (Pending, st', c') \<Rightarrow> (Pending, st', c', u))"
  by pat_completeness auto
termination
proof (relation "measure (\<lambda>(f, st, c, u). length (inbox c))", goal_cases)
  case (2 f st c u r p st' c' x y z)
  then show ?case by (auto simp: stream_next_def dest: stream_loop_row_inbox [OF sym])
qed simp

declare stream_each_async.simps [simp del]

definition query_each_async ::
  "string \<Rightarrow> (row \<Rightarrow> 'u \<Rightarrow> (pg_error, unit) outcome \<times> 'u) \<Rightarrow> 'u \<Rightarrow> connection \<Rightarrow>
   (pg_error, string) outcome \<times> connection \<times> 'u"
where
  "query_each_async sql f u c =
     (case query_stream sql c of
        (Pending, c1) \<Rightarrow> (Pending, c1, u)
      | (Ret (Inl e), c1) \<Rightarrow> (Ret (Err e), c1, u)
      | (Ret (Inr st), c1) \<Rightarrow>
          (case stream_each_async f st c1 u of
             (Pending, st', c2, u') \<Rightarrow> (Pending, c2, u')
           | (Ret (Inl e), st', c2, u') \<Rightarrow> (Ret (Err e), drop_stream st' c2, u')
           | (Ret (Inr _), st', c2, u') \<Rightarrow>
               (Ret (case stream_command_tag st' of
                       Some t \<Rightarrow> Ok t
                     | None \<Rightarrow> Err (PgInvalidState ''stream ended without command tag'')),
                drop_stream st' c2, u')))"

subsection \<open>Formats and parameters\<close>

definition types_format_from_u16 :: "nat \<Rightarrow> format_code option" where
  "types_format_from_u16 n = (if n = 0 then Some Text else if n = 1 then Some Binary else None)"

definition types_format_to_u16 :: "format_code \<Rightarrow> nat" where
  "types_format_to_u16 f = (case f of Text \<Rightarrow> 0 | Binary \<Rightarrow> 1)"

record connection_params =
  cp_host :: string
  cp_port :: nat
  cp_connect_timeout :: "nat option"

definition params_validate :: "connection_params \<Rightarrow> (transport_error, unit) res" where
  "params_validate p =
     (if cp_host p = [] then Err (TeInvalidConfig ''host is empty'')
      else if cp_port p = 0 then Err (TeInvalidConfig ''port cannot be 0'')
      else Ok ())"

subsection \<open>Lemmas\<close>

text \<open>
  The body of a data row as the protocol defines it, a length (all ones for NULL) before each value, and
  the ranges of the values in it.
\<close>

fun data_row_bytes :: "bytes option list \<Rightarrow> bytes" where
  "data_row_bytes [] = []"
| "data_row_bytes (None # vs) = be_bytes 4 (2 ^ 32 - 1) @ data_row_bytes vs"
| "data_row_bytes (Some v # vs) = be_bytes 4 (length v) @ v @ data_row_bytes vs"

fun data_row_ranges :: "nat \<Rightarrow> bytes option list \<Rightarrow> (nat \<times> nat) option list" where
  "data_row_ranges p [] = []"
| "data_row_ranges p (None # vs) = None # data_row_ranges (p + 4) vs"
| "data_row_ranges p (Some v # vs) = Some (p + 4, p + 4 + length v) # data_row_ranges (p + 4 + length v) vs"

lemma read_data_row_prefix:
  "read_data_row (pre @ data_row_bytes vs) (map Ok (data_row_ranges (length pre) vs)) acc = Some (Ok (acc @ vs))"
proof (induction vs arbitrary: pre acc)
  case (Cons v vs)
  show ?case
  proof (cases v)
    case None
    then show ?thesis using Cons [of "pre @ be_bytes 4 (2 ^ 32 - 1)" "acc @ [None]"] by simp
  next
    case (Some w)
    have "slice (pre @ be_bytes 4 (length w) @ w @ data_row_bytes vs) (length pre + 4, length pre + 4 + length w) = Some w"
      by (simp add: slice_def)
    then show ?thesis using Some Cons [of "pre @ be_bytes 4 (length w) @ w" "acc @ [Some w]"] by (simp add: add.assoc)
  qed
qed simp

text \<open>
  A data row is read back value by value, NULL and the empty string apart; a description is the list of
  its fields, or the first error.
\<close>

lemma data_row_round_trip:
  "read_data_row (data_row_bytes vs) (map Ok (data_row_ranges 0 vs)) [] = Some (Ok vs)"
  using read_data_row_prefix [of "[]"] by simp

lemma row_description_fields:
  "read_row_description (map Ok fs @ Inl e # rest) acc = Err e"
  "read_row_description (map Ok fs) acc = Ok (acc @ fs)"
  by (induction fs arbitrary: acc) simp_all

text \<open>With a callback that always completes, \<open>query_each_async\<close> is \<open>query_each\<close>.\<close>

lemma stream_each_async_returning:
  "stream_each_async (\<lambda>x u. case f x u of (r, u') \<Rightarrow> (Ret r, u')) st c u = stream_each f st c u"
proof (induction f st c u rule: stream_each.induct)
  case (1 f st c u)
  then show ?case
    by (subst stream_each.simps, subst stream_each_async.simps)
      (auto split: prod.splits outcome.splits sum.splits option.splits)
qed

lemma query_each_async_returning:
  "query_each_async sql (\<lambda>x u. case f x u of (r, u') \<Rightarrow> (Ret r, u')) u c = query_each sql f u c"
  unfolding query_each_async_def query_each_def stream_each_async_returning ..

text \<open>A notice is displayed as a server error is, up to the position in the query.\<close>

lemma show_notice_error: "position n = None \<Longrightarrow> show_notice n = show_server_error n"
  by (simp add: show_notice_def show_server_error_def)

lemma types_format_round_trip: "types_format_from_u16 n = Some f \<longleftrightarrow> n = types_format_to_u16 f"
  by (cases f) (auto simp: types_format_from_u16_def types_format_to_u16_def)

lemma params_validate_ok: "params_validate p = Ok () \<longleftrightarrow> cp_host p \<noteq> [] \<and> 0 < cp_port p"
  by (simp add: params_validate_def)

end
