(* ===== verification/Calls.thy ===== *)
theory Calls
  imports Pipeline Cursor Guards Bodies
begin

text \<open>
  What the calls of the client have in common: every one of them, of every protocol, through a
  connection, a stream, a cursor, a copy or a transaction guard, keeps the relation \<open>lossless\<close> of
  \<open>Connection\<close> between the connection before and after it.  The loops over backend messages have it
  from the locale \<open>quiet_handler\<close>; this theory adds what is built around them.
\<close>

subsection \<open>Row streams\<close>

lemma stream_step_lossless: "lossless c (snd (snd (stream_next st c)))"
  by (simp add: stream_next_def stream_loop_lossless)

lemma stream_each_lossless: "lossless c (fst (snd (snd (stream_each f st c u))))"
proof (induction f st c u rule: stream_each.induct)
  case (1 f st c u)
  obtain r st' c' where n: "stream_next st c = (r, st', c')" by (metis prod_cases3)
  note l = stream_next_lossless [OF n]
  show ?case
  proof (cases "\<exists>x y u'. r = Ret (Inr (Some x)) \<and> f x u = (Inr y, u')")
    case True
    then obtain x y u' where x: "r = Ret (Inr (Some x))" "f x u = (Inr y, u')" by blast
    have "lossless c' (fst (snd (snd (stream_each f st' c' u'))))" using 1 n x by simp
    then show ?thesis using lossless_trans [OF l] n x by (subst stream_each.simps) simp
  next
    case False
    then show ?thesis using n l
      by (subst stream_each.simps) (auto split: outcome.splits sum.splits option.splits prod.splits)
  qed
qed

lemma stream_each_async_lossless: "lossless c (fst (snd (snd (stream_each_async f st c u))))"
proof (induction f st c u rule: stream_each_async.induct)
  case (1 f st c u)
  obtain r st' c' where n: "stream_next st c = (r, st', c')" by (metis prod_cases3)
  note l = stream_next_lossless [OF n]
  show ?case
  proof (cases "\<exists>x y u'. r = Ret (Inr (Some x)) \<and> f x u = (Ret (Inr y), u')")
    case True
    then obtain x y u' where x: "r = Ret (Inr (Some x))" "f x u = (Ret (Inr y), u')" by blast
    have "lossless c' (fst (snd (snd (stream_each_async f st' c' u'))))" using 1 n x by simp
    then show ?thesis using lossless_trans [OF l] n x by (subst stream_each_async.simps) simp
  next
    case False
    then show ?thesis using n l
      by (subst stream_each_async.simps) (auto split: outcome.splits sum.splits option.splits prod.splits)
  qed
qed

lemma stream_consume_lossless: "lossless c (snd (stream_consume st c))"
  using stream_collect_lossless [of c st "[]"]
  by (auto simp: stream_consume_def split: prod.splits outcome.splits sum.splits)

lemma query_each_lossless: "lossless c (fst (snd (query_each sql f u c)))"
proof -
  obtain r c1 where s: "query_stream sql c = (r, c1)" by fastforce
  have l: "lossless c c1" using query_stream_lossless [of c sql] s by simp
  have "lossless c (fst (snd (snd (stream_each f st c1 u))))" for st
    using lossless_trans [OF l stream_each_lossless] .
  then show ?thesis using s l
    by (auto simp: query_each_def split: prod.splits outcome.splits sum.splits) (metis fst_conv snd_conv)+
qed

lemma query_each_async_lossless: "lossless c (fst (snd (query_each_async sql f u c)))"
proof -
  obtain r c1 where s: "query_stream sql c = (r, c1)" by fastforce
  have l: "lossless c c1" using query_stream_lossless [of c sql] s by simp
  have "lossless c (fst (snd (snd (stream_each_async f st c1 u))))" for st
    using lossless_trans [OF l stream_each_async_lossless] .
  then show ?thesis using s l
    by (auto simp: query_each_async_def split: prod.splits outcome.splits sum.splits) (metis fst_conv snd_conv)+
qed

lemma query_one_lossless: "lossless c (snd (query_one sql c))"
  unfolding query_one_def by (intro lossless_intros query_lossless)

lemmas stream_calls_lossless = stream_step_lossless stream_collect_lossless stream_consume_lossless
  query_stream_lossless query_lossless query_one_lossless query_each_lossless query_each_async_lossless
  execute_lossless batch_execute_lossless

subsection \<open>Loops over replies\<close>

context quiet_handler
begin

lemma replies_lossless: "lossless c (snd (snd (read_replies h s c)))"
  using sync_loop_lossless [of c "inbox c" s] by (simp add: read_replies_def)

end

lemma execute_params_lossless: "lossless c (snd (execute_params sql ps c))"
  "lossless c (snd (execute_prepared stmt ps c))" "lossless c (snd (notify ch v c))"
  unfolding notify_def execute_params_def execute_prepared_def
  by (intro extended_lossless_intros query_params_lossless query_prepared_lossless)+

lemmas extended_calls_lossless = prepare_lossless close_statement_lossless query_params_lossless
  query_prepared_lossless query_params_stream_lossless query_prepared_stream_lossless execute_params_lossless
  pipeline_lossless

subsection \<open>Cursors\<close>

lemma drop_cursor_stream_lossless [simp]: "lossless c (drop_cursor_stream st c') = lossless c c'"
  by (simp add: drop_cursor_stream_def)

lemma cursor_open_lossless: "lossless c (snd (query_cursor sql ps n c))" "lossless c (snd (query_cursor_stream sql ps n c))"
  unfolding query_cursor_def query_cursor_stream_def case_prod_unfold
  by (intro lossless_intros cursor_lossless)+

lemma fetch_next_lossless: "lossless c (snd (snd (fetch_next cu c)))"
proof -
  let ?w = "bindc (transition ActiveExtendedQuery) (\<lambda>_. write_batch [Execute (cu_portal_name cu) (cu_fetch_size cu), Sync]) c"
  have w: "lossless c (snd ?w)" by (intro extended_lossless_intros)
  have "lossless c (snd (snd (read_replies fetch_step (cu, []) (snd ?w))))"
    by (rule lossless_trans [OF w fetch_quiet.replies_lossless])
  then show ?thesis using w
    by (auto simp: fetch_next_def split: prod.splits outcome.splits sum.splits)
qed

lemma close_cursor_lossless: "lossless c (snd (close_cursor cu c))"
  unfolding close_cursor_def by (intro lossless_intros cursor_lossless)

lemma cursor_next_lossless: "lossless c (snd (snd (cursor_next st c)))"
proof (induction st c rule: cursor_next.induct)
  case (1 st c)
  show ?case
  proof (cases "cs_state st \<noteq> CsActive \<or> buffered_rows st \<noteq> []")
    case True
    then show ?thesis by (subst cursor_next.simps) (simp split: prod.split)
  next
    case False
    obtain r st1 tag rows c1 where f: "fetch_batch st c = (r, (st1, tag, rows), c1)" by (metis prod_cases3)
    have l: "lossless c c1" using cursor_lossless(2) [of c st] f by simp
    let ?st2 = "case tag of None \<Rightarrow> st1 | Some t \<Rightarrow> st1\<lparr>cs_state := CsDone t\<rparr>"
    show ?thesis
    proof (cases "(\<exists>u. r = Ret (Inr u)) \<and> rows = [] \<and> \<not> cs_is_done ?st2")
      case True
      then obtain u where u: "r = Ret (Inr u)" "rows = [] \<and> \<not> cs_is_done ?st2" by blast
      have "lossless c1 (snd (snd (cursor_next ?st2 c1)))"
        using "1.IH" [OF False f [unfolded u(1), symmetric] refl refl refl refl refl refl u(2)] .
      then show ?thesis using lossless_trans [OF l] False f u by (subst cursor_next.simps) (simp add: Let_def)
    next
      case stop: False
      then show ?thesis using False f l
        by (subst cursor_next.simps) (auto simp: Let_def split: outcome.split sum.split prod.split)
    qed
  qed
qed

lemma cursor_collect_lossless: "lossless c (snd (snd (cursor_collect st c acc)))"
proof (induction st c acc rule: cursor_collect.induct)
  case (1 st c acc)
  obtain r st' c' where n: "cursor_next st c = (r, st', c')" by (metis prod_cases3)
  have l: "lossless c c'" using cursor_next_lossless [of c st] n by simp
  show ?case
  proof (cases "\<exists>x. r = Ret (Inr (Some x))")
    case True
    then obtain x where x: "r = Ret (Inr (Some x))" ..
    have "lossless c' (snd (snd (cursor_collect st' c' (acc @ [x]))))" using 1 n x by simp
    then show ?thesis using lossless_trans [OF l] n x by (subst cursor_collect.simps) simp
  next
    case False
    then show ?thesis using n l
      by (subst cursor_collect.simps) (auto split: outcome.splits sum.splits option.splits)
  qed
qed

lemma close_portal_lossless: "lossless c (snd (snd (close_portal st c)))"
proof -
  have "lossless c (snd (bindc (close_portal_named p) (\<lambda>_. commit_if own) c))" for p own
    by (intro lossless_intros cursor_lossless)
  then show ?thesis using cursor_lossless(4) [of c "cs_owns_transaction st"]
    by (auto simp: close_portal_def split: cursor_stream_state.splits prod.splits outcome.splits sum.splits)
      (metis snd_conv)+
qed

lemma cursor_consume_lossless: "lossless c (snd (cursor_consume st c))"
proof -
  obtain r st1 c1 where n: "cursor_collect st c [] = (r, st1, c1)" by (metis prod_cases3)
  have l: "lossless c c1" using cursor_collect_lossless [of c st "[]"] n by simp
  then have "lossless c (snd (snd (close_portal st1 c1)))" by (rule lossless_trans [OF _ close_portal_lossless])
  then show ?thesis using n l
    by (auto simp: cursor_consume_def split: prod.splits outcome.splits sum.splits)
qed

lemmas cursor_calls_lossless = cursor_open_lossless fetch_next_lossless close_cursor_lossless cursor_next_lossless
  cursor_collect_lossless close_portal_lossless cursor_consume_lossless

subsection \<open>Copies\<close>

lemma quiet_unexpected_stop [simp]: "quiet_step (unexpected_stop msg s)"
proof -
  have "lossless c (snd (snd (case read_until_ready c of
      (Ret (Inr _), c2) \<Rightarrow> (Ret (Err (PgProtocol (PrProtocolViolation msg))), s, c2\<lparr>state := Idle\<rparr>)
    | (Ret (Inl e), c2) \<Rightarrow> (Ret (Err e), s, c2)
    | (Pending, c2) \<Rightarrow> (Pending, s, c2))))" for c
    using read_until_ready_lossless [of c] by (auto split: prod.splits outcome.splits sum.splits)
  then show ?thesis by (auto simp: quiet_step_def unexpected_stop_def)
qed

interpretation copy_in_quiet: quiet_handler copy_in_step
  by unfold_locales (auto simp: copy_in_step_def split: backend_message.split)

interpretation copy_out_quiet: quiet_handler copy_out_step
  by unfold_locales (auto simp: copy_out_step_def split: backend_message.split)

lemma copy_start_lossless: "lossless c (snd (copy_in sql c))" "lossless c (snd (copy_out sql c))"
  unfolding copy_in_def copy_out_def start_copy_def
  by (intro lossless_intros copy_in_quiet.local_loop_lossless copy_out_quiet.local_loop_lossless)+

lemma drop_copy_lossless [simp]:
  "lossless c (drop_copy_in no_sync_io cp c') = lossless c c'"
  "lossless c (drop_copy_out no_sync_io cp c') = lossless c c'"
  by (simp_all add: drop_copy_in_def drop_copy_out_def cancel_copy_in_sync_def drain_copy_out_sync_def no_sync_io_def)

lemma copy_write_lossless:
  "lossless c (snd (copy_write d c))" "lossless c (snd (copy_write_row cols c))"
  "lossless c (snd (write_csv_row cols dl q c))" "lossless c (snd (write_csv_row_with_null vs dl q n c))"
  by (simp_all add: copy_write_def copy_write_row_def write_csv_row_def write_csv_row_with_null_def send_c_lossless)

lemma copy_finish_lossless: "lossless c (snd (copy_finish no_sync_io cp c))"
proof -
  obtain r c1 where n: "send_c FCopyDone c = (r, c1)" by fastforce
  have l: "lossless c c1" using send_c_lossless [of c FCopyDone] n by simp
  then have "lossless c (snd (snd (read_replies copy_finish_step (cp, 0) c1)))"
    by (rule lossless_trans [OF _ copy_finish_quiet.replies_lossless])
  then show ?thesis using n l
    by (auto simp: copy_finish_def split: prod.splits outcome.splits sum.splits)
qed

lemma copy_cancel_lossless: "lossless c (snd (copy_cancel no_sync_io reason cp c))"
proof -
  have "lossless c (snd (bindc (send_c (CopyFail reason)) (\<lambda>_. read_until_ready) c))" by (intro lossless_intros)
  then show ?thesis by (auto simp: copy_cancel_def split: prod.splits outcome.splits sum.splits)
qed

lemma copy_read_next_lossless: "lossless c (snd (snd (copy_read_next cp c)))"
  using read_next_quiet.replies_lossless [of c "(cp, None)"]
  by (auto simp: copy_read_next_def split: prod.splits outcome.splits sum.splits)

lemma read_loop_lossless: "lossless c (fst (snd (snd (read_loop body cp c v))))"
proof (induction body cp c v rule: read_loop.induct)
  case (1 body cp c v)
  obtain r cp' c' where n: "copy_read_next cp c = (r, cp', c')" by (metis prod_cases3)
  have l: "lossless c c'" using copy_read_next_lossless [of c cp] n by simp
  show ?case
  proof (cases "\<exists>x y v'. r = Ret (Inr (Some x)) \<and> body x v = (Inr y, v')")
    case True
    then obtain x y v' where x: "r = Ret (Inr (Some x))" "body x v = (Inr y, v')" by blast
    have "lossless c' (fst (snd (snd (read_loop body cp' c' v'))))" using 1 n x by simp
    then show ?thesis using lossless_trans [OF l] n x by (subst read_loop.simps) simp
  next
    case False
    then show ?thesis using n l
      by (subst read_loop.simps) (auto split: outcome.splits sum.splits option.splits prod.splits)
  qed
qed

lemma copy_read_lossless:
  "lossless c (snd (snd (copy_read_all cp c)))" "lossless c (fst (snd (snd (copy_for_each f cp c u))))"
  "lossless c (fst (snd (snd (for_each_row lossy g cp c u))))"
  "lossless c (fst (snd (snd (for_each_csv_row lossy d q g cp c u))))"
proof -
  show "lossless c (snd (snd (copy_read_all cp c)))"
    using read_loop_lossless [of c "\<lambda>chunk result. (Ok (), result @ chunk)" cp "[]"]
    by (auto simp: copy_read_all_def split: prod.splits outcome.splits sum.splits)
  show "lossless c (fst (snd (snd (copy_for_each f cp c u))))" by (simp add: copy_for_each_def read_loop_lossless)
  have "lossless c (fst (snd (snd (for_each_line lossy p g cp c u))))" for p and g :: "string list \<Rightarrow> 'c \<Rightarrow> (pg_error, unit) res \<times> 'c" and u
    using read_loop_lossless [of c "\<lambda>chunk (buffer, u). drain_lines p g (buffer @ lossy chunk) u" cp "([], u)"]
    by (auto simp: for_each_line_def split: prod.splits outcome.splits sum.splits)
  then show "lossless c (fst (snd (snd (for_each_row lossy g cp c u))))"
    "lossless c (fst (snd (snd (for_each_csv_row lossy d q g cp c u))))"
    by (simp_all add: for_each_row_def for_each_csv_row_def)
qed

lemmas copy_calls_lossless = copy_start_lossless copy_write_lossless copy_finish_lossless copy_cancel_lossless
  copy_read_next_lossless copy_read_lossless

subsection \<open>Guards\<close>

lemma on_conn_lossless: "lossless c (snd (m c)) \<Longrightarrow> lossless c (snd (snd (on_conn m t c)))"
  by (cases "m c") (simp add: on_conn_def)

lemma bindt_lossless:
  assumes "lossless c (snd (snd (m t c)))" "\<And>a t' c'. lossless c' (snd (snd (f a t' c')))"
  shows "lossless c (snd (snd (bindt m f t c)))"
  using assms by (auto simp: bindt_def intro: lossless_trans split: prod.splits outcome.splits sum.splits)

lemma set_committed_lossless: "lossless c (snd (snd (set_committed t c)))"
  by (simp add: set_committed_def)

lemma finish_savepoint_lossless: "lossless c (snd (snd (finish_savepoint sql sp t c)))"
proof -
  have "lossless c (snd (snd (on_conn (execute sql) t c)))" by (rule on_conn_lossless [OF execute_lossless])
  then show ?thesis by (auto simp: finish_savepoint_def split: prod.splits outcome.splits sum.splits)
qed

lemma guard_lossless:
  "lossless c (snd (snd (commit t c)))" "lossless c (snd (snd (rollback t c)))"
  "lossless c (snd (snd (savepoint n t c)))" "lossless c (snd (snd (release sp t c)))"
  "lossless c (snd (snd (rollback_to sp t c)))" "lossless c (snd (transaction c))" "lossless c (snd (transaction_with opts c))"
proof -
  show "lossless c (snd (snd (commit t c)))" "lossless c (snd (snd (rollback t c)))"
    unfolding commit_def rollback_def by (intro bindt_lossless on_conn_lossless execute_lossless set_committed_lossless)+
  show "lossless c (snd (snd (savepoint n t c)))"
    unfolding savepoint_def by (intro bindt_lossless on_conn_lossless execute_lossless) simp
  show "lossless c (snd (snd (release sp t c)))" "lossless c (snd (snd (rollback_to sp t c)))"
    by (simp_all add: release_def rollback_to_def finish_savepoint_lossless)
  show "lossless c (snd (transaction c))" "lossless c (snd (transaction_with opts c))"
    unfolding transaction_def transaction_with_def by (intro lossless_intros execute_lossless)+
qed

lemma txn_lossless:
  "lossless c (snd (snd (txn_query sql t c)))" "lossless c (snd (snd (txn_execute sql t c)))"
  "lossless c (snd (snd (txn_query_one sql t c)))" "lossless c (snd (snd (txn_query_params sql ps t c)))"
  "lossless c (snd (snd (txn_execute_params sql ps t c)))" "lossless c (snd (snd (txn_prepare known sql t c)))"
  "lossless c (snd (snd (txn_copy_in sql t c)))" "lossless c (snd (snd (txn_copy_out sql t c)))"
  unfolding txn_query_def txn_execute_def txn_query_one_def txn_query_params_def txn_execute_params_def
    txn_prepare_def txn_copy_in_def txn_copy_out_def
  by (intro on_conn_lossless stream_calls_lossless extended_calls_lossless copy_calls_lossless)+

lemma execute_all_lossless: "lossless c (snd (snd (execute_all sqls t c)))"
  by (induction sqls arbitrary: t c) (simp_all add: bindt_lossless txn_lossless)

text \<open>A transaction keeps what its body keeps.\<close>

lemma with_transaction_lossless:
  assumes "\<And>t c. lossless c (snd (snd (f t c)))"
  shows "lossless c (snd (with_transaction f c))"
  unfolding with_transaction_def
proof (rule bindc_lossless [OF guard_lossless(6)], goal_cases)
  case (1 t c)
  obtain r t1 c1 where f: "f t c = (r, t1, c1)" by (metis prod_cases3)
  have l: "lossless c c1" using assms [of c t] f by simp
  have "lossless c (snd (snd (commit t1 c1)))" "lossless c (snd (snd (rollback t1 c1)))"
    by (rule lossless_trans [OF l guard_lossless(1)], rule lossless_trans [OF l guard_lossless(2)])
  then show ?case using f l
    by (auto simp: drop_transaction_def split: prod.splits outcome.splits sum.splits)
qed

lemmas guard_calls_lossless = guard_lossless txn_lossless with_transaction_lossless [OF execute_all_lossless]

end
