(* ===== verification/Extern_Types.thy ===== *)
theory Extern_Types
  imports Type_Codec
begin

text \<open>
  The remaining \<open>ToSql\<close> and \<open>FromSql\<close> instances: floating-point numbers (\<open>types/encode.rs\<close>,
  \<open>types/decode.rs\<close>) and the optional \<open>uuid\<close>, \<open>serde_json\<close> and \<open>chrono\<close> types (\<open>types/extern_types.rs\<close>), and
  \<open>accepts\<close> for all instances.  Printing and parsing of these types is third-party or standard-library
  code and a parameter; a UUID is its 16 bytes, a point in time the number of nanoseconds since the
  epoch of PostgreSQL, 2000-01-01 00:00:00 UTC.
\<close>

subsection \<open>Object ids and accepted types\<close>

definition BOOL_OID :: nat where "BOOL_OID = 16"
definition BYTEA_OID :: nat where "BYTEA_OID = 17"
definition CHAR_OID :: nat where "CHAR_OID = 18"
definition NAME_OID :: nat where "NAME_OID = 19"
definition INT8_OID :: nat where "INT8_OID = 20"
definition INT2_OID :: nat where "INT2_OID = 21"
definition INT4_OID :: nat where "INT4_OID = 23"
definition TEXT_OID :: nat where "TEXT_OID = 25"
definition OID_OID :: nat where "OID_OID = 26"
definition JSON_OID :: nat where "JSON_OID = 114"
definition FLOAT4_OID :: nat where "FLOAT4_OID = 700"
definition FLOAT8_OID :: nat where "FLOAT8_OID = 701"
definition BPCHAR_OID :: nat where "BPCHAR_OID = 1042"
definition VARCHAR_OID :: nat where "VARCHAR_OID = 1043"
definition TIMESTAMP_OID :: nat where "TIMESTAMP_OID = 1114"
definition TIMESTAMPTZ_OID :: nat where "TIMESTAMPTZ_OID = 1184"
definition UUID_OID :: nat where "UUID_OID = 2950"
definition JSONB_OID :: nat where "JSONB_OID = 3802"

lemmas oid_defs = BOOL_OID_def BYTEA_OID_def CHAR_OID_def NAME_OID_def INT8_OID_def INT2_OID_def INT4_OID_def
  TEXT_OID_def OID_OID_def JSON_OID_def FLOAT4_OID_def FLOAT8_OID_def BPCHAR_OID_def VARCHAR_OID_def
  TIMESTAMP_OID_def TIMESTAMPTZ_OID_def UUID_OID_def JSONB_OID_def

definition bool_accepts :: "nat \<Rightarrow> bool" where "bool_accepts ty = (ty = BOOL_OID)"

text \<open>\<open>i8\<close>, \<open>i16\<close>, \<open>i32\<close> and \<open>i64\<close> with 1, 2, 4 and 8 bytes.\<close>

definition int_accepts :: "nat \<Rightarrow> nat \<Rightarrow> bool" where
  "int_accepts k ty = (ty = (if k = 1 then CHAR_OID else if k = 2 then INT2_OID else if k = 4 then INT4_OID else INT8_OID))"

definition u32_accepts :: "nat \<Rightarrow> bool" where "u32_accepts ty = (ty = OID_OID)"
definition f32_accepts :: "nat \<Rightarrow> bool" where "f32_accepts ty = (ty = FLOAT4_OID)"
definition f64_accepts :: "nat \<Rightarrow> bool" where "f64_accepts ty = (ty = FLOAT8_OID)"

definition string_accepts :: "nat \<Rightarrow> bool" where
  "string_accepts ty = (ty \<in> {TEXT_OID, VARCHAR_OID, BPCHAR_OID, NAME_OID, UNKNOWN})"

definition bytea_accepts :: "nat \<Rightarrow> bool" where "bytea_accepts ty = (ty = BYTEA_OID)"
definition uuid_accepts :: "nat \<Rightarrow> bool" where "uuid_accepts ty = (ty = UUID_OID)"
definition json_accepts :: "nat \<Rightarrow> bool" where "json_accepts ty = (ty = JSONB_OID \<or> ty = JSON_OID)"
definition datetime_accepts :: "nat \<Rightarrow> bool" where "datetime_accepts ty = (ty = TIMESTAMPTZ_OID \<or> ty = TIMESTAMP_OID)"

subsection \<open>Floating-point numbers\<close>

record 'f float_lib =
  show_float :: "'f \<Rightarrow> string"
  parse_float :: "string \<Rightarrow> (string, 'f) res"
  float_be_bytes :: "'f \<Rightarrow> bytes"
  float_from_sql :: "bytes \<Rightarrow> (string, 'f) res"

definition float_to_sql :: "'f float_lib \<Rightarrow> 'f \<Rightarrow> to_sql" where
  "float_to_sql F v ty f = Ok (Some (case f of Text \<Rightarrow> bytes_of (show_float F v) | Binary \<Rightarrow> float_be_bytes F v))"

definition sql_float ::
  "'f float_lib \<Rightarrow> std_messages \<Rightarrow> nat \<Rightarrow> bytes option \<Rightarrow> format_code \<Rightarrow> (type_error, 'f) res"
where
  "sql_float F ms ty raw f = (case f of
     Text \<Rightarrow> bind_res (as_text ms raw) (\<lambda>s. map_err ParseFloatError (parse_float F s))
   | Binary \<Rightarrow> binary_from_sql (float_from_sql F) raw)"

subsection \<open>UUIDs\<close>

record uuid_lib =
  hyphenated :: "bytes \<Rightarrow> string"
  parse_uuid :: "string \<Rightarrow> (string, bytes) res"

definition uuid_to_sql :: "uuid_lib \<Rightarrow> bytes \<Rightarrow> to_sql" where
  "uuid_to_sql U v ty f = Ok (Some (case f of Text \<Rightarrow> bytes_of (hyphenated U v) | Binary \<Rightarrow> v))"

definition sql_uuid :: "uuid_lib \<Rightarrow> std_messages \<Rightarrow> nat \<Rightarrow> bytes option \<Rightarrow> format_code \<Rightarrow> (type_error, bytes) res" where
  "sql_uuid U ms ty raw f = (case raw of
     None \<Rightarrow> Err (Conversion ''unexpected NULL for Uuid'')
   | Some b \<Rightarrow> (case f of
       Text \<Rightarrow> bind_res (from_utf8 ms b) (\<lambda>s. map_err (\<lambda>e. Conversion (''UUID parse: '' @ e)) (parse_uuid U s))
     | Binary \<Rightarrow>
         if length b \<noteq> 16
         then Err (Conversion (''invalid UUID binary length: expected 16, got '' @ show_nat (length b)))
         else Ok b))"

subsection \<open>JSON\<close>

record 'j json_lib =
  json_to_string :: "'j \<Rightarrow> (string, string) res"
  json_from_str :: "string \<Rightarrow> (string, 'j) res"

definition json_to_sql :: "'j json_lib \<Rightarrow> 'j \<Rightarrow> to_sql" where
  "json_to_sql J v ty f =
     bind_res (map_err (\<lambda>e. Conversion (''JSON serialize: '' @ e)) (json_to_string J v)) (\<lambda>s.
       Ok (Some (case f of
         Text \<Rightarrow> bytes_of s
       | Binary \<Rightarrow> (if ty = JSONB_OID then [1] else []) @ bytes_of s)))"

definition parse_json :: "'j json_lib \<Rightarrow> std_messages \<Rightarrow> bytes \<Rightarrow> (type_error, 'j) res" where
  "parse_json J ms b = bind_res (from_utf8 ms b) (\<lambda>s. map_err (\<lambda>e. Conversion (''JSON parse: '' @ e)) (json_from_str J s))"

definition sql_json :: "'j json_lib \<Rightarrow> std_messages \<Rightarrow> nat \<Rightarrow> bytes option \<Rightarrow> format_code \<Rightarrow> (type_error, 'j) res" where
  "sql_json J ms ty raw f = (case raw of
     None \<Rightarrow> Err (Conversion ''unexpected NULL for Value'')
   | Some b \<Rightarrow> (case f of
       Text \<Rightarrow> parse_json J ms b
     | Binary \<Rightarrow>
         if ty = JSONB_OID then
           (case b of
              [] \<Rightarrow> Err (Conversion ''empty JSONB value'')
            | v # js \<Rightarrow> if v \<noteq> 1 then Err (Conversion (''unsupported JSONB version: '' @ show_nat (unat v))) else parse_json J ms js)
         else parse_json J ms b))"

definition jsonb_to_sql :: "'j json_lib \<Rightarrow> 'j \<Rightarrow> to_sql" where
  "jsonb_to_sql J v ty f = json_to_sql J v ty f"

subsection \<open>Timestamps\<close>

text \<open>\<open>dt_min\<close> and \<open>dt_max\<close> bound what \<open>NaiveDateTime\<close> represents; the parsers are in the order of the attempts.\<close>

record datetime_lib =
  dt_min :: int
  dt_max :: int
  to_rfc3339 :: "int \<Rightarrow> string"
  parse_rfc3339 :: "string \<Rightarrow> (string, int) res"
  parse_zoned :: "string \<Rightarrow> (string, int) res"
  parse_naive :: "string \<Rightarrow> (string, int) res"
  parse_zoned_fraction :: "string \<Rightarrow> (string, int) res"

text \<open>\<open>num_microseconds\<close>: whole microseconds towards zero, if they fit 64 bits.\<close>

definition trunc_micros :: "int \<Rightarrow> int" where
  "trunc_micros ns = (if 0 \<le> ns then ns div 1000 else - ((- ns) div 1000))"

definition num_microseconds :: "int \<Rightarrow> int option" where
  "num_microseconds ns = (let u = trunc_micros ns in if -(2 ^ 63) \<le> u \<and> u < 2 ^ 63 then Some u else None)"

definition datetime_to_sql :: "datetime_lib \<Rightarrow> int \<Rightarrow> to_sql" where
  "datetime_to_sql D v ty f = (case f of
     Text \<Rightarrow> Ok (Some (bytes_of (to_rfc3339 D v)))
   | Binary \<Rightarrow> (case num_microseconds v of
       None \<Rightarrow> Err (Conversion ''DateTime too large'')
     | Some u \<Rightarrow> Ok (Some (be_sint 8 u))))"

definition or_else :: "('e, 'a) res \<Rightarrow> ('e, 'a) res \<Rightarrow> ('e, 'a) res" where
  "or_else r q = (case r of Inr v \<Rightarrow> Ok v | Inl _ \<Rightarrow> q)"

definition sql_datetime ::
  "datetime_lib \<Rightarrow> std_messages \<Rightarrow> nat \<Rightarrow> bytes option \<Rightarrow> format_code \<Rightarrow> (type_error, int) res"
where
  "sql_datetime D ms ty raw f = (case raw of
     None \<Rightarrow> Err (Conversion ''unexpected NULL for DateTime'')
   | Some b \<Rightarrow> (case f of
       Text \<Rightarrow> bind_res (from_utf8 ms b) (\<lambda>s.
         map_err (\<lambda>e. ParseDateTimeError (''DateTime parse: '' @ e))
           (or_else (or_else (or_else (parse_rfc3339 D s) (parse_zoned D s)) (parse_naive D s)) (parse_zoned_fraction D s)))
     | Binary \<Rightarrow>
         if length b \<noteq> 8
         then Err (Conversion (''invalid timestamp binary length: expected 8, got '' @ show_nat (length b)))
         else (let t = from_be_sint 8 b * 1000 in
               if dt_min D \<le> t \<and> t \<le> dt_max D then Ok t else Err (Conversion ''timestamp out of range''))))"

subsection \<open>Round trips\<close>

lemma from_utf8_bytes_of: "valid_utf8 (bytes_of s) \<Longrightarrow> from_utf8 ms (bytes_of s) = Ok s"
  using as_text_bytes_of [of s ms] by (simp add: as_text_def)

lemma trunc_micros_mult: "trunc_micros t * 1000 = (if 0 \<le> t then t - t mod 1000 else t + (- t) mod 1000)"
  using minus_mod_eq_div_mult [of t 1000] minus_mod_eq_div_mult [of "- t" 1000]
  by (simp add: trunc_micros_def)

lemma trunc_micros_bounds:
  "\<bar>t - trunc_micros t * 1000\<bar> < 1000" "\<bar>trunc_micros t * 1000\<bar> \<le> \<bar>t\<bar>"
  "0 \<le> t \<Longrightarrow> 0 \<le> trunc_micros t * 1000" "t < 0 \<Longrightarrow> trunc_micros t * 1000 \<le> 0"
  "1000 dvd t \<Longrightarrow> trunc_micros t * 1000 = t"
proof -
  have m: "0 \<le> t mod 1000" "t mod 1000 < 1000" "0 \<le> (- t) mod 1000" "(- t) mod 1000 < 1000" by simp_all
  have l: "0 \<le> t \<Longrightarrow> t mod 1000 \<le> t" "t < 0 \<Longrightarrow> (- t) mod 1000 \<le> - t" by (simp_all add: zmod_le_nonneg_dividend)
  show "\<bar>t - trunc_micros t * 1000\<bar> < 1000" "\<bar>trunc_micros t * 1000\<bar> \<le> \<bar>t\<bar>"
    "0 \<le> t \<Longrightarrow> 0 \<le> trunc_micros t * 1000" "t < 0 \<Longrightarrow> trunc_micros t * 1000 \<le> 0"
    unfolding trunc_micros_mult using m l by (auto simp: abs_if)
  show "1000 dvd t \<Longrightarrow> trunc_micros t * 1000 = t" unfolding trunc_micros_mult by (simp add: mod_eq_0_iff_dvd)
qed

lemma float_round_trip:
  assumes "parse_float F (show_float F v) = Ok v" "valid_utf8 (bytes_of (show_float F v))"
    and "float_from_sql F (float_be_bytes F v) = Ok v"
  shows "round_trips (float_to_sql F) (sql_float F ms) v"
  using assms by (intro round_trips_formats)
    (simp_all add: float_to_sql_def sql_float_def as_text_bytes_of binary_from_sql_def bind_res_def map_err_def)

text \<open>
  C38.  The remaining types survive the trip as well.  In both formats: a floating-point number, a UUID and a JSON
  value, the last for \<open>json\<close> and for \<open>jsonb\<close> parameters alike, and in the text format a point in time, exactly,
  provided that the library reads back what it prints.  In the binary format a point in time comes back cut to
  whole microseconds towards 2000-01-01, so less than a microsecond off, and exactly when it had no finer
  digits, over the whole range of \<open>DateTime\<close>, before the epoch too.
\<close>

theorem extern_round_trip:
  assumes "parse_float F (show_float F v) = Ok v" "valid_utf8 (bytes_of (show_float F v))" "float_from_sql F (float_be_bytes F v) = Ok v"
    and "length u = 16" "parse_uuid U (hyphenated U u) = Ok u" "valid_utf8 (bytes_of (hyphenated U u))"
    and "json_to_string J j = Ok s" "json_from_str J s = Ok j" "valid_utf8 (bytes_of s)"
    and "parse_rfc3339 D (to_rfc3339 D t) = Ok t" "valid_utf8 (bytes_of (to_rfc3339 D t))"
    and "dt_min D \<le> 0" "0 \<le> dt_max D" "dt_min D \<le> t" "t \<le> dt_max D" "num_microseconds t \<noteq> None"
  shows "round_trips (float_to_sql F) (sql_float F ms) v \<and>
     round_trips (uuid_to_sql U) (sql_uuid U ms) u \<and> round_trips (json_to_sql J) (sql_json J ms) j \<and>
     (\<exists>b. datetime_to_sql D t ty Text = Ok (Some b) \<and> sql_datetime D ms ty (Some b) Text = Ok t) \<and>
     (\<exists>b t'. datetime_to_sql D t ty Binary = Ok (Some b) \<and> sql_datetime D ms ty (Some b) Binary = Ok t' \<and>
        \<bar>t - t'\<bar> < 1000 \<and> \<bar>t'\<bar> \<le> \<bar>t\<bar> \<and> (1000 dvd t \<longrightarrow> t' = t))"
proof (intro conjI)
  show "round_trips (float_to_sql F) (sql_float F ms) v" by (rule float_round_trip [OF assms(1-3)])
  show "round_trips (uuid_to_sql U) (sql_uuid U ms) u"
    using assms(4-6) by (intro round_trips_formats)
      (simp_all add: uuid_to_sql_def sql_uuid_def from_utf8_bytes_of bind_res_def map_err_def)
  have p: "parse_json J ms (bytes_of s) = Ok j"
    using assms(8,9) by (simp add: parse_json_def from_utf8_bytes_of bind_res_def map_err_def)
  show "round_trips (json_to_sql J) (sql_json J ms) j"
    using assms(7) p by (intro round_trips_formats) (auto simp: json_to_sql_def sql_json_def bind_res_def map_err_def)
  show "\<exists>b. datetime_to_sql D t ty Text = Ok (Some b) \<and> sql_datetime D ms ty (Some b) Text = Ok t"
    using assms(10,11) by (simp add: datetime_to_sql_def sql_datetime_def from_utf8_bytes_of or_else_def map_err_def bind_res_def)
  obtain n where n: "num_microseconds t = Some n" using assms(16) by blast
  then have r: "n = trunc_micros t" "-(2 ^ 63) \<le> n" "n < 2 ^ 63"
    by (auto simp: num_microseconds_def Let_def split: if_splits)
  have "dt_min D \<le> n * 1000" "n * 1000 \<le> dt_max D"
    using trunc_micros_bounds(2-4) [of t] assms(12-15) r(1) by linarith+
  then have "sql_datetime D ms ty (Some (be_sint 8 n)) Binary = Ok (n * 1000)"
    using r(2,3) by (simp add: sql_datetime_def Let_def)
  moreover have "datetime_to_sql D t ty Binary = Ok (Some (be_sint 8 n))" using n by (simp add: datetime_to_sql_def)
  ultimately show "\<exists>b t'. datetime_to_sql D t ty Binary = Ok (Some b) \<and> sql_datetime D ms ty (Some b) Binary = Ok t' \<and>
        \<bar>t - t'\<bar> < 1000 \<and> \<bar>t'\<bar> \<le> \<bar>t\<bar> \<and> (1000 dvd t \<longrightarrow> t' = t)"
    using trunc_micros_bounds(1,2,5) [of t] r(1) by auto
qed

text \<open>Libraries that know one value each.\<close>

definition sample_datetime :: datetime_lib where
  "sample_datetime = \<lparr> dt_min = -(10 ^ 21), dt_max = 10 ^ 21, to_rfc3339 = \<lambda>_. ''1999'', parse_rfc3339 = \<lambda>_. Ok (-5000),
     parse_zoned = \<lambda>_. Err [], parse_naive = \<lambda>_. Err [], parse_zoned_fraction = \<lambda>_. Err [] \<rparr>"

definition sample_floats :: "bool float_lib" where
  "sample_floats = \<lparr> show_float = \<lambda>_. ''1.5'', parse_float = \<lambda>_. Ok True, float_be_bytes = \<lambda>_. [63, 192, 0, 0], float_from_sql = \<lambda>_. Ok True \<rparr>"

definition sample_messages :: std_messages where
  "sample_messages = \<lparr> utf8_message = \<lambda>_. [], int_message = \<lambda>_. [] \<rparr>"

theorem extern_round_trip_witness:
  "round_trips (float_to_sql sample_floats) (sql_float sample_floats sample_messages) True \<and>
   (\<exists>b. datetime_to_sql sample_datetime (-5000) TIMESTAMP_OID Text = Ok (Some b) \<and>
      sql_datetime sample_datetime sample_messages TIMESTAMP_OID (Some b) Text = Ok (-5000)) \<and>
   (\<exists>b. datetime_to_sql sample_datetime (-5000) TIMESTAMP_OID Binary = Ok (Some b) \<and>
      sql_datetime sample_datetime sample_messages TIMESTAMP_OID (Some b) Binary = Ok (-5000))"
proof -
  let ?U = "\<lparr> hyphenated = \<lambda>_. ''0'', parse_uuid = \<lambda>_. Ok (replicate 16 0) \<rparr>"
  let ?J = "\<lparr> json_to_string = \<lambda>b. Ok ''true'', json_from_str = \<lambda>s. Ok True \<rparr>"
  have "valid_utf8 (bytes_of ''0'')" "valid_utf8 (bytes_of ''true'')" "valid_utf8 (bytes_of ''1999'')" "valid_utf8 (bytes_of ''1.5'')"
    by (simp_all add: bytes_of_ascii)
  then show ?thesis
    using extern_round_trip [of sample_floats True "replicate 16 0" ?U ?J True "''true''" sample_datetime "-5000" sample_messages TIMESTAMP_OID]
    by (auto simp: num_microseconds_def trunc_micros_def sample_floats_def sample_datetime_def)
qed

subsection \<open>Widths\<close>

text \<open>The length PostgreSQL expects of a binary value of a type of fixed length, by the object ids of its catalog.\<close>

definition typlen :: "nat \<Rightarrow> nat option" where
  "typlen ty = map_of [(16, 1), (18, 1), (20, 8), (21, 2), (23, 4), (26, 4), (700, 4), (701, 8), (1114, 8), (1184, 8), (2950, 16)] ty"

definition has_width :: "nat \<Rightarrow> (type_error, bytes option) res \<Rightarrow> bool" where
  "has_width ty r = (\<forall>b w. r = Ok (Some b) \<longrightarrow> typlen ty = Some w \<longrightarrow> length b = w)"



end
