(* ===== verification/Tracing.thy ===== *)
theory Tracing
  imports Protocol "HOL-Library.Sublist"
begin

text \<open>
  What is written to logs: the redaction helpers of \<open>tracing_ext.rs\<close> and the message names of
  \<open>auth/mod.rs\<close>.  Strings are their UTF-8 bytes, as in the indexing of the source.
\<close>

subsection \<open>Truncation\<close>

definition is_char_boundary :: "string \<Rightarrow> nat \<Rightarrow> bool" where
  "is_char_boundary s i =
     (i = 0 \<or> i = length s \<or> i < length s \<and> \<not> (128 \<le> (of_char (s ! i) :: nat) \<and> (of_char (s ! i) :: nat) < 192))"

fun floor_boundary :: "string \<Rightarrow> nat \<Rightarrow> nat" where
  "floor_boundary s 0 = 0"
| "floor_boundary s (Suc n) = (if is_char_boundary s (Suc n) then Suc n else floor_boundary s n)"

definition truncate_str :: "string \<Rightarrow> nat \<Rightarrow> string" where
  "truncate_str s max_len = (if length s \<le> max_len then s else take (floor_boundary s max_len) s @ ''...'')"

subsection \<open>Redaction\<close>

fun find_sub :: "string \<Rightarrow> string \<Rightarrow> nat option" where
  "find_sub pat [] = (if pat = [] then Some 0 else None)"
| "find_sub pat (x # s) = (if prefix pat (x # s) then Some 0 else map_option Suc (find_sub pat s))"

fun rfind_char :: "char \<Rightarrow> string \<Rightarrow> nat option" where
  "rfind_char ch [] = None"
| "rfind_char ch (x # s) =
     (case rfind_char ch s of Some i \<Rightarrow> Some (Suc i) | None \<Rightarrow> if x = ch then Some 0 else None)"

definition redact_connection_string :: "string \<Rightarrow> string" where
  "redact_connection_string s =
     (case find_sub ''://'' s of
        None \<Rightarrow> s
      | Some start \<Rightarrow>
          (let after_scheme = drop (start + 3) s;
               authority_end = (case find_sub ''/'' after_scheme of Some i \<Rightarrow> i | None \<Rightarrow> length after_scheme);
               authority = take authority_end after_scheme
           in case rfind_char CHR ''@'' authority of
                None \<Rightarrow> s
              | Some at_pos \<Rightarrow>
                  (case find_sub '':'' (take at_pos authority) of
                     None \<Rightarrow> s
                   | Some colon_pos \<Rightarrow>
                       take (start + 3 + colon_pos + 1) s @ ''***'' @ drop (start + 3 + at_pos) s)))"

subsection \<open>Message names\<close>

definition frontend_message_type_name :: "frontend_message \<Rightarrow> string" where
  "frontend_message_type_name msg = (case msg of
      Startup _ \<Rightarrow> ''Startup'' | SslRequest \<Rightarrow> ''SSLRequest'' | CancelRequest _ _ \<Rightarrow> ''CancelRequest''
    | Query _ \<Rightarrow> ''Query'' | Parse _ _ _ \<Rightarrow> ''Parse'' | Bind _ _ _ _ _ \<Rightarrow> ''Bind'' | Describe _ _ \<Rightarrow> ''Describe''
    | Execute _ _ \<Rightarrow> ''Execute'' | Sync \<Rightarrow> ''Sync'' | Flush \<Rightarrow> ''Flush'' | Close _ _ \<Rightarrow> ''Close''
    | Terminate \<Rightarrow> ''Terminate'' | PasswordMessage _ \<Rightarrow> ''PasswordMessage''
    | SaslInitialResponse _ _ \<Rightarrow> ''SASLInitialResponse'' | SaslResponse _ \<Rightarrow> ''SASLResponse''
    | FCopyData _ \<Rightarrow> ''CopyData'' | FCopyDone \<Rightarrow> ''CopyDone'' | CopyFail _ \<Rightarrow> ''CopyFail'')"

definition backend_message_type_name :: "backend_message \<Rightarrow> string" where
  "backend_message_type_name msg = (case msg of
      AuthenticationOk \<Rightarrow> ''AuthenticationOk''
    | AuthenticationCleartextPassword \<Rightarrow> ''AuthenticationCleartextPassword''
    | AuthenticationMd5Password _ \<Rightarrow> ''AuthenticationMD5Password''
    | AuthenticationSasl _ \<Rightarrow> ''AuthenticationSASL''
    | AuthenticationSaslContinue _ \<Rightarrow> ''AuthenticationSASLContinue''
    | AuthenticationSaslFinal _ \<Rightarrow> ''AuthenticationSASLFinal''
    | BackendKeyData _ _ \<Rightarrow> ''BackendKeyData'' | ParameterStatus _ _ \<Rightarrow> ''ParameterStatus''
    | ReadyForQuery _ \<Rightarrow> ''ReadyForQuery'' | RowDescription _ \<Rightarrow> ''RowDescription'' | DataRow _ \<Rightarrow> ''DataRow''
    | CommandComplete _ \<Rightarrow> ''CommandComplete'' | EmptyQueryResponse \<Rightarrow> ''EmptyQueryResponse''
    | ParseComplete \<Rightarrow> ''ParseComplete'' | BindComplete \<Rightarrow> ''BindComplete'' | CloseComplete \<Rightarrow> ''CloseComplete''
    | NoData \<Rightarrow> ''NoData'' | ParameterDescription _ \<Rightarrow> ''ParameterDescription''
    | PortalSuspended \<Rightarrow> ''PortalSuspended'' | CopyInResponse _ _ \<Rightarrow> ''CopyInResponse''
    | CopyOutResponse _ _ \<Rightarrow> ''CopyOutResponse'' | CopyData _ \<Rightarrow> ''CopyData'' | CopyDone \<Rightarrow> ''CopyDone''
    | ErrorResponse _ \<Rightarrow> ''ErrorResponse'' | NoticeResponse _ \<Rightarrow> ''NoticeResponse''
    | NotificationResponse _ _ _ \<Rightarrow> ''NotificationResponse'' | _ \<Rightarrow> ''Unknown'')"

subsection \<open>Lemmas: truncation\<close>

lemma floor_boundary_spec: "floor_boundary s n \<le> n \<and> is_char_boundary s (floor_boundary s n)"
  by (induction n) (auto simp: is_char_boundary_def [of s 0])

text \<open>
  A truncated text is a front part of the text cut between two characters, at most \<open>max_len\<close> bytes
  long, and an ellipsis.
\<close>

lemma truncate_str_cut:
  assumes "max_len < length s"
  shows "\<exists>n. n \<le> max_len \<and> is_char_boundary s n \<and> truncate_str s max_len = take n s @ ''...''"
  using assms floor_boundary_spec [of s max_len] by (auto simp: truncate_str_def)

subsection \<open>Lemmas: searching\<close>

lemma find_char_first:
  assumes "ch \<notin> set a"
  shows "find_sub [ch] (a @ ch # b) = Some (length a)"
  using assms by (induction a) auto

lemma find_char_none: "ch \<notin> set a \<Longrightarrow> find_sub [ch] a = None"
  by (induction a) auto

lemma rfind_char_none: "ch \<notin> set a \<Longrightarrow> rfind_char ch a = None"
  by (induction a) auto

lemma rfind_char_last:
  assumes "ch \<notin> set b"
  shows "rfind_char ch (a @ ch # b) = Some (length a)"
  using assms by (induction a) (simp_all add: rfind_char_none)

lemma find_scheme:
  assumes "CHR '':'' \<notin> set a"
  shows "find_sub ''://'' (a @ ''://'' @ b) = Some (length a)"
  using assms by (induction a) auto

lemma redact_at:
  assumes "find_sub ''://'' s = Some st" "drop (st + 3) s = aft"
    and "(case find_sub ''/'' aft of Some i \<Rightarrow> i | None \<Rightarrow> length aft) = ae" "take ae aft = au"
    and "rfind_char CHR ''@'' au = Some ap" "find_sub '':'' (take ap au) = Some cp"
  shows "redact_connection_string s = take (st + 3 + cp + 1) s @ ''***'' @ drop (st + 3 + ap) s"
  using assms by (simp add: redact_connection_string_def Let_def)

lemma take_prefix: "s = xs @ ys \<Longrightarrow> length xs = n \<Longrightarrow> take n s = xs"
  by simp

lemma drop_prefix: "s = xs @ ys \<Longrightarrow> length xs = n \<Longrightarrow> drop n s = ys"
  by simp

text \<open>
  The redacted form of a URI with a password does not depend on the password, whatever characters
  other than a slash it has, an at sign and colons included.
\<close>

lemma redact_hides_password:
  assumes "CHR '':'' \<notin> set sch" "CHR '':'' \<notin> set usr" "CHR ''/'' \<notin> set usr" "CHR ''/'' \<notin> set pw"
    and "CHR ''@'' \<notin> set hst" "CHR ''/'' \<notin> set hst" "rest = [] \<or> hd rest = CHR ''/''"
  shows "redact_connection_string (sch @ ''://'' @ usr @ '':'' @ pw @ ''@'' @ hst @ rest) =
     sch @ ''://'' @ usr @ '':***@'' @ hst @ rest"
proof -
  let ?auth = "usr @ '':'' @ pw @ ''@'' @ hst"
  let ?s = "sch @ ''://'' @ ?auth @ rest"
  have "CHR ''/'' \<notin> set ?auth" using assms by simp
  then have e: "(case find_sub ''/'' (?auth @ rest) of Some i \<Rightarrow> i | None \<Rightarrow> length (?auth @ rest)) = length ?auth"
    using assms(7) find_char_first [of "CHR ''/''" ?auth "tl rest"] find_char_none [of "CHR ''/''" ?auth]
    by (cases rest) simp_all
  have r: "rfind_char CHR ''@'' ?auth = Some (length (usr @ '':'' @ pw))"
    using rfind_char_last [OF assms(5), of "usr @ '':'' @ pw"] by simp
  have c: "find_sub '':'' (take (length (usr @ '':'' @ pw)) ?auth) = Some (length usr)"
    using find_char_first [OF assms(2), of pw] by simp
  have d: "drop (length sch + 3) ?s = ?auth @ rest" by simp
  have t: "take (length ?auth) (?auth @ rest) = ?auth" by (metis append_eq_conv_conj)
  have f: "find_sub ''://'' ?s = Some (length sch)" by (rule find_scheme [OF assms(1)])
  have "redact_connection_string ?s = take (length sch + 3 + length usr + 1) ?s @ ''***'' @
      drop (length sch + 3 + length (usr @ '':'' @ pw)) ?s"
    by (rule redact_at [OF f d e t r c])
  moreover have "take (length sch + 3 + length usr + 1) ?s = sch @ ''://'' @ usr @ '':''"
    by (rule take_prefix [of _ _ "pw @ ''@'' @ hst @ rest"]) simp_all
  moreover have "drop (length sch + 3 + length (usr @ '':'' @ pw)) ?s = ''@'' @ hst @ rest"
    by (rule drop_prefix [of _ "sch @ ''://'' @ usr @ '':'' @ pw"]) simp_all
  ultimately show ?thesis by simp
qed

text \<open>A password with a slash ends the authority early, and the string is logged as it is.\<close>

lemma redact_leaks_slash:
  "redact_connection_string ''postgres://bob:a/b@db/x'' = ''postgres://bob:a/b@db/x''"
  by (simp add: redact_connection_string_def)

end
