(* ===== verification/Wasi_Tcp.thy ===== *)
theory Wasi_Tcp
  imports Transport
begin

text \<open>
  The WASI socket transport (\<open>transport/tcp.rs\<close>), the default transport of the crate: address
  resolution, connecting, and the \<open>AsyncTransport\<close> implementation over component-model streams.

  The streams and futures belong to the host.  Of the incoming stream the model keeps what the host
  will still deliver: \<open>in_items\<close>, the data of the coming completed reads (an item longer than the
  slice is delivered in parts), then \<open>in_last\<close> together with the terminal status \<open>in_end\<close>.  Of the
  outgoing one it keeps the outcomes \<open>out_plan\<close> of the coming writes (a status and the number of bytes
  taken; everything is taken when it is used up) and \<open>accepted\<close>, the bytes taken so far.
\<close>

subsection \<open>Addresses\<close>

datatype ip_address = Ipv4 "8 word list" | Ipv6 "16 word list"

datatype ip_socket_address =
    Ipv4Socket "8 word list" nat
  | Ipv6Socket "16 word list" nat nat nat

datatype ip_address_family = FamilyIpv4 | FamilyIpv6

definition ip_to_socket_address :: "ip_address \<Rightarrow> nat \<Rightarrow> ip_socket_address" where
  "ip_to_socket_address address p =
     (case address of Ipv4 octets \<Rightarrow> Ipv4Socket octets p | Ipv6 segments \<Rightarrow> Ipv6Socket segments p 0 0)"

definition address_family :: "ip_socket_address \<Rightarrow> ip_address_family" where
  "address_family address = (case address of Ipv4Socket _ _ \<Rightarrow> FamilyIpv4 | Ipv6Socket _ _ _ _ \<Rightarrow> FamilyIpv6)"

datatype error_code =
    EcConnectionRefused | EcConnectionReset | EcConnectionBroken | EcConnectionAborted | EcTimeout
  | EcOther string

definition map_socket_error :: "error_code \<Rightarrow> transport_error" where
  "map_socket_error err = (case err of
      EcConnectionRefused \<Rightarrow> TeConnectionRefused
    | EcConnectionReset \<Rightarrow> TeConnectionReset
    | EcConnectionBroken \<Rightarrow> TeConnectionReset
    | EcConnectionAborted \<Rightarrow> TeConnectionReset
    | EcTimeout \<Rightarrow> TeTimeout
    | EcOther s \<Rightarrow> TeIo s)"

text \<open>\<open>parse_ip\<close> is the standard library's parser of numeric addresses, \<open>lookup\<close> the host's resolver.\<close>

definition resolve_addresses ::
  "(string \<Rightarrow> ip_address option) \<Rightarrow> (string \<Rightarrow> (error_code, ip_address list) res) \<Rightarrow> string \<Rightarrow> nat \<Rightarrow>
   (transport_error, ip_socket_address list) res"
where
  "resolve_addresses parse_ip lookup h p =
     (case parse_ip h of
        Some address \<Rightarrow> Ok [ip_to_socket_address address p]
      | None \<Rightarrow>
          (case lookup h of
             Inl _ \<Rightarrow> Err (TeDnsResolutionFailed h)
           | Inr addresses \<Rightarrow>
               if addresses = [] then Err (TeDnsResolutionFailed h)
               else Ok (map (\<lambda>address. ip_to_socket_address address p) addresses)))"

definition duration_to_wasi :: "nat \<Rightarrow> nat" where
  "duration_to_wasi d = min d u64_max"

subsection \<open>The transport\<close>

datatype stream_result = Complete | Dropped | Cancelled

record wasi_transport =
  in_items :: "bytes list"
  in_last :: bytes
  in_end :: stream_result
  input_open :: bool
  input_done :: "(error_code, unit) res option"
  pending_read_error :: "transport_error option"
  read_eof_flag :: bool
  accepted :: bytes
  out_plan :: "(stream_result \<times> nat) list"
  output_open :: bool
  output_done :: "(error_code, unit) res option"

text \<open>
  \<open>connect\<close>: \<open>dial\<close> creates a socket of the family and connects it to the address; every address is
  tried in the resolver's order.
\<close>

fun connect_loop ::
  "(ip_address_family \<Rightarrow> ip_socket_address \<Rightarrow> (error_code, wasi_transport) res) \<Rightarrow> string \<Rightarrow>
   transport_error option \<Rightarrow> ip_socket_address list \<Rightarrow> (transport_error, wasi_transport) res"
where
  "connect_loop dial h last_error [] =
     Err (case last_error of Some e \<Rightarrow> e | None \<Rightarrow> TeDnsResolutionFailed h)"
| "connect_loop dial h last_error (address # addresses) =
     (case dial (address_family address) address of
        Inr t \<Rightarrow> Ok t
      | Inl e \<Rightarrow> connect_loop dial h (Some (map_socket_error e)) addresses)"

definition wasi_connect ::
  "(string \<Rightarrow> ip_address option) \<Rightarrow> (string \<Rightarrow> (error_code, ip_address list) res) \<Rightarrow>
   (ip_address_family \<Rightarrow> ip_socket_address \<Rightarrow> (error_code, wasi_transport) res) \<Rightarrow> string \<Rightarrow> nat \<Rightarrow>
   (transport_error, wasi_transport) res"
where
  "wasi_connect parse_ip lookup dial h p =
     bind_res (resolve_addresses parse_ip lookup h p) (connect_loop dial h None)"

definition receive_status :: "wasi_transport action" where
  "receive_status t = (case input_done t of
      Some status \<Rightarrow> (map_err map_socket_error status, t\<lparr>input_done := None\<rparr>)
    | None \<Rightarrow> (Ok (), t))"

definition send_status :: "wasi_transport action" where
  "send_status t = (case output_done t of
      Some status \<Rightarrow> (map_err map_socket_error status, t\<lparr>output_done := None\<rparr>)
    | None \<Rightarrow> (Ok (), t))"

definition finish_read ::
  "bytes \<Rightarrow> (transport_error, unit) res \<Rightarrow> wasi_transport \<Rightarrow> (transport_error, bytes) res \<times> wasi_transport"
where
  "finish_read data terminal t =
     (let t1 = t\<lparr>input_open := False, read_eof_flag := True\<rparr> in
      case terminal of
        Inr _ \<Rightarrow> (Ok data, t1)
      | Inl err \<Rightarrow> if data \<noteq> [] then (Ok data, t1\<lparr>pending_read_error := Some err\<rparr>) else (Err err, t1))"

text \<open>The loop of \<open>read\<close> over the coming items, for a slice of \<open>k\<close> bytes.\<close>

fun wasi_read_loop ::
  "nat \<Rightarrow> bytes list \<Rightarrow> wasi_transport \<Rightarrow> (transport_error, bytes) res \<times> wasi_transport"
where
  "wasi_read_loop k [] t =
     (if k < length (in_last t) then (Ok (take k (in_last t)), t\<lparr>in_items := [], in_last := drop k (in_last t)\<rparr>)
      else
        (let t1 = t\<lparr>in_items := [], in_last := []\<rparr> in
         case in_end t of
           Cancelled \<Rightarrow> finish_read (in_last t) (Err (TeIo ''WASI 0.3 receive operation was cancelled'')) t1
         | _ \<Rightarrow> (case receive_status t1 of (terminal, t2) \<Rightarrow> finish_read (in_last t) terminal t2)))"
| "wasi_read_loop k (d # ds) t =
     (if d = [] then wasi_read_loop k ds t
      else (Ok (take k d), t\<lparr>in_items := (if length d \<le> k then ds else drop k d # ds)\<rparr>))"

definition wasi_read :: "wasi_transport reader" where
  "wasi_read t k =
     (if k = 0 then (Ok [], t)
      else case pending_read_error t of
        Some err \<Rightarrow> (Err err, t\<lparr>pending_read_error := None\<rparr>)
      | None \<Rightarrow>
          if read_eof_flag t then (Ok [], t)
          else if \<not> input_open t then (Ok [], t)
          else wasi_read_loop k (in_items t) t)"

text \<open>The host's part of a write: status, number of bytes taken.\<close>

definition host_write :: "bytes \<Rightarrow> wasi_transport \<Rightarrow> stream_result \<times> nat \<times> wasi_transport" where
  "host_write buf t = (case out_plan t of
      [] \<Rightarrow> (Complete, length buf, t\<lparr>accepted := accepted t @ buf\<rparr>)
    | (s, n) # ps \<Rightarrow> (s, min n (length buf), t\<lparr>accepted := accepted t @ take n buf, out_plan := ps\<rparr>))"

definition wasi_write :: "wasi_transport \<Rightarrow> bytes \<Rightarrow> (transport_error, nat) res \<times> wasi_transport" where
  "wasi_write t buf =
     (if buf = [] then (Ok 0, t)
      else if \<not> output_open t then (Err TeConnectionReset, t)
      else (case host_write buf t of (status, n, t1) \<Rightarrow>
        (case status of
           Complete \<Rightarrow> (Ok n, t1)
         | Dropped \<Rightarrow>
             (case send_status (t1\<lparr>output_open := False\<rparr>) of
                (Inl err, t2) \<Rightarrow> (Err err, t2)
              | (Inr _, t2) \<Rightarrow> (Err TeConnectionReset, t2))
         | Cancelled \<Rightarrow> (Err (TeIo ''WASI 0.3 send operation was cancelled''), t1))))"

definition wasi_write_all :: "wasi_transport writer" where
  "wasi_write_all t buf =
     (if buf = [] then (Ok (), t)
      else if \<not> output_open t then (Err TeConnectionReset, t)
      else (case host_write buf t of (_, n, t1) \<Rightarrow>
        if drop n buf = [] then (Ok (), t1)
        else (case send_status (t1\<lparr>output_open := False\<rparr>) of
                (Inl err, t2) \<Rightarrow> (Err err, t2)
              | (Inr _, t2) \<Rightarrow> (Err TeConnectionReset, t2))))"

function wasi_read_exact ::
  "wasi_transport \<Rightarrow> nat \<Rightarrow> bytes \<Rightarrow> (transport_error, bytes) res \<times> wasi_transport"
where
  "wasi_read_exact t k acc =
     (if length acc < k then
        (case wasi_read t (k - length acc) of
           (Inl e, t') \<Rightarrow> (Err e, t')
         | (Inr bs, t') \<Rightarrow>
             if bs = [] then (Err TeUnexpectedEof, t') else wasi_read_exact t' k (acc @ bs))
      else (Ok acc, t))"
  by pat_completeness auto
termination
proof (relation "measure (\<lambda>(t, k, acc). k - length acc)", goal_cases)
  case (2 t k acc r t' bs)
  then show ?case by (cases bs) auto
qed simp

declare wasi_read_exact.simps [simp del]

definition wasi_flush :: "wasi_transport action" where
  "wasi_flush t = (Ok (), t)"

definition wasi_shutdown :: "wasi_transport action" where
  "wasi_shutdown t = send_status (t\<lparr>output_open := False, input_open := False, input_done := None, read_eof_flag := True\<rparr>)"

subsection \<open>The contract\<close>

text \<open>The bytes still to come; a pending error is only kept after the end of the stream.\<close>

definition wasi_pend :: "wasi_transport \<Rightarrow> bytes" where
  "wasi_pend t = (if read_eof_flag t \<or> \<not> input_open t then [] else concat (in_items t) @ in_last t)"

definition wasi_inv :: "wasi_transport \<Rightarrow> bool" where
  "wasi_inv t = (pending_read_error t \<noteq> None \<longrightarrow> read_eof_flag t)"

lemma finish_read_frame:
  assumes "finish_read d fin t = (r, t')"
  shows "wasi_inv t'" "wasi_pend t' = []" "accepted t' = accepted t" "r = Ok d \<or> d = [] \<and> (\<exists>e. r = Err e)"
  using assms by (auto simp: finish_read_def wasi_inv_def wasi_pend_def Let_def split: sum.splits if_splits)

lemma wasi_read_loop_frame:
  assumes "wasi_read_loop k items t = (r, t')" "0 < k" "wasi_inv t" "\<not> read_eof_flag t" "input_open t"
  shows "wasi_inv t' \<and> accepted t' = accepted t \<and>
     (case r of
        Inr bs \<Rightarrow> length bs \<le> k \<and> concat items @ in_last t = bs @ wasi_pend t' \<and>
          (bs = [] \<longrightarrow> concat items @ in_last t = [])
      | Inl e \<Rightarrow> concat items @ in_last t = [] \<and> wasi_pend t' = [])"
  using assms
proof (induction k items t rule: wasi_read_loop.induct)
  case (1 k t)
  let ?t = "t\<lparr>in_items := [], in_last := []\<rparr>"
  have rs: "accepted (snd (receive_status ?t)) = accepted t"
    by (simp add: receive_status_def split: option.split)
  show ?case
  proof (cases "k < length (in_last t)")
    case True
    then show ?thesis using 1 by (auto simp: wasi_pend_def wasi_inv_def)
  next
    case False
    obtain fin t2 where f: "finish_read (in_last t) fin t2 = (r, t')" "accepted t2 = accepted t"
      using 1(1) False rs by (auto simp: Let_def split: stream_result.splits prod.splits)
    show ?thesis using finish_read_frame [OF f(1)] f(2) False by auto
  qed
next
  case (2 k d ds t)
  show ?case
  proof (cases "d = []")
    case True
    then have c: "concat (d # ds) = concat ds" "wasi_read_loop k ds t = (r, t')" using 2(2) by simp_all
    show ?thesis unfolding c(1) by (rule 2(1) [OF True c(2) 2(3-)])
  next
    case False
    then have "r = Ok (take k d)" "t' = t\<lparr>in_items := (if length d \<le> k then ds else drop k d # ds)\<rparr>"
      using 2(2) by auto
    then show ?thesis using 2(3-) False by (simp add: wasi_pend_def wasi_inv_def)
  qed
qed

lemma wasi_read_frame:
  assumes "wasi_read t k = (r, t')" "wasi_inv t"
  shows "wasi_inv t' \<and> accepted t' = accepted t \<and>
     (case r of
        Inr bs \<Rightarrow> length bs \<le> k \<and> wasi_pend t = bs @ wasi_pend t' \<and> (bs = [] \<and> 0 < k \<longrightarrow> wasi_pend t = [])
      | Inl e \<Rightarrow> wasi_pend t = [] \<and> wasi_pend t' = [])"
proof (cases "0 < k \<and> pending_read_error t = None \<and> \<not> read_eof_flag t \<and> input_open t")
  case True
  then have "wasi_read_loop k (in_items t) t = (r, t')" using assms(1) by (simp add: wasi_read_def)
  moreover have "wasi_pend t = concat (in_items t) @ in_last t" using True by (simp add: wasi_pend_def)
  ultimately show ?thesis using wasi_read_loop_frame [of k "in_items t" t r t'] True assms(2)
    by (simp split: sum.splits)
next
  case False
  then show ?thesis using assms by (auto simp: wasi_read_def wasi_inv_def wasi_pend_def split: option.splits if_splits)
qed

lemma send_status_frame:
  "send_status t = (r, t') \<Longrightarrow> wasi_inv t' = wasi_inv t \<and> wasi_pend t' = wasi_pend t \<and> accepted t' = accepted t"
  by (auto simp: send_status_def wasi_inv_def wasi_pend_def split: option.splits)

lemma host_write_frame:
  "host_write buf t = (s, n, t') \<Longrightarrow> wasi_inv t' = wasi_inv t \<and> wasi_pend t' = wasi_pend t \<and>
     accepted t' = accepted t @ take n buf"
  by (auto simp: host_write_def wasi_inv_def wasi_pend_def min_def split: list.splits)

lemma wasi_write_all_frame:
  assumes "wasi_write_all t buf = (r, t')"
  shows "wasi_inv t' = wasi_inv t" "wasi_pend t' = wasi_pend t" "r = Ok u \<Longrightarrow> accepted t' = accepted t @ buf"
proof -
  obtain s n t1 where h: "host_write buf t = (s, n, t1)" by (metis prod_cases3)
  note hf = host_write_frame [OF h]
  have c: "wasi_inv (t1\<lparr>output_open := False\<rparr>) = wasi_inv t1" "wasi_pend (t1\<lparr>output_open := False\<rparr>) = wasi_pend t1"
    by (simp_all add: wasi_inv_def wasi_pend_def)
  show "wasi_inv t' = wasi_inv t" "wasi_pend t' = wasi_pend t" "r = Ok u \<Longrightarrow> accepted t' = accepted t @ buf"
    using assms h hf c
    by (auto simp: wasi_write_all_def dest!: send_status_frame split: if_splits prod.splits sum.splits)
qed

interpretation wasi: async_transport wasi_read wasi_write_all wasi_pend accepted wasi_inv
proof (unfold_locales, goal_cases)
  case (1 t k bs t')
  then show ?case using wasi_read_frame by fastforce
next
  case (2 t k t')
  then show ?case using wasi_read_frame by fastforce
next
  case (3 t k e t')
  then show ?case using wasi_read_frame by fastforce
next
  case (4 t bs u t')
  then show ?case using wasi_write_all_frame [OF 4(2)] by simp
next
  case (5 t bs e t')
  then show ?case using wasi_write_all_frame [OF 5(2)] by simp
qed

subsection \<open>Reading to the end\<close>

text \<open>A caller that reads slices of \<open>k\<close> bytes until the stream is over or an error is reported.\<close>

function read_to_end :: "nat \<Rightarrow> wasi_transport \<Rightarrow> bytes \<times> transport_error option" where
  "read_to_end k t =
     (if wasi_inv t \<and> 0 < k then
        (case wasi_read t k of
           (Inl e, t') \<Rightarrow> ([], Some e)
         | (Inr bs, t') \<Rightarrow> if bs = [] then ([], None) else (case read_to_end k t' of (ds, e) \<Rightarrow> (bs @ ds, e)))
      else ([], None))"
  by pat_completeness auto
termination
proof (relation "measure (\<lambda>(k, t). length (wasi_pend t))", goal_cases)
  case (2 k t x t' bs)
  then have "wasi_read t k = (Inr bs, t')" "bs \<noteq> []" by auto
  then show ?case using wasi_read_frame [of t k "Inr bs" t'] 2(1) by auto
qed simp

declare read_to_end.simps [simp del]

text \<open>The error the stream ends with, if any.\<close>

definition terminal_error :: "wasi_transport \<Rightarrow> transport_error option" where
  "terminal_error t =
     (case in_end t of
        Cancelled \<Rightarrow> Some (TeIo ''WASI 0.3 receive operation was cancelled'')
      | _ \<Rightarrow> (case input_done t of Some (Inl e) \<Rightarrow> Some (map_socket_error e) | _ \<Rightarrow> None))"

definition reading :: "wasi_transport \<Rightarrow> bool" where
  "reading t = (pending_read_error t = None \<and> \<not> read_eof_flag t \<and> input_open t)"

lemma receive_status_terminal:
  assumes "in_end t \<noteq> Cancelled"
  shows "fst (receive_status t) = (case terminal_error t of None \<Rightarrow> Ok () | Some e \<Rightarrow> Err e)"
    and "pending_read_error (snd (receive_status t)) = pending_read_error t"
  using assms by (auto simp: receive_status_def terminal_error_def map_err_def
      split: option.splits sum.splits stream_result.splits)

lemma terminal_error_update [simp]:
  "terminal_error (t\<lparr>in_items := i\<rparr>) = terminal_error t" "terminal_error (t\<lparr>in_last := d\<rparr>) = terminal_error t"
  by (simp_all add: terminal_error_def split: stream_result.split)

text \<open>A read either delivers bytes and leaves the rest, or ends the stream.\<close>

lemma wasi_read_loop_step:
  assumes "wasi_read_loop k items t = (r, t')" "0 < k" "reading t"
  shows "(\<exists>bs. bs \<noteq> [] \<and> r = Ok bs \<and> reading t' \<and> terminal_error t' = terminal_error t \<and>
       concat items @ in_last t = bs @ concat (in_items t') @ in_last t') \<or>
     (concat items = [] \<and> read_eof_flag t' \<and>
       pending_read_error t' = (if in_last t = [] then None else terminal_error t) \<and>
       r = (if in_last t = [] \<and> terminal_error t \<noteq> None then Err (the (terminal_error t)) else Ok (in_last t)))"
  using assms
proof (induction k items t rule: wasi_read_loop.induct)
  case (1 k t)
  let ?t = "t\<lparr>in_items := [], in_last := []\<rparr>"
  have te: "terminal_error ?t = terminal_error t" by simp
  show ?case
  proof (cases "k < length (in_last t)")
    case True
    then show ?thesis using 1 by (auto simp: reading_def)
  next
    case False
    define fin where "fin = (case terminal_error t of None \<Rightarrow> Ok () | Some e \<Rightarrow> Err e)"
    obtain t2 where f: "finish_read (in_last t) fin t2 = (r, t')" "pending_read_error t2 = None"
    proof (cases "in_end t")
      case Cancelled
      then show ?thesis using 1 False that [of ?t] by (simp add: fin_def terminal_error_def reading_def Let_def)
    qed (use 1 False receive_status_terminal [of ?t] te that in
        \<open>auto simp: fin_def reading_def Let_def split: prod.splits\<close>)
    then show ?thesis
      by (cases "terminal_error t") (auto simp: fin_def finish_read_def Let_def split: if_splits)
  qed
next
  case (2 k d ds t)
  then show ?case by (cases "d = []") (auto simp: reading_def split: if_splits)
qed

lemma reading_inv: "reading t \<Longrightarrow> wasi_inv t"
  by (simp add: reading_def wasi_inv_def)

lemma read_to_end_ended: "read_eof_flag t \<Longrightarrow> 0 < k \<Longrightarrow> read_to_end k t = ([], pending_read_error t)"
  by (subst read_to_end.simps) (simp add: wasi_inv_def wasi_read_def split: option.split)

text \<open>
  C27.  The WASI transport delivers every byte before it reports an error: whatever the sizes of the
  host's stream items (empty ones included) and of the caller's slices, reading to the end yields
  exactly the bytes of the stream in order, and then the terminal error of the stream if it has one;
  bytes that arrive together with the error are delivered first.
\<close>

theorem wasi_delivers_before_error:
  assumes "reading t" "0 < k"
  shows "read_to_end k t = (concat (in_items t) @ in_last t, terminal_error t)"
  using assms
proof (induction "length (concat (in_items t) @ in_last t)" arbitrary: t rule: less_induct)
  case less
  obtain r t' where r: "wasi_read t k = (r, t')" by fastforce
  then have "wasi_read_loop k (in_items t) t = (r, t')" using less.prems by (simp add: wasi_read_def reading_def)
  from wasi_read_loop_step [OF this less.prems(2,1)] show ?case
  proof (elim disjE exE conjE)
    fix bs assume s: "bs \<noteq> []" "r = Ok bs" "reading t'" "terminal_error t' = terminal_error t"
      "concat (in_items t) @ in_last t = bs @ concat (in_items t') @ in_last t'"
    have "read_to_end k t' = (concat (in_items t') @ in_last t', terminal_error t')"
      using s by (intro less.hyps less.prems) simp_all
    then show ?thesis using r s less.prems by (subst read_to_end.simps) (simp add: reading_inv)
  next
    assume "concat (in_items t) = []" "read_eof_flag t'"
      "pending_read_error t' = (if in_last t = [] then None else terminal_error t)"
      "r = (if in_last t = [] \<and> terminal_error t \<noteq> None then Err (the (terminal_error t)) else Ok (in_last t))"
    then show ?thesis using r less.prems read_to_end_ended [of t' k]
      by (subst read_to_end.simps) (auto simp: reading_inv split: if_splits)
  qed
qed

text \<open>A transport with the given items, last bytes and receive status.\<close>

definition sample_wasi :: "bytes list \<Rightarrow> bytes \<Rightarrow> (error_code, unit) res \<Rightarrow> wasi_transport" where
  "sample_wasi items d status =
     \<lparr> in_items = items, in_last = d, in_end = Dropped, input_open = True, input_done = Some status,
       pending_read_error = None, read_eof_flag = False, accepted = [], out_plan = [], output_open = True,
       output_done = Some (Ok ()) \<rparr>"

theorem wasi_delivers_before_error_witness:
  "read_to_end 2 (sample_wasi [[1, 2, 3], [], [4]] [5] (Err EcConnectionReset)) = ([1, 2, 3, 4, 5], Some TeConnectionReset)"
  using wasi_delivers_before_error [of "sample_wasi [[1, 2, 3], [], [4]] [5] (Err EcConnectionReset)" 2]
  by (simp add: reading_def sample_wasi_def terminal_error_def map_socket_error_def)

end
