(* ===== verification/Client_Transport.thy ===== *)
theory Client_Transport
  imports Wasi_Tcp
begin

text \<open>
  The blocking and the tokio transport (\<open>transport/native.rs\<close>, \<open>transport/tokio_tcp.rs\<close>) and the enum
  \<open>ClientTransport\<close> of \<open>transport/mod.rs\<close> that picks one of the transports for the target, with the
  contract \<open>async_transport\<close> for all of them and, below the buffer, for the stack a connection uses.

  A socket of the operating system is part of the environment: \<open>incoming\<close> are the bytes the peer has
  sent before it closes, \<open>read_plan\<close> and \<open>write_plan\<close> the outcomes of the coming calls (an error, or how
  many bytes beyond the first are moved at most; everything when the plan is used up).
\<close>

subsection \<open>Sockets\<close>

record socket =
  incoming :: bytes
  read_plan :: "(string, nat) res list"
  outgoing :: bytes
  write_plan :: "(string, nat) res list"
  nodelay :: bool
  nonblocking :: bool
  shut :: bool

definition sock_pend :: "socket \<Rightarrow> bytes" where
  "sock_pend s = (if shut s then [] else incoming s)"

text \<open>A read gives no byte only into an empty slice or at the end of the stream.\<close>

definition sock_read :: "socket \<Rightarrow> nat \<Rightarrow> (string, bytes) res \<times> socket" where
  "sock_read s k =
     (case read_plan s of
        [] \<Rightarrow> (Ok (take k (sock_pend s)), s\<lparr>incoming := drop k (sock_pend s)\<rparr>)
      | Inl e # ps \<Rightarrow> (Err e, s\<lparr>read_plan := ps\<rparr>)
      | Inr n # ps \<Rightarrow>
          (Ok (take (min k (Suc n)) (sock_pend s)),
           s\<lparr>incoming := drop (min k (Suc n)) (sock_pend s), read_plan := ps\<rparr>))"

definition sock_write :: "socket \<Rightarrow> bytes \<Rightarrow> (string, nat) res \<times> socket" where
  "sock_write s buf =
     (case write_plan s of
        [] \<Rightarrow> (Ok (length buf), s\<lparr>outgoing := outgoing s @ buf\<rparr>)
      | Inl e # ps \<Rightarrow> (Err e, s\<lparr>write_plan := ps\<rparr>)
      | Inr n # ps \<Rightarrow> (Ok (min n (length buf)), s\<lparr>outgoing := outgoing s @ take n buf, write_plan := ps\<rparr>))"

text \<open>
  \<open>write_all\<close> and \<open>read_exact\<close> of \<open>std::io\<close> and \<open>tokio::io\<close>: they repeat the call until everything is
  moved; a write that takes nothing is an error, a read that gives nothing is the end of the stream.
\<close>

datatype io_fault = UnexpectedEofKind | OtherKind string

lemma sock_write_plan:
  "sock_write s buf = (r, s') \<Longrightarrow> length (write_plan s') < length (write_plan s) \<or> r = Ok (length buf)"
  by (auto simp: sock_write_def split: list.splits sum.splits)

function sock_write_all :: "socket \<Rightarrow> bytes \<Rightarrow> (string, unit) res \<times> socket" where
  "sock_write_all s buf =
     (if buf = [] then (Ok (), s)
      else (case sock_write s buf of
              (Inl e, s1) \<Rightarrow> (Err e, s1)
            | (Inr n, s1) \<Rightarrow>
                if n = 0 then (Err ''failed to write whole buffer'', s1) else sock_write_all s1 (drop n buf)))"
  by pat_completeness auto
termination
proof (relation "measure (\<lambda>(s, buf). length buf)", goal_cases)
  case (2 s buf x s1 n)
  then show ?case by (cases buf) auto
qed simp

declare sock_write_all.simps [simp del]

function sock_read_exact :: "socket \<Rightarrow> nat \<Rightarrow> bytes \<Rightarrow> (io_fault, bytes) res \<times> socket" where
  "sock_read_exact s k acc =
     (if length acc < k then
        (case sock_read s (k - length acc) of
           (Inl e, s1) \<Rightarrow> (Err (OtherKind e), s1)
         | (Inr bs, s1) \<Rightarrow> if bs = [] then (Err UnexpectedEofKind, s1) else sock_read_exact s1 k (acc @ bs))
      else (Ok acc, s))"
  by pat_completeness auto
termination
proof (relation "measure (\<lambda>(s, k, acc). k - length acc)", goal_cases)
  case (2 s k acc x s1 bs)
  then show ?case by (cases bs) auto
qed simp

declare sock_read_exact.simps [simp del]

subsection \<open>The blocking transport\<close>

text \<open>\<open>dial\<close> is \<open>TcpStream::connect\<close> on \<open>host:port\<close>; \<open>set\<close> the outcome of setting an option.\<close>

definition host_port :: "string \<Rightarrow> nat \<Rightarrow> string" where
  "host_port h p = h @ '':'' @ show_nat p"

definition native_connect ::
  "(string \<Rightarrow> (string, socket) res) \<Rightarrow> (string, unit) res \<Rightarrow> (string, unit) res \<Rightarrow> string \<Rightarrow> nat \<Rightarrow>
   (transport_error, socket) res"
where
  "native_connect dial set_nonblocking set_nodelay h p =
     bind_res (map_err TeIo (dial (host_port h p))) (\<lambda>s.
     bind_res (map_err TeIo set_nonblocking) (\<lambda>_.
     bind_res (map_err TeIo set_nodelay) (\<lambda>_. Ok (s\<lparr>nonblocking := False, nodelay := True\<rparr>))))"

text \<open>With a timeout the address has to parse as a numeric one (\<open>parse_addr\<close>).\<close>

definition native_connect_with_timeout ::
  "(string \<Rightarrow> (string, 'addr) res) \<Rightarrow> ('addr \<Rightarrow> nat \<Rightarrow> (string, socket) res) \<Rightarrow> (string \<Rightarrow> (string, socket) res) \<Rightarrow>
   (string, unit) res \<Rightarrow> string \<Rightarrow> nat \<Rightarrow> nat option \<Rightarrow> (transport_error, socket) res"
where
  "native_connect_with_timeout parse_addr dial_timeout dial set_nonblocking h p timeout =
     bind_res (case timeout of
                 Some d \<Rightarrow> bind_res (map_err TeIo (parse_addr (host_port h p))) (\<lambda>a. map_err TeIo (dial_timeout a d))
               | None \<Rightarrow> map_err TeIo (dial (host_port h p))) (\<lambda>s.
     bind_res (map_err TeIo set_nonblocking) (\<lambda>_. Ok (s\<lparr>nonblocking := False\<rparr>)))"

definition native_read :: "socket reader" where
  "native_read s k = (case sock_read s k of (r, s1) \<Rightarrow> (map_err TeIo r, s1))"

definition native_write :: "socket \<Rightarrow> bytes \<Rightarrow> (transport_error, nat) res \<times> socket" where
  "native_write s buf = (case sock_write s buf of (r, s1) \<Rightarrow> (map_err TeIo r, s1))"

definition native_write_all :: "socket writer" where
  "native_write_all s buf = (case sock_write_all s buf of (r, s1) \<Rightarrow> (map_err TeIo r, s1))"

definition native_read_exact :: "socket reader" where
  "native_read_exact s k = (case sock_read_exact s k [] of
     (r, s1) \<Rightarrow> (map_err (\<lambda>e. case e of UnexpectedEofKind \<Rightarrow> TeUnexpectedEof | OtherKind m \<Rightarrow> TeIo m) r, s1))"

text \<open>The outcome of flushing or shutting down is the operating system's.\<close>

definition native_flush :: "(string, unit) res \<Rightarrow> socket action" where
  "native_flush r s = (map_err TeIo r, s)"

definition native_shutdown :: "(string, unit) res \<Rightarrow> socket action" where
  "native_shutdown r s = (map_err TeIo r, s\<lparr>shut := True\<rparr>)"

subsection \<open>The tokio transport\<close>

definition tokio_connect ::
  "(string \<Rightarrow> (string, socket) res) \<Rightarrow> (string, unit) res \<Rightarrow> string \<Rightarrow> nat \<Rightarrow> (transport_error, socket) res"
where
  "tokio_connect dial set_nodelay h p =
     bind_res (map_err TeIo (dial (host_port h p))) (\<lambda>s.
     bind_res (map_err TeIo set_nodelay) (\<lambda>_. Ok (s\<lparr>nodelay := True\<rparr>)))"

text \<open>\<open>timer_first\<close>: the timer of the \<open>select!\<close> fires before the connection is there.\<close>

definition tokio_connect_with_timeout ::
  "bool \<Rightarrow> (string \<Rightarrow> (string, socket) res) \<Rightarrow> (string, unit) res \<Rightarrow> string \<Rightarrow> nat \<Rightarrow> nat option \<Rightarrow>
   (transport_error, socket) res"
where
  "tokio_connect_with_timeout timer_first dial set_nodelay h p timeout =
     (case timeout of
        Some d \<Rightarrow> if timer_first then Err TeTimeout else tokio_connect dial set_nodelay h p
      | None \<Rightarrow> tokio_connect dial set_nodelay h p)"

definition tokio_read :: "socket reader" where
  "tokio_read s k = (case sock_read s k of (r, s1) \<Rightarrow> (map_err TeIo r, s1))"

definition tokio_write :: "socket \<Rightarrow> bytes \<Rightarrow> (transport_error, nat) res \<times> socket" where
  "tokio_write s buf = (case sock_write s buf of (r, s1) \<Rightarrow> (map_err TeIo r, s1))"

definition tokio_write_all :: "socket writer" where
  "tokio_write_all s buf = (case sock_write_all s buf of (r, s1) \<Rightarrow> (map_err TeIo r, s1))"

definition tokio_read_exact :: "socket reader" where
  "tokio_read_exact s k = (case sock_read_exact s k [] of
     (r, s1) \<Rightarrow> (map_err (\<lambda>e. case e of UnexpectedEofKind \<Rightarrow> TeUnexpectedEof | OtherKind m \<Rightarrow> TeIo m) r, s1))"

definition tokio_flush :: "(string, unit) res \<Rightarrow> socket action" where
  "tokio_flush r s = (map_err TeIo r, s)"

definition tokio_shutdown :: "(string, unit) res \<Rightarrow> socket action" where
  "tokio_shutdown r s = (map_err TeIo r, s\<lparr>shut := True\<rparr>)"

subsection \<open>ClientTransport\<close>

datatype client_transport =
    Native socket | Tokio socket | Wasi wasi_transport | Mock mock_transport

definition client_read :: "client_transport reader" where
  "client_read t k = (case t of
      Native s \<Rightarrow> (case native_read s k of (r, s1) \<Rightarrow> (r, Native s1))
    | Tokio s \<Rightarrow> (case tokio_read s k of (r, s1) \<Rightarrow> (r, Tokio s1))
    | Wasi w \<Rightarrow> (case wasi_read w k of (r, w1) \<Rightarrow> (r, Wasi w1))
    | Mock m \<Rightarrow> (case mock_read m k of (r, m1) \<Rightarrow> (r, Mock m1)))"

definition client_write :: "client_transport \<Rightarrow> bytes \<Rightarrow> (transport_error, nat) res \<times> client_transport" where
  "client_write t buf = (case t of
      Native s \<Rightarrow> (case native_write s buf of (r, s1) \<Rightarrow> (r, Native s1))
    | Tokio s \<Rightarrow> (case tokio_write s buf of (r, s1) \<Rightarrow> (r, Tokio s1))
    | Wasi w \<Rightarrow> (case wasi_write w buf of (r, w1) \<Rightarrow> (r, Wasi w1))
    | Mock m \<Rightarrow> (case mock_write m buf of (r, m1) \<Rightarrow> (r, Mock m1)))"

definition client_write_all :: "client_transport writer" where
  "client_write_all t buf = (case t of
      Native s \<Rightarrow> (case native_write_all s buf of (r, s1) \<Rightarrow> (r, Native s1))
    | Tokio s \<Rightarrow> (case tokio_write_all s buf of (r, s1) \<Rightarrow> (r, Tokio s1))
    | Wasi w \<Rightarrow> (case wasi_write_all w buf of (r, w1) \<Rightarrow> (r, Wasi w1))
    | Mock m \<Rightarrow> (case mock_write_all m buf of (r, m1) \<Rightarrow> (r, Mock m1)))"

definition client_read_exact :: "client_transport reader" where
  "client_read_exact t k = (case t of
      Native s \<Rightarrow> (case native_read_exact s k of (r, s1) \<Rightarrow> (r, Native s1))
    | Tokio s \<Rightarrow> (case tokio_read_exact s k of (r, s1) \<Rightarrow> (r, Tokio s1))
    | Wasi w \<Rightarrow> (case wasi_read_exact w k [] of (r, w1) \<Rightarrow> (r, Wasi w1))
    | Mock m \<Rightarrow> (case mock_read_exact m k [] of (r, m1) \<Rightarrow> (r, Mock m1)))"

definition client_flush :: "(string, unit) res \<Rightarrow> client_transport action" where
  "client_flush os t = (case t of
      Native s \<Rightarrow> (case native_flush os s of (r, s1) \<Rightarrow> (r, Native s1))
    | Tokio s \<Rightarrow> (case tokio_flush os s of (r, s1) \<Rightarrow> (r, Tokio s1))
    | Wasi w \<Rightarrow> (case wasi_flush w of (r, w1) \<Rightarrow> (r, Wasi w1))
    | Mock m \<Rightarrow> (case mock_flush m of (r, m1) \<Rightarrow> (r, Mock m1)))"

definition client_shutdown :: "(string, unit) res \<Rightarrow> client_transport action" where
  "client_shutdown os t = (case t of
      Native s \<Rightarrow> (case native_shutdown os s of (r, s1) \<Rightarrow> (r, Native s1))
    | Tokio s \<Rightarrow> (case tokio_shutdown os s of (r, s1) \<Rightarrow> (r, Tokio s1))
    | Wasi w \<Rightarrow> (case wasi_shutdown w of (r, w1) \<Rightarrow> (r, Wasi w1))
    | Mock m \<Rightarrow> (case mock_shutdown m of (r, m1) \<Rightarrow> (r, Mock m1)))"

text \<open>
  Dropping a transport: the blocking one shuts its socket down, the descriptor of the tokio one is
  closed, the WASI one gives up both streams before the socket.
\<close>

definition native_drop :: "socket \<Rightarrow> socket" where "native_drop s = s\<lparr>shut := True\<rparr>"

definition tokio_drop :: "socket \<Rightarrow> socket" where "tokio_drop s = s\<lparr>shut := True\<rparr>"

definition wasi_drop :: "wasi_transport \<Rightarrow> wasi_transport" where
  "wasi_drop w = w\<lparr>output_open := False, input_open := False, output_done := None, input_done := None\<rparr>"

definition client_drop :: "client_transport \<Rightarrow> client_transport" where
  "client_drop t = (case t of
      Native s \<Rightarrow> Native (native_drop s) | Tokio s \<Rightarrow> Tokio (tokio_drop s) | Wasi w \<Rightarrow> Wasi (wasi_drop w) | Mock m \<Rightarrow> Mock m)"

subsection \<open>The contract\<close>

lemma sock_read_frame:
  assumes "sock_read s k = (r, s')"
  shows "outgoing s' = outgoing s \<and>
     (case r of
        Inr bs \<Rightarrow> length bs \<le> k \<and> sock_pend s = bs @ sock_pend s' \<and> (bs = [] \<and> 0 < k \<longrightarrow> sock_pend s = [])
      | Inl e \<Rightarrow> sock_pend s' = sock_pend s)"
  using assms by (auto simp: sock_read_def sock_pend_def min_def split: list.splits sum.splits if_splits)

lemma sock_write_frame:
  assumes "sock_write s buf = (r, s')"
  shows "sock_pend s' = sock_pend s" "r = Ok n \<Longrightarrow> outgoing s' = outgoing s @ take n buf"
  using assms by (auto simp: sock_write_def sock_pend_def min_def split: list.splits sum.splits if_splits)

lemma sock_write_all_frame:
  "sock_write_all s buf = (r, s') \<Longrightarrow> sock_pend s' = sock_pend s \<and> (\<forall>u. r = Ok u \<longrightarrow> outgoing s' = outgoing s @ buf)"
proof (induction s buf rule: sock_write_all.induct)
  case (1 s buf)
  obtain x s1 where w: "sock_write s buf = (x, s1)" by fastforce
  note f = sock_write_frame [OF w]
  show ?case
  proof (cases "buf = [] \<or> (\<exists>e. x = Inl e) \<or> x = Inr 0")
    case True
    then show ?thesis using 1(2) w f by (subst (asm) sock_write_all.simps) (auto split: if_splits)
  next
    case False
    then obtain n where n: "x = Inr n" "n \<noteq> 0" "buf \<noteq> []" by (cases x) auto
    then have "sock_write_all s1 (drop n buf) = (r, s')" using 1(2) w by (subst (asm) sock_write_all.simps) simp
    from 1(1) [OF n(3) w [symmetric] n(1,2) this] f n show ?thesis by simp
  qed
qed

definition client_pend :: "client_transport \<Rightarrow> bytes" where
  "client_pend t = (case t of Native s \<Rightarrow> sock_pend s | Tokio s \<Rightarrow> sock_pend s | Wasi w \<Rightarrow> wasi_pend w | Mock m \<Rightarrow> mock_pend m)"

definition client_sent :: "client_transport \<Rightarrow> bytes" where
  "client_sent t = (case t of Native s \<Rightarrow> outgoing s | Tokio s \<Rightarrow> outgoing s | Wasi w \<Rightarrow> accepted w | Mock m \<Rightarrow> written m)"

definition client_inv :: "client_transport \<Rightarrow> bool" where
  "client_inv t = (case t of Wasi w \<Rightarrow> wasi_inv w | _ \<Rightarrow> True)"

lemma native_read_frame:
  assumes "native_read s k = (r, s')"
  shows "outgoing s' = outgoing s \<and>
     (case r of
        Inr bs \<Rightarrow> length bs \<le> k \<and> sock_pend s = bs @ sock_pend s' \<and> (bs = [] \<and> 0 < k \<longrightarrow> sock_pend s = [])
      | Inl e \<Rightarrow> sock_pend s' = sock_pend s)"
proof -
  obtain x where x: "sock_read s k = (x, s')" "r = map_err TeIo x"
    using assms by (auto simp: native_read_def split: prod.splits)
  show ?thesis using sock_read_frame [OF x(1)] x(2) by (cases x) (auto simp: map_err_def)
qed

lemma native_write_all_frame:
  assumes "native_write_all s buf = (r, s')"
  shows "sock_pend s' = sock_pend s \<and> (\<forall>u. r = Ok u \<longrightarrow> outgoing s' = outgoing s @ buf)"
proof -
  obtain x where x: "sock_write_all s buf = (x, s')" "r = map_err TeIo x"
    using assms by (auto simp: native_write_all_def split: prod.splits)
  show ?thesis using sock_write_all_frame [OF x(1)] x(2) by (cases x) (simp_all add: map_err_def)
qed

interpretation native: async_transport native_read native_write_all sock_pend outgoing "\<lambda>_. True"
  by unfold_locales (use native_read_frame native_write_all_frame in fastforce)+

lemma tokio_native: "tokio_read = native_read" "tokio_write_all = native_write_all"
  by (auto simp: fun_eq_iff tokio_read_def native_read_def tokio_write_all_def native_write_all_def)

interpretation tokio: async_transport tokio_read tokio_write_all sock_pend outgoing "\<lambda>_. True"
  unfolding tokio_native by (rule native.async_transport_axioms)

lemmas client_defs = client_read_def client_write_all_def client_pend_def client_sent_def client_inv_def

interpretation client: async_transport client_read client_write_all client_pend client_sent client_inv
proof (unfold_locales, goal_cases)
  case (1 t k bs t')
  then show ?case
    by (cases t) (auto simp: client_defs split: prod.splits
        dest: native.read_ok [OF TrueI] tokio.read_ok [OF TrueI] wasi.read_ok mock.read_ok [OF TrueI])
next
  case (2 t k t')
  then show ?case
    by (cases t) (auto simp: client_defs split: prod.splits
        dest: native.read_eof [OF TrueI] tokio.read_eof [OF TrueI] wasi.read_eof mock.read_eof [OF TrueI])
next
  case (3 t k e t')
  then show ?case
    by (cases t) (auto simp: client_defs split: prod.splits
        dest: native.read_err [OF TrueI] tokio.read_err [OF TrueI] wasi.read_err mock.read_err [OF TrueI])
next
  case (4 t bs u t')
  then show ?case
    by (cases t) (auto simp: client_defs split: prod.splits
        dest: native.write_ok [OF TrueI] tokio.write_ok [OF TrueI] wasi.write_ok mock.write_ok [OF TrueI])
next
  case (5 t bs e t')
  then show ?case
    by (cases t) (auto simp: client_defs split: prod.splits
        dest: native.write_err [OF TrueI] tokio.write_err [OF TrueI] wasi.write_err mock.write_err [OF TrueI])
qed

subsection \<open>Exact reads over a transport that may fail\<close>

context async_transport
begin

text \<open>What an exact read gives when \<open>acc\<close> of the \<open>k\<close> bytes are there already.\<close>

definition exact_front :: "'t buffered \<Rightarrow> nat \<Rightarrow> bytes \<Rightarrow> (transport_error, bytes) res \<times> 't buffered \<Rightarrow> bool" where
  "exact_front b k acc out = (case out of (r, b') \<Rightarrow>
     bt_inv invar b' \<and> bt_sent sent b' = bt_sent sent b \<and>
     (\<forall>bs. r = Ok bs \<longrightarrow> length bs = k \<and> acc @ bt_pend pend b = bs @ bt_pend pend b'))"

lemma exact_front_consume:
  assumes "bt_inv invar b" "c \<le> length (available b)"
    and "exact_front (b\<lparr>read_pos := read_pos b + c\<rparr>) k (acc @ take c (available b)) out"
  shows "exact_front b k acc out"
proof -
  have "take c (available b) @ bt_pend pend (b\<lparr>read_pos := read_pos b + c\<rparr>) = bt_pend pend b"
    using available_consume [OF assms(1,2)] by (simp add: bt_pend_def flip: append_assoc)
  then show ?thesis using assms(3) by (auto simp: exact_front_def bt_sent_def split: prod.splits)
qed

lemma bt_exact_front:
  assumes "bt_inv invar b" "length acc \<le> k"
  shows "exact_front b k acc (bt_read_exact_loop rd b k acc)"
  using assms
proof (induction "2 * (k - length acc) + (if read_pos b < read_len b then 0 else 1)"
    arbitrary: b acc rule: less_induct)
  case less
  note unf = bt_read_exact_loop.simps [of rd b k acc]
  consider (full) "\<not> length acc < k" | (buffered) "length acc < k" "read_pos b < read_len b"
    | (empty) "length acc < k" "\<not> read_pos b < read_len b" by blast
  then show ?case
  proof cases
    case full
    then show ?thesis using less.prems by (subst unf) (simp add: exact_front_def bt_pend_def bt_sent_def)
  next
    case buffered
    let ?c = "min (k - length acc) (length (available b))"
    let ?b1 = "b\<lparr>read_pos := read_pos b + ?c\<rparr>"
    have av: "0 < length (available b)" using buffered length_available [OF less.prems(1)] by simp
    have "exact_front ?b1 k (acc @ take ?c (available b)) (bt_read_exact_loop rd ?b1 k (acc @ take ?c (available b)))"
      using av buffered bt_inv_consume [OF less.prems(1), of ?c]
      by (intro less.hyps; cases "available b") (auto simp: min_def)
    then show ?thesis using av buffered exact_front_consume [OF less.prems(1), of ?c] by (subst unf) (auto simp: Let_def)
  next
    case empty
    let ?b1 = "ensure_read_capacity (compact_read b) (k - length acc)"
    have i1: "bt_inv invar ?b1" using less.prems(1) by auto
    have av: "available b = []" "available ?b1 = []"
      using empty less.prems(1) by (simp_all add: available_def bt_inv_def)
    have p: "bt_pend pend b = bt_pend pend ?b1" "bt_sent sent ?b1 = bt_sent sent b"
      using av by (simp_all add: bt_pend_def bt_sent_def)
    obtain x b2 where r: "refill rd ?b1 = (x, b2)" by fastforce
    consider (fail) e where "x = Inl e" | (eof) "x = Inr 0" | (more) n where "x = Inr n" "n \<noteq> 0" by (cases x) auto
    then show ?thesis
    proof cases
      case fail
      then show ?thesis using refill_err [OF i1] r empty p by (subst unf) (auto simp: exact_front_def)
    next
      case eof
      have "read_len ?b1 < length (read_buf ?b1)"
        using ensure_capacity_room [OF bt_inv_compact [OF less.prems(1)], of "k - length acc"] empty by (cases "read_buf ?b1") simp_all
      from refill_eof [OF i1 r [unfolded eof] av(2) this] show ?thesis
        using empty r eof p by (subst unf) (auto simp: exact_front_def)
    next
      case (more n)
      let ?b3 = "b2\<lparr>read_len := read_len b2 + n\<rparr>"
      note ok = refill_ok [OF i1 r [unfolded more(1)] av(2) more(2)]
      have "read_pos ?b3 < read_len ?b3" using refill_frame(1,2) [OF r] empty more by simp
      then have "exact_front ?b3 k acc (bt_read_exact_loop rd ?b3 k acc)"
        using ok less.prems empty by (intro less.hyps) auto
      then show ?thesis using empty r more ok p
        by (subst unf) (auto simp: exact_front_def bt_sent_def split: prod.splits)
    qed
  qed
qed

end

subsection \<open>Properties\<close>

text \<open>Reading messages: exact reads of the given lengths, stopping at the first that fails.\<close>

fun read_pieces :: "'t buffered \<Rightarrow> ('t buffered \<Rightarrow> nat \<Rightarrow> (transport_error, bytes) res \<times> 't buffered) \<Rightarrow> nat list \<Rightarrow>
    bytes list \<times> transport_error option \<times> 't buffered" where
  "read_pieces b rx [] = ([], None, b)"
| "read_pieces b rx (k # ks) =
     (case rx b k of
        (Inl e, b1) \<Rightarrow> ([], Some e, b1)
      | (Inr bs, b1) \<Rightarrow> (case read_pieces b1 rx ks of (bss, e, b2) \<Rightarrow> (bs # bss, e, b2)))"

text \<open>
  C28.  What a connection reads is what the server sent, on every platform: over the blocking, the tokio,
  the WASI and the mock transport alike, exact reads of any lengths through \<open>BufferedTransport\<close> give
  consecutive pieces of the requested lengths of the incoming stream, from its beginning, until one
  of them fails; if none fails, what is left is the rest of the stream.  Nothing is skipped,
  duplicated or reordered by the buffer, however the transport cuts the stream and whatever it fails
  with.
\<close>

theorem client_reads_are_the_stream:
  assumes "bt_inv client_inv b" "read_pieces b (bt_read_exact client_read) ks = (bss, e, b')"
  shows "map length bss = take (length bss) ks \<and> length bss \<le> length ks \<and>
     (\<exists>rest. bt_pend client_pend b = concat bss @ rest \<and>
        (e = None \<longrightarrow> length bss = length ks \<and> bt_pend client_pend b' = rest)) \<and>
     bt_sent client_sent b' = bt_sent client_sent b"
  using assms
proof (induction ks arbitrary: b bss e)
  case Nil
  then show ?case by auto
next
  case (Cons k ks)
  obtain r b1 where r: "bt_read_exact client_read b k = (r, b1)" by fastforce
  have f: "bt_inv client_inv b1" "bt_sent client_sent b1 = bt_sent client_sent b"
    "\<And>bs. r = Ok bs \<Longrightarrow> length bs = k \<and> bt_pend client_pend b = bs @ bt_pend client_pend b1"
    using client.bt_exact_front [OF Cons.prems(1), of "[]" k] r
    by (auto simp: bt_read_exact_def client.exact_front_def)
  show ?case
  proof (cases r)
    case (Inl e1)
    then show ?thesis using Cons.prems(2) r f(2) by auto
  next
    case (Inr bs)
    obtain bss1 b2 where x: "read_pieces b1 (bt_read_exact client_read) ks = (bss1, e, b')" "bss = bs # bss1"
      using Cons.prems(2) r Inr by (auto split: prod.splits)
    show ?thesis using Cons.IH [OF f(1) x(1)] f(2) f(3) [OF Inr] x(2) by auto
  qed
qed

text \<open>A tokio socket that delivers at most three bytes at a time and fails on the third call.\<close>

definition sample_client :: client_transport where
  "sample_client = Tokio \<lparr> incoming = [1, 2, 3, 4, 5, 6, 7], read_plan = [Ok 2, Ok 0, Err ''reset''], outgoing = [],
     write_plan = [], nodelay = True, nonblocking = True, shut = False \<rparr>"

theorem client_reads_are_the_stream_witness:
  "\<exists>bss e b'. read_pieces (buffered_new sample_client) (bt_read_exact client_read) [2, 2] = (bss, e, b') \<and>
     map length bss = take (length bss) [2, 2] \<and>
     (\<exists>rest. [1, 2, 3, 4, 5, 6, 7] = concat bss @ rest)"
proof -
  have i: "bt_inv client_inv (buffered_new sample_client)"
    by (simp add: bt_inv_def buffered_new_def with_capacity_def client_inv_def sample_client_def)
  have p: "bt_pend client_pend (buffered_new sample_client) = [1, 2, 3, 4, 5, 6, 7]"
    by (simp add: bt_pend_def available_def buffered_new_def with_capacity_def client_pend_def sample_client_def sock_pend_def)
  obtain bss e b' where e: "read_pieces (buffered_new sample_client) (bt_read_exact client_read) [2, 2] = (bss, e, b')"
    by (metis prod_cases3)
  from client_reads_are_the_stream [OF i this] show ?thesis unfolding p using e by blast
qed

text \<open>A dropped transport has nothing more to deliver, and what was sent on it stays sent.\<close>

lemma client_drop_ends:
  "(case t of Mock _ \<Rightarrow> True | _ \<Rightarrow> client_pend (client_drop t) = []) \<and> client_sent (client_drop t) = client_sent t"
  by (simp add: client_drop_def client_pend_def client_sent_def native_drop_def tokio_drop_def wasi_drop_def sock_pend_def
      wasi_pend_def split: client_transport.splits)

text \<open>The blocking transport disables Nagle's algorithm only when it connects without a timeout argument.\<close>

lemma native_timeout_keeps_nagle:
  assumes "native_connect_with_timeout parse_addr dial_timeout dial nb h p timeout = Ok s"
  shows "\<exists>s0. nodelay s = nodelay s0 \<and> (dial (host_port h p) = Ok s0 \<or> (\<exists>a d. dial_timeout a d = Ok s0))"
  using assms
  by (auto simp: native_connect_with_timeout_def bind_res_def map_err_def split: option.splits sum.splits)

end
