(* ===== verification/Tls_Stream.thy ===== *)
theory Tls_Stream
  imports Wasi_Tcp
begin

text \<open>
  \<open>TlsTransport\<close> of \<open>transport/tls.rs\<close>: the driver that moves ciphertext between a \<open>rustls\<close> session and
  the socket.  The session is third-party code and a parameter, \<open>'r rustls\<close>: the operations of
  \<open>ClientConnection\<close> the driver calls.  What the theorems rely on is stated by \<open>record_layer\<close> (the
  session decrypts the bytes it was given, in order) and \<open>limited_buffer\<close> (the writer refuses plaintext
  beyond a limit).  How much of a slice \<open>read_tls\<close> takes is left open: the driver ignores the count and
  throws the rest of the slice away, which the model records in a history field, \<open>dropped\<close>.
\<close>

datatype read_fault = WouldBlock | ConnAborted | OtherFault string

record 'r rustls =
  rl_write_tls :: "'r \<Rightarrow> (string, bytes) res \<times> 'r"
  rl_is_handshaking :: "'r \<Rightarrow> bool"
  rl_read_tls :: "'r \<Rightarrow> bytes \<Rightarrow> (string, nat) res \<times> 'r"
  rl_process_new_packets :: "'r \<Rightarrow> (string, unit) res \<times> 'r"
  rl_read :: "'r \<Rightarrow> nat \<Rightarrow> (read_fault, bytes) res \<times> 'r"
  rl_write :: "'r \<Rightarrow> bytes \<Rightarrow> (string, nat) res \<times> 'r"
  rl_flush :: "'r \<Rightarrow> (string, unit) res \<times> 'r"
  rl_send_close_notify :: "'r \<Rightarrow> 'r"
  rl_peer_certificate :: "'r \<Rightarrow> bytes option"

text \<open>
  \<open>dropped\<close> is not a field of the program and nothing reads it: it is the history of the ciphertext that
  was read from the socket and neither taken by the session nor kept.
\<close>

record ('t, 'r) tls_transport =
  tls_conn :: 'r
  tls_inner :: 't
  end_point :: "bytes option"
  dropped :: bytes

subsection \<open>Channel binding data\<close>

datatype digest_algorithm = Sha224 | Sha256 | Sha384 | Sha512

definition end_point_digest :: "string \<Rightarrow> digest_algorithm option" where
  "end_point_digest oid =
     (if oid \<in> {''1.2.840.113549.1.1.4'', ''1.2.840.113549.1.1.5'', ''1.2.840.10045.4.1''} then Some Sha256
      else if oid \<in> {''1.2.840.113549.1.1.14'', ''1.2.840.10045.4.3.1''} then Some Sha224
      else if oid \<in> {''1.2.840.113549.1.1.11'', ''1.2.840.10045.4.3.2''} then Some Sha256
      else if oid \<in> {''1.2.840.113549.1.1.12'', ''1.2.840.10045.4.3.3''} then Some Sha384
      else if oid \<in> {''1.2.840.113549.1.1.13'', ''1.2.840.10045.4.3.4''} then Some Sha512
      else None)"

text \<open>\<open>parse_x509\<close> gives the signature algorithm and the bytes of \<open>as_ref\<close> of the parsed certificate.\<close>

definition compute_tls_server_end_point ::
  "(bytes \<Rightarrow> (string, string \<times> bytes) res) \<Rightarrow> (digest_algorithm \<Rightarrow> bytes \<Rightarrow> bytes) \<Rightarrow> bytes \<Rightarrow>
   (transport_error, bytes option) res"
where
  "compute_tls_server_end_point parse_x509 digest cert =
     (case parse_x509 cert of
        Inl e \<Rightarrow> Err (TeTlsHandshake (''failed to parse peer certificate: '' @ e))
      | Inr (signature_oid, der) \<Rightarrow> Ok (map_option (\<lambda>a. digest a der) (end_point_digest signature_oid)))"

subsection \<open>Handshake\<close>

definition MAX_HANDSHAKE_ITERATIONS :: nat where "MAX_HANDSHAKE_ITERATIONS = 100"
definition TLS_BUFFER :: nat where "TLS_BUFFER = 8192"

text \<open>Step 1 of an iteration: write what the session has to send and flush it.\<close>

definition send_flight ::
  "'r rustls \<Rightarrow> 't writer \<Rightarrow> 't action \<Rightarrow> 'r \<Rightarrow> 't \<Rightarrow> (transport_error, 'r \<times> 't) res"
where
  "send_flight L wa fl r t =
     (case rl_write_tls L r of
        (Inl e, r1) \<Rightarrow> Err (TeTlsHandshake (''write_tls: '' @ e))
      | (Inr outgoing, r1) \<Rightarrow>
          if outgoing = [] then Ok (r1, t)
          else (case wa t outgoing of
                  (Inl e, t1) \<Rightarrow> Err e
                | (Inr _, t1) \<Rightarrow> (case fl t1 of (Inl e, t2) \<Rightarrow> Err e | (Inr _, t2) \<Rightarrow> Ok (r1, t2))))"

text \<open>Steps 3 and 4: read ciphertext and feed it to the session.\<close>

definition receive_flight ::
  "'r rustls \<Rightarrow> 't reader \<Rightarrow> 'r \<Rightarrow> 't \<Rightarrow> (transport_error, 'r \<times> 't) res"
where
  "receive_flight L rd r t =
     (case rd t TLS_BUFFER of
        (Inl e, t1) \<Rightarrow> Err e
      | (Inr cs, t1) \<Rightarrow>
          if cs = [] then Err TeUnexpectedEof
          else (case rl_read_tls L r cs of
                  (Inl e, r1) \<Rightarrow> Err (TeTlsHandshake (''read_tls: '' @ e))
                | (Inr n, r1) \<Rightarrow>
                    if n = 0 then Err (TeTlsHandshake ''TLS handshake stalled: no data consumed'')
                    else (case rl_process_new_packets L r1 of
                            (Inl e, r2) \<Rightarrow> Err (TeTlsHandshake (''process_new_packets: '' @ e))
                          | (Inr _, r2) \<Rightarrow> Ok (r2, t1))))"

function handshake_loop ::
  "'r rustls \<Rightarrow> 't reader \<Rightarrow> 't writer \<Rightarrow> 't action \<Rightarrow> nat \<Rightarrow> 'r \<Rightarrow> 't \<Rightarrow> (transport_error, 'r \<times> 't) res"
where
  "handshake_loop L rd wa fl iterations r t =
     (if MAX_HANDSHAKE_ITERATIONS < iterations + 1
      then Err (TeTlsHandshake ''TLS handshake did not complete within iteration limit'')
      else (case send_flight L wa fl r t of
              Inl e \<Rightarrow> Err e
            | Inr (r1, t1) \<Rightarrow>
                if \<not> rl_is_handshaking L r1 then Ok (r1, t1)
                else (case receive_flight L rd r1 t1 of
                        Inl e \<Rightarrow> Err e
                      | Inr (r2, t2) \<Rightarrow> handshake_loop L rd wa fl (iterations + 1) r2 t2)))"
  by pat_completeness auto
termination
  by (relation "measure (\<lambda>(L, rd, wa, fl, iterations, r, t). MAX_HANDSHAKE_ITERATIONS - iterations)") auto

declare handshake_loop.simps [simp del]

text \<open>
  \<open>handshake\<close>: \<open>new_session\<close> stands for the check of the server name and \<open>ClientConnection::new\<close>.
\<close>

definition tls_handshake ::
  "'r rustls \<Rightarrow> (string \<Rightarrow> (string, 'r) res) \<Rightarrow> (bytes \<Rightarrow> (string, string \<times> bytes) res) \<Rightarrow>
   (digest_algorithm \<Rightarrow> bytes \<Rightarrow> bytes) \<Rightarrow> 't reader \<Rightarrow> 't writer \<Rightarrow> 't action \<Rightarrow> 't \<Rightarrow> string \<Rightarrow>
   (transport_error, ('t, 'r) tls_transport) res"
where
  "tls_handshake L new_session parse_x509 digest rd wa fl t name =
     (case new_session name of
        Inl e \<Rightarrow> Err (TeTlsHandshake e)
      | Inr r \<Rightarrow>
          bind_res (handshake_loop L rd wa fl 0 r t) (\<lambda>(r1, t1).
            if rl_is_handshaking L r1 then Err (TeTlsHandshake ''TLS handshake incomplete after loop exit'')
            else bind_res (case rl_peer_certificate L r1 of
                      None \<Rightarrow> Ok None
                    | Some cert \<Rightarrow> compute_tls_server_end_point parse_x509 digest cert) (\<lambda>ep.
                 Ok \<lparr> tls_conn = r1, tls_inner = t1, end_point = ep, dropped = [] \<rparr>)))"

subsection \<open>Reading\<close>

text \<open>\<open>None\<close>: the loop never returns.\<close>

partial_function (option) tls_read ::
  "'r rustls \<Rightarrow> 't reader \<Rightarrow> ('t, 'r) tls_transport \<Rightarrow> nat \<Rightarrow>
   ((transport_error, bytes) res \<times> ('t, 'r) tls_transport) option"
where
  "tls_read L rd t k =
     (case rl_read L (tls_conn t) k of
        (Inr bs, r) \<Rightarrow> Some (Ok bs, t\<lparr>tls_conn := r\<rparr>)
      | (Inl fault, r) \<Rightarrow>
          (case fault of
             ConnAborted \<Rightarrow> Some (Ok [], t\<lparr>tls_conn := r\<rparr>)
           | OtherFault e \<Rightarrow> Some (Err (TeTlsHandshake (''TLS read: '' @ e)), t\<lparr>tls_conn := r\<rparr>)
           | WouldBlock \<Rightarrow>
               (case rd (tls_inner t) TLS_BUFFER of
                  (Inl e, i) \<Rightarrow> Some (Err e, t\<lparr>tls_conn := r, tls_inner := i\<rparr>)
                | (Inr cs, i) \<Rightarrow>
                    if cs = [] then Some (Err TeUnexpectedEof, t\<lparr>tls_conn := r, tls_inner := i\<rparr>)
                    else (case rl_read_tls L r cs of
                            (Inl e, r1) \<Rightarrow> Some (Err (TeTlsHandshake (''read_tls: '' @ e)), t\<lparr>tls_conn := r1, tls_inner := i\<rparr>)
                          | (Inr n, r1) \<Rightarrow>
                              (let t = t\<lparr>tls_inner := i, dropped := dropped t @ drop n cs\<rparr> in
                               (case rl_process_new_packets L r1 of
                                  (Inl e, r2) \<Rightarrow> Some (Err (TeTlsHandshake (''process_new_packets: '' @ e)), t\<lparr>tls_conn := r2\<rparr>)
                                | (Inr _, r2) \<Rightarrow> tls_read L rd (t\<lparr>tls_conn := r2\<rparr>) k))))))"

function tls_read_exact ::
  "'r rustls \<Rightarrow> 't reader \<Rightarrow> ('t, 'r) tls_transport \<Rightarrow> nat \<Rightarrow> bytes \<Rightarrow>
   ((transport_error, bytes) res \<times> ('t, 'r) tls_transport) option"
where
  "tls_read_exact L rd t k acc =
     (if length acc < k then
        (case tls_read L rd t (k - length acc) of
           None \<Rightarrow> None
         | Some (Inl e, t') \<Rightarrow> Some (Err e, t')
         | Some (Inr bs, t') \<Rightarrow>
             if bs = [] then Some (Err TeUnexpectedEof, t') else tls_read_exact L rd t' k (acc @ bs))
      else Some (Ok acc, t))"
  by pat_completeness auto
termination
proof (relation "measure (\<lambda>(L, rd, t, k, acc). k - length acc)", goal_cases)
  case (2 L rd t k acc x r t' bs)
  then show ?case by (cases bs) auto
qed simp

declare tls_read_exact.simps [simp del]

subsection \<open>Writing\<close>

definition flush_tls_outgoing :: "'r rustls \<Rightarrow> 't writer \<Rightarrow> ('t, 'r) tls_transport action" where
  "flush_tls_outgoing L wa t =
     (case rl_write_tls L (tls_conn t) of
        (Inl e, r) \<Rightarrow> (Err (TeTlsHandshake (''write_tls: '' @ e)), t\<lparr>tls_conn := r\<rparr>)
      | (Inr outgoing, r) \<Rightarrow>
          if outgoing = [] then (Ok (), t\<lparr>tls_conn := r\<rparr>)
          else (case wa (tls_inner t) outgoing of (res, i) \<Rightarrow> (res, t\<lparr>tls_conn := r, tls_inner := i\<rparr>)))"

definition tls_write ::
  "'r rustls \<Rightarrow> 't writer \<Rightarrow> ('t, 'r) tls_transport \<Rightarrow> bytes \<Rightarrow> (transport_error, nat) res \<times> ('t, 'r) tls_transport"
where
  "tls_write L wa t buf =
     (case rl_write L (tls_conn t) buf of
        (Inl e, r) \<Rightarrow> (Err (TeTlsHandshake (''TLS write: '' @ e)), t\<lparr>tls_conn := r\<rparr>)
      | (Inr n, r) \<Rightarrow>
          (case flush_tls_outgoing L wa (t\<lparr>tls_conn := r\<rparr>) of
             (Inl e, t1) \<Rightarrow> (Err e, t1)
           | (Inr _, t1) \<Rightarrow> (Ok n, t1)))"

text \<open>The loop of \<open>write_all\<close>, on the part of the buffer not yet handed to the session.\<close>

partial_function (option) write_plain ::
  "'r rustls \<Rightarrow> 'r \<Rightarrow> bytes \<Rightarrow> ((transport_error, unit) res \<times> 'r) option"
where
  "write_plain L r buf =
     (if buf = [] then Some (Ok (), r)
      else (case rl_write L r buf of
              (Inl e, r1) \<Rightarrow> Some (Err (TeTlsHandshake (''TLS write: '' @ e)), r1)
            | (Inr n, r1) \<Rightarrow> write_plain L r1 (drop n buf)))"

definition tls_write_all ::
  "'r rustls \<Rightarrow> 't writer \<Rightarrow> ('t, 'r) tls_transport \<Rightarrow> bytes \<Rightarrow>
   ((transport_error, unit) res \<times> ('t, 'r) tls_transport) option"
where
  "tls_write_all L wa t buf =
     (case write_plain L (tls_conn t) buf of
        None \<Rightarrow> None
      | Some (Inl e, r) \<Rightarrow> Some (Err e, t\<lparr>tls_conn := r\<rparr>)
      | Some (Inr _, r) \<Rightarrow> Some (flush_tls_outgoing L wa (t\<lparr>tls_conn := r\<rparr>)))"

definition tls_flush :: "'r rustls \<Rightarrow> 't writer \<Rightarrow> 't action \<Rightarrow> ('t, 'r) tls_transport action" where
  "tls_flush L wa fl t =
     (case rl_flush L (tls_conn t) of
        (Inl e, r) \<Rightarrow> (Err (TeTlsHandshake (''TLS flush: '' @ e)), t\<lparr>tls_conn := r\<rparr>)
      | (Inr _, r) \<Rightarrow>
          (case flush_tls_outgoing L wa (t\<lparr>tls_conn := r\<rparr>) of
             (Inl e, t1) \<Rightarrow> (Err e, t1)
           | (Inr _, t1) \<Rightarrow> (case fl (tls_inner t1) of (res, i) \<Rightarrow> (res, t1\<lparr>tls_inner := i\<rparr>))))"

definition tls_shutdown :: "'r rustls \<Rightarrow> 't writer \<Rightarrow> 't action \<Rightarrow> ('t, 'r) tls_transport action" where
  "tls_shutdown L wa sd t =
     (case flush_tls_outgoing L wa (t\<lparr>tls_conn := rl_send_close_notify L (tls_conn t)\<rparr>) of
        (Inl e, t1) \<Rightarrow> (Err e, t1)
      | (Inr _, t1) \<Rightarrow> (case sd (tls_inner t1) of (res, i) \<Rightarrow> (res, t1\<lparr>tls_inner := i\<rparr>)))"

subsection \<open>What the session promises\<close>

text \<open>
  \<open>plain r cs\<close>: the plaintext that can still be read from the session \<open>r\<close> when \<open>cs\<close> is the ciphertext
  to come.
\<close>

definition record_layer :: "'r rustls \<Rightarrow> ('r \<Rightarrow> bytes \<Rightarrow> bytes) \<Rightarrow> bool" where
  "record_layer L plain =
     ((\<forall>r k bs r'. rl_read L r k = (Inr bs, r') \<longrightarrow> length bs \<le> k \<and> (\<forall>cs. plain r cs = bs @ plain r' cs)) \<and>
      (\<forall>r k e r'. rl_read L r k = (Inl e, r') \<longrightarrow> (\<forall>cs. plain r' cs = plain r cs)) \<and>
      (\<forall>r cs n r1 u r2. rl_read_tls L r cs = (Inr n, r1) \<longrightarrow> rl_process_new_packets L r1 = (Inr u, r2) \<longrightarrow>
         (\<forall>ds. plain r (take n cs @ ds) = plain r2 ds)))"

text \<open>
  \<open>room r\<close>: an upper bound of the plaintext the session still accepts before its output is taken by
  \<open>write_tls\<close>.  A write takes what fits and reports how much that was; it uses up at least the room of the
  plaintext it took, and more when the limit counts the encoded records.
\<close>

definition limited_buffer :: "'r rustls \<Rightarrow> ('r \<Rightarrow> nat) \<Rightarrow> bool" where
  "limited_buffer L room =
     (\<forall>r buf. \<exists>r'. rl_write L r buf = (Ok (min (room r) (length buf)), r') \<and> room r' \<le> room r - length buf)"

definition tls_pend :: "('r \<Rightarrow> bytes \<Rightarrow> bytes) \<Rightarrow> ('t \<Rightarrow> bytes) \<Rightarrow> ('t, 'r) tls_transport \<Rightarrow> bytes" where
  "tls_pend plain pend t = plain (tls_conn t) (pend (tls_inner t))"

subsection \<open>Lemmas: reading\<close>

lemma record_layer_laws:
  assumes "record_layer L plain"
  shows "rl_read L r k = (Inr bs, r') \<Longrightarrow> length bs \<le> k \<and> plain r cs = bs @ plain r' cs"
    and "rl_read L r k = (Inl e, r') \<Longrightarrow> plain r' cs = plain r cs"
    and "rl_read_tls L r ds = (Inr n, r1) \<Longrightarrow> rl_process_new_packets L r1 = (Inr u, r2) \<Longrightarrow>
      plain r (take n ds @ cs) = plain r2 cs"
  using assms unfolding record_layer_def by blast+

context async_transport
begin

text \<open>
  What a read returns: it does return; what it delivers is the front of the plaintext to come, unless
  ciphertext was thrown away; and whenever it delivers something, there is less to come.
\<close>

definition tls_less :: "('r \<Rightarrow> bytes \<Rightarrow> bytes) \<Rightarrow> (('t, 'r) tls_transport \<times> ('t, 'r) tls_transport) set" where
  "tls_less plain = inv_image (less_than <*lex*> less_than)
     (\<lambda>t. (length (pend (tls_inner t)), length (tls_pend plain pend t)))"

definition delivers ::
  "('r \<Rightarrow> bytes \<Rightarrow> bytes) \<Rightarrow> ('t, 'r) tls_transport \<Rightarrow> nat \<Rightarrow>
   ((transport_error, bytes) res \<times> ('t, 'r) tls_transport) option \<Rightarrow> bool"
where
  "delivers plain t k out = (\<exists>res t' ds. out = Some (res, t') \<and> invar (tls_inner t') \<and> dropped t' = dropped t @ ds \<and>
     length (pend (tls_inner t')) \<le> length (pend (tls_inner t)) \<and>
     (\<forall>bs. res = Ok bs \<longrightarrow> length bs \<le> k \<and> (bs \<noteq> [] \<longrightarrow> (t', t) \<in> tls_less plain) \<and>
        (ds = [] \<longrightarrow> tls_pend plain pend t = bs @ tls_pend plain pend t')))"

lemma tls_read_delivers:
  assumes laws: "record_layer L plain" and "invar (tls_inner t)"
  shows "delivers plain t k (tls_read L rd t k)"
  using assms(2)
proof (induction "length (pend (tls_inner t))" arbitrary: t rule: less_induct)
  case less
  obtain x r where x: "rl_read L (tls_conn t) k = (x, r)" by fastforce
  obtain y i where y: "rd (tls_inner t) TLS_BUFFER = (y, i)" by fastforce
  note unf = tls_read.simps [of L rd t k]
  consider (data) bs where "x = Inr bs" | (fault) e where "x = Inl e" "e \<noteq> WouldBlock"
    | (dry) "x = Inl WouldBlock" "\<And>cs. y = Inr cs \<Longrightarrow> cs = []"
    | (feed) cs where "x = Inl WouldBlock" "y = Inr cs" "cs \<noteq> []"
    by (cases x) blast+
  then show ?case
  proof cases
    case (data bs)
    then show ?thesis using x less.prems record_layer_laws(1) [OF laws, of "tls_conn t" k bs r]
      by (subst unf) (auto simp: delivers_def tls_pend_def tls_less_def)
  next
    case (fault e)
    then show ?thesis using x less.prems record_layer_laws(2) [OF laws, of "tls_conn t" k e r]
      by (subst unf) (cases e; simp add: delivers_def tls_pend_def)
  next
    case dry
    then show ?thesis using x y less.prems read_ok [of "tls_inner t" TLS_BUFFER "[]" i] read_err [of "tls_inner t" TLS_BUFFER]
      by (subst unf) (cases y; auto simp: delivers_def)
  next
    case cs: (feed cs)
    have i: "invar i" "pend (tls_inner t) = cs @ pend i" "length (pend i) < length (pend (tls_inner t))"
      using read_ok [OF less.prems] y cs by auto
    obtain z r1 where z: "rl_read_tls L r cs = (z, r1)" by fastforce
    obtain u r2 where u: "rl_process_new_packets L r1 = (u, r2)" by fastforce
    show ?thesis
    proof (cases "\<exists>n. z = Inr n \<and> u = Inr ()")
      case False
      then show ?thesis using x y z u cs i by (subst unf) (cases z; cases u; simp add: delivers_def)
    next
      case True
      then obtain n where n: "z = Inr n" "u = Inr ()" by blast
      let ?t = "t\<lparr>tls_inner := i, dropped := dropped t @ drop n cs, tls_conn := r2\<rparr>"
      have p: "tls_pend plain pend t = tls_pend plain pend ?t" if "drop n cs = []"
        using record_layer_laws(2) [OF laws, of "tls_conn t" k] record_layer_laws(3) [OF laws, of r cs n r1 _ r2]
          x z u n cs i(2) that append_take_drop_id [of n cs] by (simp add: tls_pend_def)
      have "delivers plain ?t k (tls_read L rd ?t k)" using i(1,3) cs by (intro less.hyps) simp_all
      then obtain res t' ds where d: "tls_read L rd ?t k = Some (res, t')" "invar (tls_inner t')" "dropped t' = dropped t @ drop n cs @ ds"
        "length (pend (tls_inner t')) \<le> length (pend i)"
        "\<And>bs. res = Ok bs \<Longrightarrow> length bs \<le> k \<and> (ds = [] \<longrightarrow> tls_pend plain pend ?t = bs @ tls_pend plain pend t')"
        unfolding delivers_def by auto
      moreover have "(t', t) \<in> tls_less plain" using d(4) i(3) by (simp add: tls_less_def)
      ultimately show ?thesis using x y z u n cs p i(3)
        by (subst unf) (auto simp: delivers_def Let_def intro!: exI [of _ "drop n cs @ ds"])
    qed
  qed
qed

lemma tls_read_exact_delivers:
  assumes laws: "record_layer L plain" and "invar (tls_inner t)" "length acc \<le> k"
  shows "\<exists>res t' ds. tls_read_exact L rd t k acc = Some (res, t') \<and> invar (tls_inner t') \<and> dropped t' = dropped t @ ds \<and>
     (\<forall>bs. res = Ok bs \<longrightarrow> length bs = k \<and> (ds = [] \<longrightarrow> acc @ tls_pend plain pend t = bs @ tls_pend plain pend t'))"
  using assms(2,3)
proof (induction "k - length acc" arbitrary: t acc rule: less_induct)
  case less
  note unf = tls_read_exact.simps [of L rd t k acc]
  show ?case
  proof (cases "length acc < k")
    case False
    then show ?thesis using less.prems by (subst unf) simp
  next
    case True
    from tls_read_delivers [OF laws less.prems(1), of "k - length acc"] obtain res t' ds where
      r: "tls_read L rd t (k - length acc) = Some (res, t')" "invar (tls_inner t')" "dropped t' = dropped t @ ds"
        "\<And>bs. res = Ok bs \<Longrightarrow> length bs \<le> k - length acc \<and> (ds = [] \<longrightarrow> tls_pend plain pend t = bs @ tls_pend plain pend t')"
      unfolding delivers_def by auto
    show ?thesis
    proof (cases "\<exists>bs. res = Ok bs \<and> bs \<noteq> []")
      case False
      then show ?thesis using True r(1,2,3) by (cases res; subst unf) auto
    next
      case True2: True
      then obtain bs where bs: "res = Ok bs" "bs \<noteq> []" by blast
      have "k - length (acc @ bs) < k - length acc" "length (acc @ bs) \<le> k"
        using r(4) [OF bs(1)] bs(2) True by (cases bs, auto)+
      from less.hyps [OF this(1) r(2) this(2)] obtain res' t'' ds' where
        e: "tls_read_exact L rd t' k (acc @ bs) = Some (res', t'')" "invar (tls_inner t'')" "dropped t'' = dropped t' @ ds'"
          "\<And>cs. res' = Ok cs \<Longrightarrow> length cs = k \<and> (ds' = [] \<longrightarrow> (acc @ bs) @ tls_pend plain pend t' = cs @ tls_pend plain pend t'')"
        by blast
      then show ?thesis using r(1,3) r(4) [OF bs(1)] bs True
        by (subst unf) (auto intro!: exI [of _ "ds @ ds'"])
    qed
  qed
qed

end

subsection \<open>Properties: reading\<close>

text \<open>
  C25.  Exact reads through TLS over the WASI socket: if the session decrypts the bytes it takes in
  order, then \<open>read_exact\<close> always returns, however the ciphertext is cut by the host and however little
  of a slice the session takes; when it succeeds it returns exactly \<open>k\<close> bytes, and they are the next
  \<open>k\<close> bytes of the plaintext, the rest of which stays to be read, unless ciphertext the session had not
  taken was thrown away on the way: the driver ignores the count \<open>read_tls\<close> returns, and then what
  follows is lost (lemma \<open>unconsumed_ciphertext_lost\<close>).
\<close>

theorem tls_exact_reads_deliver:
  assumes "record_layer L plain" "wasi_inv (tls_inner t)"
  shows "\<exists>res t' ds. tls_read_exact L wasi_read t k [] = Some (res, t') \<and> wasi_inv (tls_inner t') \<and> dropped t' = dropped t @ ds \<and>
     (\<forall>bs. res = Ok bs \<longrightarrow> length bs = k \<and>
        (ds = [] \<longrightarrow> tls_pend plain wasi_pend t = bs @ tls_pend plain wasi_pend t'))"
  using wasi.tls_read_exact_delivers [OF assms, of "[]" k] by simp

text \<open>
  A session whose cipher complements each byte: the decrypted bytes not yet read, and the
  ciphertext not yet processed.  A call of \<open>read_tls\<close> takes at most \<open>m\<close> bytes.
\<close>

definition complement_session :: "nat \<Rightarrow> (bytes \<times> bytes) rustls" where
  "complement_session m =
     \<lparr> rl_write_tls = \<lambda>r. (Ok [], r), rl_is_handshaking = \<lambda>r. False,
       rl_read_tls = \<lambda>(p, raw) cs. (Ok (min m (length cs)), (p, raw @ take m cs)),
       rl_process_new_packets = \<lambda>(p, raw). (Ok (), (p @ map (\<lambda>b. 255 - b) raw, [])),
       rl_read = \<lambda>(p, raw) k. if p = [] then (Err WouldBlock, (p, raw)) else (Ok (take k p), (drop k p, raw)),
       rl_write = \<lambda>r buf. (Ok (length buf), r), rl_flush = \<lambda>r. (Ok (), r), rl_send_close_notify = \<lambda>r. r,
       rl_peer_certificate = \<lambda>r. None \<rparr>"

definition complement_plain :: "bytes \<times> bytes \<Rightarrow> bytes \<Rightarrow> bytes" where
  "complement_plain r cs = fst r @ map (\<lambda>b. 255 - b) (snd r @ cs)"

lemma complement_record_layer: "record_layer (complement_session m) complement_plain"
  by (auto simp: record_layer_def complement_session_def complement_plain_def min_def split: prod.splits if_splits)

definition sample_tls :: "(bytes list) \<Rightarrow> (wasi_transport, bytes \<times> bytes) tls_transport" where
  "sample_tls items = \<lparr> tls_conn = ([], []), tls_inner = sample_wasi items [] (Ok ()), end_point = None, dropped = [] \<rparr>"

lemmas tls_eval = tls_read_exact.simps tls_read.simps complement_session_def sample_tls_def sample_wasi_def wasi_read_def
  TLS_BUFFER_def finish_read_def receive_status_def map_err_def

theorem tls_exact_reads_deliver_witness:
  "\<exists>t'. tls_read_exact (complement_session 2) wasi_read (sample_tls [[254], [253, 252]]) 2 [] = Some (Ok [1, 2], t') \<and>
     dropped t' = [] \<and> tls_pend complement_plain wasi_pend t' = [3]"
proof -
  let ?L = "complement_session 2" and ?t = "sample_tls [[254], [253, 252]]"
  have "wasi_inv (tls_inner ?t)" by (simp add: sample_tls_def sample_wasi_def wasi_inv_def)
  from tls_exact_reads_deliver [OF complement_record_layer this, of 2 2] obtain res t' ds where
    "tls_read_exact ?L wasi_read ?t 2 [] = Some (res, t')" "dropped t' = dropped ?t @ ds"
    "\<forall>bs. res = Ok bs \<longrightarrow> length bs = 2 \<and> (ds = [] \<longrightarrow> tls_pend complement_plain wasi_pend ?t = bs @ tls_pend complement_plain wasi_pend t')"
    by auto
  moreover have "\<exists>t'. tls_read_exact ?L wasi_read ?t 2 [] = Some (Ok [1, 2], t') \<and> dropped t' = []" by (simp add: tls_eval)
  moreover have "tls_pend complement_plain wasi_pend ?t = [1, 2, 3]"
    by (simp add: tls_pend_def complement_plain_def sample_tls_def sample_wasi_def wasi_pend_def)
  moreover have "dropped ?t = []" by (simp add: sample_tls_def)
  ultimately show ?thesis by auto
qed

lemma unconsumed_ciphertext_lost:
  "\<exists>t'. tls_read_exact (complement_session 1) wasi_read (sample_tls [[254, 253, 252], [251]]) 2 [] = Some (Ok [1, 4], t') \<and>
     dropped t' = [253, 252]"
  by (simp add: tls_eval)

subsection \<open>Writing\<close>

lemma write_plain_bound:
  fixes L :: "'r rustls"
  assumes "write_plain L r buf = Some out" "limited_buffer L room"
  shows "length buf \<le> room r"
proof -
  have "limited_buffer L room \<longrightarrow> length buf \<le> room r"
  proof (rule write_plain.raw_induct [OF _ assms(1)], intro impI)
    fix wp :: "'r rustls \<Rightarrow> 'r \<Rightarrow> bytes \<Rightarrow> ((transport_error, unit) res \<times> 'r) option"
      and L :: "'r rustls" and r buf out
    assume ih: "\<And>L r buf out. wp L r buf = Some out \<Longrightarrow> limited_buffer L room \<longrightarrow> length buf \<le> room r"
      and eq: "(if buf = [] then Some (Ok (), r) else case rl_write L r buf of
           (Inl e, r1) \<Rightarrow> Some (Err (TeTlsHandshake (''TLS write: '' @ e)), r1)
         | (Inr n, r1) \<Rightarrow> wp L r1 (drop n buf)) = Some out"
      and lim: "limited_buffer L room"
    obtain r1 where w: "rl_write L r buf = (Ok (min (room r) (length buf)), r1)" "room r1 \<le> room r - length buf"
      using lim unfolding limited_buffer_def by blast
    show "length buf \<le> room r"
    proof (cases "buf = []")
      case False
      then have "wp L r1 (drop (min (room r) (length buf)) buf) = Some out" using eq w(1) by simp
      from ih [OF this] lim w(2) show ?thesis by (simp add: min_def split: if_splits)
    qed simp
  qed
  then show ?thesis using assms(2) by simp
qed

lemma write_plain_fits:
  assumes "limited_buffer L room" "length buf \<le> room r"
  shows "\<exists>r'. write_plain L r buf = Some (Ok (), r')"
proof (cases "buf = []")
  case False
  obtain r1 where "rl_write L r buf = (Ok (length buf), r1)"
    using assms unfolding limited_buffer_def by (metis min.absorb2)
  then show ?thesis using False by (subst write_plain.simps) (simp add: write_plain.simps)
qed (simp add: write_plain.simps)

text \<open>
  C26.  \<open>write_all\<close> on a TLS transport returns exactly when the buffer fits into the room the session
  has left: the loop hands over plaintext without ever taking the ciphertext out, so once the session is
  full every further write takes nothing and the loop spins for ever.  All that is asked of the session
  is that a write takes what fits and leaves at most the room that was there before without it.
\<close>

theorem tls_write_all_returns_iff:
  assumes "limited_buffer L room"
  shows "(\<exists>out. tls_write_all L wa t buf = Some out) \<longleftrightarrow> length buf \<le> room (tls_conn t)"
  using write_plain_bound [OF _ assms, of "tls_conn t" buf] write_plain_fits [OF assms, of buf "tls_conn t"]
  by (fastforce simp: tls_write_all_def split: option.splits prod.splits sum.splits)

text \<open>
  A session whose limit counts the bytes of the records it has encoded, 22 more than the plaintext of
  each: it cuts what it is given to the room left and then loses the overhead too.
\<close>

definition counting_session :: "nat rustls" where
  "counting_session =
     \<lparr> rl_write_tls = \<lambda>r. (Ok [], r), rl_is_handshaking = \<lambda>r. False, rl_read_tls = \<lambda>r cs. (Ok (length cs), r),
       rl_process_new_packets = \<lambda>r. (Ok (), r), rl_read = \<lambda>r k. (Err WouldBlock, r),
       rl_write = \<lambda>r buf. (Ok (min r (length buf)), r - (length buf + 22)), rl_flush = \<lambda>r. (Ok (), r),
       rl_send_close_notify = \<lambda>r. r, rl_peer_certificate = \<lambda>r. None \<rparr>"

theorem tls_write_all_returns_iff_witness:
  "\<nexists>out. tls_write_all counting_session wasi_write_all
     \<lparr> tls_conn = 65536, tls_inner = sample_wasi [] [] (Ok ()), end_point = None, dropped = [] \<rparr> (replicate 65537 0) = Some out"
proof -
  have "limited_buffer counting_session id" unfolding limited_buffer_def counting_session_def by (simp; arith)
  from tls_write_all_returns_iff [OF this, of wasi_write_all
      "\<lparr> tls_conn = 65536, tls_inner = sample_wasi [] [] (Ok ()), end_point = None, dropped = [] \<rparr>" "replicate 65537 0"]
  show ?thesis by simp
qed

subsection \<open>The handshake\<close>

lemma handshake_loop_complete:
  "handshake_loop L rd wa fl n r t = Ok (r', t') \<Longrightarrow> \<not> rl_is_handshaking L r'"
proof (induction L rd wa fl n r t rule: handshake_loop.induct)
  case (1 L rd wa fl n r t)
  show ?case using 1(2) 1(1) by (subst (asm) handshake_loop.simps) (auto split: if_splits sum.splits prod.splits)
qed

lemma tls_handshake_complete:
  assumes "tls_handshake L new parse digest rd wa fl t name = Ok tls"
  shows "\<not> rl_is_handshaking L (tls_conn tls)"
  using assms handshake_loop_complete
  by (fastforce simp: tls_handshake_def bind_res_def split: sum.splits prod.splits if_splits)

end
