(* ===== verification/Tls_Verify.thy ===== *)
theory Tls_Verify
  imports Auth Tls_Stream
begin

text \<open>
  Certificate verification (\<open>transport/tls.rs\<close>): the \<open>rustls\<close> configuration built from a \<open>TlsConfig\<close>, the
  two verifiers of the crate, and their composition with the SSL negotiation and the handshake.  The
  parsing of PEM, the trust-anchor and host-name checks of \<open>rustls\<close>, its own verifier and the built-in
  roots are parameters, collected in the record \<open>pki\<close>.
\<close>

subsection \<open>Configuration\<close>

record tls_options = tls_config +
  ca_cert :: "bytes option"
  client_cert :: "bytes option"
  client_key :: "bytes option"

definition default_tls_options :: tls_options where
  "default_tls_options = \<lparr> tls_mode = VerifyFull, server_name = [], tls_accept_invalid_certs = False,
     ca_cert = None, client_cert = None, client_key = None \<rparr>"

definition tls_config_new :: "ssl_mode \<Rightarrow> string \<Rightarrow> tls_options" where
  "tls_config_new mode name = default_tls_options\<lparr>tls_mode := mode, server_name := name\<rparr>"

record ('k, 'pc) pki =
  pem_certs :: "bytes \<Rightarrow> (string, bytes list) res"
  pem_key :: "bytes \<Rightarrow> (string, 'k) res"
  pkcs8_key :: "bytes \<Rightarrow> 'k"
  add_root :: "bytes list \<Rightarrow> bytes \<Rightarrow> (string, bytes list) res"
  built_in_roots :: "bytes list"
  protocol_versions :: "(string, unit) res"
  certified_key :: "bytes list \<Rightarrow> 'k \<Rightarrow> (string, unit) res"
  parse_cert :: "bytes \<Rightarrow> (string, 'pc) res"
  signed_by_anchor :: "'pc \<Rightarrow> bytes list \<Rightarrow> bytes list \<Rightarrow> nat \<Rightarrow> (string, unit) res"
  name_matches :: "'pc \<Rightarrow> string \<Rightarrow> (string, unit) res"
  webpki_verify :: "bytes list \<Rightarrow> bytes \<Rightarrow> bytes list \<Rightarrow> string \<Rightarrow> nat \<Rightarrow> (string, unit) res"

definition parse_certs :: "('k, 'pc) pki \<Rightarrow> bytes \<Rightarrow> (transport_error, bytes list) res" where
  "parse_certs X bs = (case pem_certs X bs of
      Inr certs \<Rightarrow> if certs \<noteq> [] then Ok certs else Ok [bs]
    | Inl _ \<Rightarrow> Ok [bs])"

definition parse_private_key :: "('k, 'pc) pki \<Rightarrow> bytes \<Rightarrow> (transport_error, 'k) res" where
  "parse_private_key X bs = (case pem_key X bs of Inr k \<Rightarrow> Ok k | Inl _ \<Rightarrow> Ok (pkcs8_key X bs))"

fun add_roots :: "('k, 'pc) pki \<Rightarrow> bytes list \<Rightarrow> bytes list \<Rightarrow> (transport_error, bytes list) res" where
  "add_roots X store [] = Ok store"
| "add_roots X store (cert # certs) =
     (case add_root X store cert of
        Inl e \<Rightarrow> Err (TeTlsHandshake (''failed to add CA certificate: '' @ e))
      | Inr store1 \<Rightarrow> add_roots X store1 certs)"

definition build_root_store :: "('k, 'pc) pki \<Rightarrow> bytes option \<Rightarrow> (transport_error, bytes list) res" where
  "build_root_store X ca = (case ca of
      Some bs \<Rightarrow> bind_res (parse_certs X bs) (add_roots X [])
    | None \<Rightarrow> Ok (built_in_roots X))"

subsection \<open>Verifiers\<close>

text \<open>\<open>WebPki\<close> is the verifier \<open>rustls\<close> installs for a root store.\<close>

datatype verifier = NoVerifier | CertificateVerifier "bytes list" bool | WebPki "bytes list"

record 'k client_config =
  cc_verifier :: verifier
  cc_client_auth :: "(bytes list \<times> 'k) option"
  cc_alpn :: "string list"

definition verify_server_cert ::
  "('k, 'pc) pki \<Rightarrow> verifier \<Rightarrow> bytes \<times> bytes list \<times> nat \<Rightarrow> string \<Rightarrow> (string, unit) res"
where
  "verify_server_cert X v shown name = (case shown of (end_entity, intermediates, now_t) \<Rightarrow>
     (case v of
        NoVerifier \<Rightarrow> Ok ()
      | CertificateVerifier roots verify_hostname \<Rightarrow>
          bind_res (parse_cert X end_entity) (\<lambda>cert.
          bind_res (signed_by_anchor X cert roots intermediates now_t) (\<lambda>_.
          if verify_hostname then name_matches X cert name else Ok ()))
      | WebPki roots \<Rightarrow> webpki_verify X roots end_entity intermediates name now_t))"

text \<open>\<open>build_rustls_config\<close>, on the verification policy of the configuration and its key material.\<close>

definition policy_verifier ::
  "('k, 'pc) pki \<Rightarrow> tls_verification_policy \<Rightarrow> bytes option \<Rightarrow> (transport_error, verifier) res"
where
  "policy_verifier X pol ca = (case pol of
      InsecureNoVerify \<Rightarrow> Ok NoVerifier
    | VerifyCaOnly \<Rightarrow> bind_res (build_root_store X ca) (\<lambda>roots. Ok (CertificateVerifier roots False))
    | VerifyFullPolicy \<Rightarrow> bind_res (build_root_store X ca) (\<lambda>roots. Ok (WebPki roots)))"

definition client_auth ::
  "('k, 'pc) pki \<Rightarrow> bytes option \<Rightarrow> bytes option \<Rightarrow> (transport_error, (bytes list \<times> 'k) option) res"
where
  "client_auth X cert key = (case (cert, key) of
      (Some cert_bytes, Some key_bytes) \<Rightarrow>
        bind_res (parse_certs X cert_bytes) (\<lambda>certs.
        bind_res (parse_private_key X key_bytes) (\<lambda>k.
        bind_res (map_err (\<lambda>e. TeTlsHandshake (''invalid client cert/key: '' @ e)) (certified_key X certs k)) (\<lambda>_.
        Ok (Some (certs, k)))))
    | _ \<Rightarrow> Ok None)"

definition build_with_policy ::
  "('k, 'pc) pki \<Rightarrow> tls_verification_policy \<Rightarrow> bytes option \<Rightarrow> bytes option \<Rightarrow> bytes option \<Rightarrow>
   (transport_error, 'k client_config) res"
where
  "build_with_policy X pol ca cert key =
     bind_res (map_err (\<lambda>e. TeTlsHandshake (''unsupported protocol versions: '' @ e)) (protocol_versions X)) (\<lambda>_.
     bind_res (policy_verifier X pol ca) (\<lambda>v.
     bind_res (client_auth X cert key) (\<lambda>auth.
     Ok \<lparr> cc_verifier = v, cc_client_auth = auth, cc_alpn = [] \<rparr>)))"

definition build_rustls_config :: "('k, 'pc) pki \<Rightarrow> tls_options \<Rightarrow> (transport_error, 'k client_config) res" where
  "build_rustls_config X c =
     build_with_policy X (verification_policy (tls_config.truncate c)) (ca_cert c) (client_cert c) (client_key c)"

subsection \<open>The handshake of a negotiation\<close>

text \<open>
  The branch of \<open>negotiate_tls\<close> for a server that accepts TLS, with the configuration \<open>apply_tls\<close> makes:
  no certificate authority and no client certificate of its own.
\<close>

definition run_handshake ::
  "('k, 'pc) pki \<Rightarrow> 'r rustls \<Rightarrow> ('k client_config \<Rightarrow> string \<Rightarrow> (string, 'r) res) \<Rightarrow>
   (bytes \<Rightarrow> (string, string \<times> bytes) res) \<Rightarrow> (digest_algorithm \<Rightarrow> bytes \<Rightarrow> bytes) \<Rightarrow>
   't reader \<Rightarrow> 't writer \<Rightarrow> 't action \<Rightarrow> 't \<Rightarrow> tls_verification_policy \<Rightarrow> string \<Rightarrow>
   (transport_error, ('t, 'r) tls_transport) res"
where
  "run_handshake X L new_session parse_x509 digest rd wa fl t pol name =
     bind_res (build_with_policy X pol None None None) (\<lambda>cc.
       tls_handshake L (new_session cc) parse_x509 digest rd wa fl t name)"

subsection \<open>What is relied on\<close>

text \<open>
  \<open>authenticates\<close>: a session that \<open>rustls\<close> made for a configuration and a name stays one for them, and
  has finished its handshake only if the configured verifier accepted the certificates the server
  showed for that name.  \<open>webpki_sound\<close>: the verifier of \<open>rustls\<close> accepts only a certificate that leads
  to one of its roots and bears the name.
\<close>

definition authenticates ::
  "('k, 'pc) pki \<Rightarrow> 'r rustls \<Rightarrow> ('k client_config \<Rightarrow> string \<Rightarrow> (string, 'r) res) \<Rightarrow>
   ('k client_config \<Rightarrow> string \<Rightarrow> 'r \<Rightarrow> bool) \<Rightarrow> ('r \<Rightarrow> bytes \<times> bytes list \<times> nat) \<Rightarrow> bool"
where
  "authenticates X L new_session P shown =
     ((\<forall>cc name r. new_session cc name = Ok r \<longrightarrow> P cc name r) \<and>
      (\<forall>cc name r x r'. P cc name r \<longrightarrow> rl_write_tls L r = (x, r') \<longrightarrow> P cc name r') \<and>
      (\<forall>cc name r cs x r'. P cc name r \<longrightarrow> rl_read_tls L r cs = (x, r') \<longrightarrow> P cc name r') \<and>
      (\<forall>cc name r x r'. P cc name r \<longrightarrow> rl_process_new_packets L r = (x, r') \<longrightarrow> P cc name r') \<and>
      (\<forall>cc name r. P cc name r \<longrightarrow> \<not> rl_is_handshaking L r \<longrightarrow>
         verify_server_cert X (cc_verifier cc) (shown r) name = Ok ()))"

definition webpki_sound :: "('k, 'pc) pki \<Rightarrow> bool" where
  "webpki_sound X = (\<forall>roots cert ints name t. webpki_verify X roots cert ints name t = Ok () \<longrightarrow>
     (\<exists>pc. parse_cert X cert = Ok pc \<and> signed_by_anchor X pc roots ints t = Ok () \<and> name_matches X pc name = Ok ()))"

subsection \<open>Lemmas\<close>

lemma authenticates_laws:
  assumes "authenticates X L new_session P shown"
  shows "new_session cc name = Ok r \<Longrightarrow> P cc name r"
    and "P cc name r \<Longrightarrow> rl_write_tls L r = (x, r') \<Longrightarrow> P cc name r'"
    and "P cc name r \<Longrightarrow> rl_read_tls L r cs = (y, r') \<Longrightarrow> P cc name r'"
    and "P cc name r \<Longrightarrow> rl_process_new_packets L r = (z, r') \<Longrightarrow> P cc name r'"
    and "P cc name r \<Longrightarrow> \<not> rl_is_handshaking L r \<Longrightarrow> verify_server_cert X (cc_verifier cc) (shown r) name = Ok ()"
proof -
  note law = assms [unfolded authenticates_def]
  show "new_session cc name = Ok r \<Longrightarrow> P cc name r" by (rule law [THEN conjunct1, rule_format])
  show "P cc name r \<Longrightarrow> rl_write_tls L r = (x, r') \<Longrightarrow> P cc name r'"
    by (rule law [THEN conjunct2, THEN conjunct1, rule_format])
  show "P cc name r \<Longrightarrow> rl_read_tls L r cs = (y, r') \<Longrightarrow> P cc name r'"
    by (rule law [THEN conjunct2, THEN conjunct2, THEN conjunct1, rule_format])
  show "P cc name r \<Longrightarrow> rl_process_new_packets L r = (z, r') \<Longrightarrow> P cc name r'"
    by (rule law [THEN conjunct2, THEN conjunct2, THEN conjunct2, THEN conjunct1, rule_format])
  show "P cc name r \<Longrightarrow> \<not> rl_is_handshaking L r \<Longrightarrow> verify_server_cert X (cc_verifier cc) (shown r) name = Ok ()"
    by (rule law [THEN conjunct2, THEN conjunct2, THEN conjunct2, THEN conjunct2, rule_format])
qed

lemma send_flight_keeps:
  assumes "authenticates X L new_session P shown" "P cc name r" "send_flight L wa fl r t = Ok (r1, t1)"
  shows "P cc name r1"
proof -
  obtain x where "rl_write_tls L r = (x, r1)"
    using assms(3) by (auto simp: send_flight_def split: prod.splits sum.splits if_splits)
  then show ?thesis by (rule authenticates_laws(2) [OF assms(1,2)])
qed

lemma receive_flight_keeps:
  assumes "authenticates X L new_session P shown" "P cc name r" "receive_flight L rd r t = Ok (r1, t1)"
  shows "P cc name r1"
proof -
  obtain cs x y r' where "rl_read_tls L r cs = (x, r')" "rl_process_new_packets L r' = (y, r1)"
    using assms(3) by (auto simp: receive_flight_def split: prod.splits sum.splits if_splits)
  then show ?thesis using authenticates_laws(3,4) [OF assms(1)] assms(2) by metis
qed

lemma handshake_loop_keeps:
  assumes "authenticates X L new_session P shown" "P cc name r" "handshake_loop L rd wa fl n r t = Ok (r', t')"
  shows "P cc name r'"
  using assms
proof (induction L rd wa fl n r t rule: handshake_loop.induct)
  case (1 L rd wa fl n r t)
  obtain r1 t1 where s: "\<not> MAX_HANDSHAKE_ITERATIONS < n + 1" "send_flight L wa fl r t = Ok (r1, t1)"
    using "1.prems"(3) by (subst (asm) handshake_loop.simps) (auto split: if_splits sum.splits prod.splits)
  have p1: "P cc name r1" by (rule send_flight_keeps [OF "1.prems"(1,2) s(2)])
  show ?case
  proof (cases "rl_is_handshaking L r1")
    case False
    then show ?thesis using p1 "1.prems"(3) s by (subst (asm) handshake_loop.simps) simp
  next
    case True
    then obtain r2 t2 where v: "receive_flight L rd r1 t1 = Ok (r2, t2)"
      "handshake_loop L rd wa fl (n + 1) r2 t2 = Ok (r', t')"
      using "1.prems"(3) s by (subst (asm) handshake_loop.simps) (auto split: sum.splits prod.splits)
    show ?thesis
      using "1.IH" [OF s(1,2) refl _ v(1) refl "1.prems"(1) receive_flight_keeps [OF "1.prems"(1) p1 v(1)] v(2)] True by simp
  qed
qed

lemma run_handshake_verified:
  assumes "authenticates X L new_session P shown"
    and "run_handshake X L new_session parse digest rd wa fl t pol name = Ok tls"
  shows "\<exists>v. policy_verifier X pol None = Ok v \<and> verify_server_cert X v (shown (tls_conn tls)) name = Ok ()"
proof -
  obtain cc where cc: "build_with_policy X pol None None None = Ok cc"
    "tls_handshake L (new_session cc) parse digest rd wa fl t name = Ok tls"
    using assms(2) by (auto simp: run_handshake_def bind_res_def split: sum.splits)
  obtain r r1 t1 where r: "new_session cc name = Ok r" "handshake_loop L rd wa fl 0 r t = Ok (r1, t1)" "tls_conn tls = r1"
    using cc(2) by (auto simp: tls_handshake_def bind_res_def split: sum.splits prod.splits if_splits)
  have "P cc name r" by (rule authenticates_laws(1) [OF assms(1) r(1)])
  then have "P cc name r1" by (rule handshake_loop_keeps [OF assms(1) _ r(2)])
  then have "verify_server_cert X (cc_verifier cc) (shown r1) name = Ok ()"
    by (rule authenticates_laws(5) [OF assms(1) _ handshake_loop_complete [OF r(2)]])
  moreover have "policy_verifier X pol None = Ok (cc_verifier cc)"
    using cc(1) by (auto simp: build_with_policy_def bind_res_def split: sum.splits)
  ultimately show ?thesis using r(3) by blast
qed

subsection \<open>Properties\<close>

text \<open>
  The server of a verified connection is authenticated: with \<open>sslmode\<close> \<open>verify-ca\<close> or
  \<open>verify-full\<close> and without \<open>accept_invalid_certs\<close>, a transport that \<open>apply_tls\<close> returns is a TLS transport
  whose server showed a certificate signed, at the time of the handshake, by one of the built-in
  roots, and with \<open>verify-full\<close> that certificate bears the configured host name.  This goes through the
  negotiation, the choice of the verification policy, the building of the \<open>rustls\<close> configuration, the
  verifier of the crate and the handshake loop.
\<close>

lemma verified_server:
  assumes "ssl_mode c \<in> {VerifyCa, VerifyFull}" "\<not> accept_invalid_certs c"
    and "webpki_sound X" "authenticates X L new_session P shown"
    and "apply_tls clock rx wa fl (run_handshake X L new_session parse_x509 digest rd wa fl) lossy t c = Ok r"
  shows "\<exists>tls cert ints t pc. r = Tls tls \<and> shown (tls_conn tls) = (cert, ints, t) \<and> parse_cert X cert = Ok pc \<and>
     signed_by_anchor X pc (built_in_roots X) ints t = Ok () \<and>
     (ssl_mode c = VerifyFull \<longrightarrow> name_matches X pc (host c) = Ok ())"
proof -
  let ?pol = "verification_policy \<lparr> tls_mode = ssl_mode c, server_name = host c, tls_accept_invalid_certs = accept_invalid_certs c \<rparr>"
  obtain tls t' where h: "r = Tls tls"
    "run_handshake X L new_session parse_x509 digest rd wa fl t' ?pol (host c) = Ok tls"
    using apply_tls_secure [OF _ assms(5)] assms(1) by auto
  obtain v where v: "policy_verifier X ?pol None = Ok v" "verify_server_cert X v (shown (tls_conn tls)) (host c) = Ok ()"
    using run_handshake_verified [OF assms(4) h(2)] by blast
  obtain cert ints tm where sh: "shown (tls_conn tls) = (cert, ints, tm)" by (metis prod_cases3)
  have "\<exists>pc. parse_cert X cert = Ok pc \<and> signed_by_anchor X pc (built_in_roots X) ints tm = Ok () \<and>
      (ssl_mode c = VerifyFull \<longrightarrow> name_matches X pc (host c) = Ok ())"
  proof (cases "ssl_mode c = VerifyFull")
    case True
    then have "v = WebPki (built_in_roots X)" using v(1) assms(2)
      by (simp add: verification_policy_def policy_verifier_def build_root_store_def bind_res_def)
    then have "webpki_verify X (built_in_roots X) cert ints (host c) tm = Ok ()"
      using v(2) sh by (simp add: verify_server_cert_def)
    from assms(3) [unfolded webpki_sound_def, rule_format, OF this] show ?thesis by blast
  next
    case False
    then have "v = CertificateVerifier (built_in_roots X) False" using v(1) assms(1,2)
      by (auto simp: verification_policy_def policy_verifier_def build_root_store_def bind_res_def)
    then show ?thesis using v(2) sh False
      by (auto simp: verify_server_cert_def bind_res_def split: sum.splits)
  qed
  then show ?thesis using h(1) sh by blast
qed

text \<open>
  One trusted root, which signs itself and bears the name \<open>db\<close>; a session that shows it and finishes
  after one flight of the server.
\<close>

definition sample_pki :: "(bytes, bytes) pki" where
  "sample_pki =
     \<lparr> pem_certs = \<lambda>_. Err ''no PEM'', pem_key = \<lambda>_. Err ''no PEM'', pkcs8_key = id, add_root = \<lambda>store cert. Ok (store @ [cert]),
       built_in_roots = [[7]], protocol_versions = Ok (), certified_key = \<lambda>_ _. Ok (), parse_cert = \<lambda>bs. Ok bs,
       signed_by_anchor = \<lambda>cert roots _ _. if cert \<in> set roots then Ok () else Err ''unknown issuer'',
       name_matches = \<lambda>cert name. if name = ''db'' then Ok () else Err ''not valid for name'',
       webpki_verify = \<lambda>roots cert _ name _. if cert \<in> set roots \<and> name = ''db'' then Ok () else Err ''invalid'' \<rparr>"

definition sample_session :: "bool rustls" where
  "sample_session =
     \<lparr> rl_write_tls = \<lambda>r. (Ok [], r), rl_is_handshaking = \<lambda>r. r, rl_read_tls = \<lambda>r cs. (Ok (length cs), r),
       rl_process_new_packets = \<lambda>r. (Ok (), False), rl_read = \<lambda>r k. (Err WouldBlock, r), rl_write = \<lambda>r buf. (Ok (length buf), r),
       rl_flush = \<lambda>r. (Ok (), r), rl_send_close_notify = \<lambda>r. r, rl_peer_certificate = \<lambda>r. None \<rparr>"

definition sample_new_session :: "bytes client_config \<Rightarrow> string \<Rightarrow> (string, bool) res" where
  "sample_new_session cc name = bind_res (verify_server_cert sample_pki (cc_verifier cc) ([7], [], 0) name) (\<lambda>_. Ok True)"

lemma sample_authenticates:
  "authenticates sample_pki sample_session sample_new_session
     (\<lambda>cc name r. verify_server_cert sample_pki (cc_verifier cc) ([7], [], 0) name = Ok ()) (\<lambda>r. ([7], [], 0))"
  by (auto simp: authenticates_def sample_new_session_def bind_res_def split: sum.splits)

lemma sample_webpki_sound: "webpki_sound sample_pki"
  by (auto simp: webpki_sound_def sample_pki_def split: if_splits)

end
