(* ===== verification/Pool.thy ===== *)
theory Pool
  imports Query Retry
begin

text \<open>
  The connection pool (\<open>pool/core.rs\<close>, \<open>pool/guard.rs\<close>, \<open>pool/config.rs\<close>, \<open>pool/status.rs\<close>).

  The pool is shared: its operations lock the inner state for short critical sections and await
  network operations in between, with the lock released.  An operation is therefore modelled as a
  task, a state machine whose every step is one critical section or one awaited call; \<open>task_step\<close> is
  that machine, and \<open>pool_step\<close> interleaves the tasks of any number of clients with each other, with
  \<open>close\<close> and with \<open>maintain\<close>.  The clock and the outcome of establishing a connection
  (\<open>Connection::connect\<close>, \<open>connect_with_retry\<close>) are inputs of a step.  The inbox of a connection holds
  everything it will ever receive, so an awaited call that is \<open>Pending\<close> on it never returns: its task
  stays where it is.
\<close>

subsection \<open>Configuration\<close>

record pool_config =
  pool_connection :: config
  min_idle :: nat
  max_size :: nat
  acquire_timeout :: "nat option"
  max_lifetime :: "nat option"
  idle_timeout :: "nat option"
  test_on_acquire :: bool
  after_connect :: "string option"
  before_return :: "string option"

definition default_pool_config :: pool_config where
  "default_pool_config =
     \<lparr> pool_connection = config_new, min_idle = 0, max_size = 10, acquire_timeout = Some (secs 30),
       max_lifetime = Some (secs 1800), idle_timeout = Some (secs 600), test_on_acquire = True,
       after_connect = None, before_return = None \<rparr>"

definition validate :: "pool_config \<Rightarrow> (pg_error, unit) res" where
  "validate cfg =
     (if max_size cfg = 0 then Err (PgConfig ''pool max_size must be greater than zero'')
      else if max_size cfg < min_idle cfg then
        Err (PgConfig (''pool min_idle ('' @ show_nat (min_idle cfg) @ '') cannot exceed max_size (''
               @ show_nat (max_size cfg) @ '')''))
      else Ok ())"

subsection \<open>State\<close>

record pooled_connection =
  pc_connection :: connection
  created_at :: nat
  last_used_at :: nat
  acquire_count :: nat

record acquired_connection =
  ac_connection :: connection
  ac_created_at :: nat

text \<open>\<open>wake\<close> is the token in the notification channel of capacity one.\<close>

record pool =
  pool_cfg :: pool_config
  idle :: "pooled_connection list"
  active_count :: nat
  pending_count :: nat
  total_created :: nat
  pool_closed :: bool
  wake :: bool

definition total :: "pool \<Rightarrow> nat" where
  "total p = length (idle p) + active_count p + pending_count p"

definition notify_waiters :: "pool \<Rightarrow> pool" where
  "notify_waiters p = p\<lparr>wake := True\<rparr>"

record pool_status =
  ps_idle :: nat
  ps_active :: nat
  ps_total_created :: nat
  ps_max_size :: nat
  ps_closed :: bool

definition status :: "pool \<Rightarrow> pool_status" where
  "status p = \<lparr> ps_idle = length (idle p), ps_active = active_count p, ps_total_created = total_created p,
                ps_max_size = max_size (pool_cfg p), ps_closed = pool_closed p \<rparr>"

definition status_total :: "pool_status \<Rightarrow> nat" where "status_total s = ps_idle s + ps_active s"
definition status_available :: "pool_status \<Rightarrow> nat" where "status_available s = ps_max_size s - status_total s"

subsection \<open>Connections\<close>

definition is_expired :: "nat \<Rightarrow> pooled_connection \<Rightarrow> pool_config \<Rightarrow> bool" where
  "is_expired t pc cfg =
     ((case max_lifetime cfg of Some m \<Rightarrow> m < t - created_at pc | None \<Rightarrow> False) \<or>
      (case idle_timeout cfg of Some m \<Rightarrow> m < t - last_used_at pc | None \<Rightarrow> False))"

definition set_reconnect_init_sql :: "string \<Rightarrow> connection \<Rightarrow> connection" where
  "set_reconnect_init_sql sql c = c\<lparr>session_state := (session_state c)\<lparr>reconnect_init_sql := Some sql\<rparr>\<rparr>"

text \<open>
  \<open>create_connection\<close> and \<open>create_connection_with_retry\<close> on the outcome \<open>dial\<close> of establishing the
  connection: both run the \<open>after_connect\<close> hook.
\<close>

definition create_connection :: "pool_config \<Rightarrow> (pg_error, connection) outcome \<Rightarrow> (pg_error, connection) outcome" where
  "create_connection cfg dial =
     (case dial of
        Pending \<Rightarrow> Pending
      | Ret (Inl e) \<Rightarrow> Ret (Err e)
      | Ret (Inr c) \<Rightarrow>
          (case after_connect cfg of
             None \<Rightarrow> Ret (Ok c)
           | Some sql \<Rightarrow>
               (case execute sql c of
                  (Pending, _) \<Rightarrow> Pending
                | (Ret (Inl e), _) \<Rightarrow> Ret (Err e)
                | (Ret (Inr _), c') \<Rightarrow> Ret (Ok (set_reconnect_init_sql sql c')))))"

definition reset_connection :: "pool_config \<Rightarrow> unit cm" where
  "reset_connection cfg c =
     bindc (if transaction_status c \<noteq> TIdle then bindc (execute ''ROLLBACK'') (\<lambda>_. retc ()) else retc ())
       (\<lambda>_. case before_return cfg of None \<Rightarrow> retc () | Some sql \<Rightarrow> bindc (execute sql) (\<lambda>_. retc ())) c"

subsection \<open>Critical sections\<close>

datatype acquire_decision = DiscardExpired | NeedsHealthCheck | Ready | CreateNew | Exhausted

text \<open>\<open>acquire\<close>, \<open>acquire_resilient\<close>, and \<open>acquire_with_timeout\<close> with its deadline.\<close>

datatype mode = Basic | Resilient | Timed nat

definition decide :: "mode \<Rightarrow> nat \<Rightarrow> pool \<Rightarrow> acquire_decision option \<times> pool" where
  "decide m t p =
     (if pool_closed p then (None, p)
      else (case idle p of
              pc # _ \<Rightarrow>
                (Some (if is_expired t pc (pool_cfg p) then DiscardExpired
                       else if m = Resilient \<or> test_on_acquire (pool_cfg p) then NeedsHealthCheck
                       else Ready), p)
            | [] \<Rightarrow>
                if total p < max_size (pool_cfg p)
                then (Some CreateNew, p\<lparr>pending_count := pending_count p + 1\<rparr>)
                else (Some Exhausted, p)))"

definition pop_idle :: "pool \<Rightarrow> pooled_connection option \<times> pool" where
  "pop_idle p = (case idle p of [] \<Rightarrow> (None, p) | pc # q \<Rightarrow> (Some pc, p\<lparr>idle := q\<rparr>))"

definition claim :: "pooled_connection \<Rightarrow> pool \<Rightarrow> acquired_connection \<times> pool" where
  "claim pc p = (\<lparr> ac_connection = pc_connection pc, ac_created_at = created_at pc \<rparr>,
                 p\<lparr>active_count := active_count p + 1\<rparr>)"

definition push_idle :: "connection \<Rightarrow> nat \<Rightarrow> nat \<Rightarrow> pool \<Rightarrow> pool" where
  "push_idle c created t p =
     p\<lparr>idle := idle p @ [\<lparr> pc_connection = c, created_at = created, last_used_at = t, acquire_count = 0 \<rparr>]\<rparr>"

definition dec_pending :: "pool \<Rightarrow> pool" where "dec_pending p = p\<lparr>pending_count := pending_count p - 1\<rparr>"
definition dec_active :: "pool \<Rightarrow> pool" where "dec_active p = p\<lparr>active_count := active_count p - 1\<rparr>"

subsection \<open>Tasks\<close>

datatype task =
    Start mode | Discard mode | Closing mode connection | PopCheck mode | Pinging mode pooled_connection
  | Claim pooled_connection | PopReady mode | Creating mode | Created connection | CreateFailed mode pg_error
  | CloseNew connection | ExhaustedAt mode | Waiting nat | AcquireFailed pg_error
  | Holding acquired_connection
  | Releasing acquired_connection | Resetting acquired_connection | LifeCheck acquired_connection
  | Returning acquired_connection | CloseDiscard connection | CloseLast connection
  | MinIdle | MinCreating | MinCreated connection | MinFailed
  | Finished

definition pool_err :: "pool_error_variant \<Rightarrow> task" where
  "pool_err v = AcquireFailed (PgPool v)"

text \<open>
  The entry points.  \<open>acquire\<close>, \<open>acquire_with_timeout\<close> (called at time \<open>t\<close>) and \<open>acquire_resilient\<close> are
  the same loop; they differ in the health check, in what an exhausted pool means and in how a
  failed creation is reported, which is what the mode selects.
\<close>

definition acquire :: task where [simp]: "acquire = Start Basic"
definition acquire_resilient :: task where [simp]: "acquire_resilient = Start Resilient"
definition acquire_with_timeout :: "nat \<Rightarrow> nat \<Rightarrow> task" where
  [simp]: "acquire_with_timeout t timeout = Start (Timed (t + timeout))"
definition release_with_metadata :: "acquired_connection \<Rightarrow> task" where
  [simp]: "release_with_metadata a = Releasing a"
definition maintain_min_idle :: task where [simp]: "maintain_min_idle = MinIdle"

text \<open>The steps of the acquiring operations.\<close>

fun acquire_step :: "nat \<Rightarrow> (pg_error, connection) outcome \<Rightarrow> pool \<Rightarrow> task \<Rightarrow> task \<times> pool" where
  "acquire_step t dial p (Start m) =
     (case decide m t p of
        (None, p') \<Rightarrow> (pool_err PvClosed, p')
      | (Some DiscardExpired, p') \<Rightarrow> (Discard m, p')
      | (Some NeedsHealthCheck, p') \<Rightarrow> (PopCheck m, p')
      | (Some Ready, p') \<Rightarrow> (PopReady m, p')
      | (Some CreateNew, p') \<Rightarrow> (Creating m, p')
      | (Some Exhausted, p') \<Rightarrow> (ExhaustedAt m, p'))"
| "acquire_step t dial p (Discard m) =
     (case pop_idle p of (None, p') \<Rightarrow> (Start m, p') | (Some pc, p') \<Rightarrow> (Closing m (pc_connection pc), p'))"
| "acquire_step t dial p (Closing m c) =
     (case close c of (Pending, _) \<Rightarrow> (Closing m c, p) | (Ret _, _) \<Rightarrow> (Start m, p))"
| "acquire_step t dial p (PopCheck m) =
     (case pop_idle p of (None, p') \<Rightarrow> (Start m, p') | (Some pc, p') \<Rightarrow> (Pinging m pc, p'))"
| "acquire_step t dial p (Pinging m pc) =
     (case ping (pc_connection pc) of
        (Pending, _) \<Rightarrow> (Pinging m pc, p)
      | (Ret (Inr _), c) \<Rightarrow> (Claim (pc\<lparr>pc_connection := c\<rparr>), p)
      | (Ret (Inl _), c) \<Rightarrow> (Closing m c, p))"
| "acquire_step t dial p (Claim pc) = (case claim pc p of (a, p') \<Rightarrow> (Holding a, p'))"
| "acquire_step t dial p (PopReady m) =
     (case pop_idle p of
        (None, p') \<Rightarrow> (Start m, p')
      | (Some pc, p') \<Rightarrow> (case claim pc p' of (a, p'') \<Rightarrow> (Holding a, p'')))"
| "acquire_step t dial p (Creating m) =
     (case create_connection (pool_cfg p) dial of
        Pending \<Rightarrow> (Creating m, p)
      | Ret (Inl e) \<Rightarrow> (CreateFailed m e, p)
      | Ret (Inr c) \<Rightarrow> (Created c, p))"
| "acquire_step t dial p (Created c) =
     (let p1 = dec_pending p in
      if pool_closed p1 then (CloseNew c, p1)
      else (Holding \<lparr> ac_connection = c, ac_created_at = t \<rparr>,
            p1\<lparr>active_count := active_count p1 + 1, total_created := total_created p1 + 1\<rparr>))"
| "acquire_step t dial p (CreateFailed m e) =
     (AcquireFailed (if m = Resilient then e else PgPool (PvCreateFailed (show_pg_error e))), dec_pending p)"
| "acquire_step t dial p (CloseNew c) =
     (case close c of (Pending, _) \<Rightarrow> (CloseNew c, p) | (Ret _, _) \<Rightarrow> (pool_err PvClosed, p))"
| "acquire_step t dial p (ExhaustedAt m) =
     (case m of
        Timed deadline \<Rightarrow> (if deadline \<le> t then pool_err PvExhausted else Waiting deadline, p)
      | _ \<Rightarrow> (case acquire_timeout (pool_cfg p) of
               Some d \<Rightarrow> (acquire_with_timeout t d, p)
             | None \<Rightarrow> (pool_err PvExhausted, p)))"
| "acquire_step t dial p (Waiting deadline) =
     (if wake p then (Start (Timed deadline), p\<lparr>wake := False\<rparr>)
      else if deadline \<le> t then (Start (Timed deadline), p)
      else (Waiting deadline, p))"
| "acquire_step t dial p tk = (tk, p)"

text \<open>The steps of \<open>release_with_metadata\<close> and \<open>maintain_min_idle\<close>.\<close>

fun release_step :: "nat \<Rightarrow> (pg_error, connection) outcome \<Rightarrow> pool \<Rightarrow> task \<Rightarrow> task \<times> pool" where
  "release_step t dial p (Releasing a) =
     (let p1 = dec_active p in
      if pool_closed p1 then (CloseLast (ac_connection a), p1)
      else if \<not> is_idle (ac_connection a) then (CloseDiscard (ac_connection a), p1)
      else (Resetting a, p1))"
| "release_step t dial p (Resetting a) =
     (case reset_connection (pool_cfg p) (ac_connection a) of
        (Pending, _) \<Rightarrow> (Resetting a, p)
      | (Ret (Inr _), c) \<Rightarrow> (LifeCheck (a\<lparr>ac_connection := c\<rparr>), p)
      | (Ret (Inl _), c) \<Rightarrow> (CloseDiscard c, p))"
| "release_step t dial p (LifeCheck a) =
     (case max_lifetime (pool_cfg p) of
        Some m \<Rightarrow> if m < t - ac_created_at a then (CloseDiscard (ac_connection a), p) else (Returning a, p)
      | None \<Rightarrow> (Returning a, p))"
| "release_step t dial p (Returning a) =
     (Finished, notify_waiters (push_idle (ac_connection a) (ac_created_at a) t p))"
| "release_step t dial p (CloseDiscard c) =
     (case close c of (Pending, _) \<Rightarrow> (CloseDiscard c, p) | (Ret _, _) \<Rightarrow> (maintain_min_idle, p))"
| "release_step t dial p (CloseLast c) =
     (case close c of (Pending, _) \<Rightarrow> (CloseLast c, p) | (Ret _, _) \<Rightarrow> (Finished, p))"
| "release_step t dial p MinIdle =
     (if pool_closed p \<or> min_idle (pool_cfg p) \<le> length (idle p) + pending_count p then (Finished, p)
      else (MinCreating, p\<lparr>pending_count := pending_count p + 1\<rparr>))"
| "release_step t dial p MinCreating =
     (case create_connection (pool_cfg p) dial of
        Pending \<Rightarrow> (MinCreating, p)
      | Ret (Inl e) \<Rightarrow> (MinFailed, p)
      | Ret (Inr c) \<Rightarrow> (MinCreated c, p))"
| "release_step t dial p (MinCreated c) =
     (let p1 = dec_pending p in
      if pool_closed p1 \<or> min_idle (pool_cfg p1) \<le> length (idle p1) then (CloseLast c, p1)
      else (Finished, notify_waiters ((push_idle c t t p1)\<lparr>total_created := total_created p1 + 1\<rparr>)))"
| "release_step t dial p MinFailed = (Finished, dec_pending p)"
| "release_step t dial p tk = (tk, p)"

definition is_release_task :: "task \<Rightarrow> bool" where
  "is_release_task tk = (case tk of
      Releasing _ \<Rightarrow> True | Resetting _ \<Rightarrow> True | LifeCheck _ \<Rightarrow> True | Returning _ \<Rightarrow> True
    | CloseDiscard _ \<Rightarrow> True | CloseLast _ \<Rightarrow> True | MinIdle \<Rightarrow> True | MinCreating \<Rightarrow> True
    | MinCreated _ \<Rightarrow> True | MinFailed \<Rightarrow> True | _ \<Rightarrow> False)"

definition task_step :: "nat \<Rightarrow> (pg_error, connection) outcome \<Rightarrow> pool \<Rightarrow> task \<Rightarrow> task \<times> pool" where
  "task_step t dial p tk = (if is_release_task tk then release_step t dial p tk else acquire_step t dial p tk)"

subsection \<open>Other operations\<close>

text \<open>
  \<open>Pool::new\<close> at time \<open>t\<close>, with the outcomes of the coming attempts to connect: \<open>n\<close> attempts are made
  one after the other, a failed one is skipped, and the call waits while one of them does.
\<close>

fun prewarm :: "nat \<Rightarrow> nat \<Rightarrow> (pg_error, connection) outcome list \<Rightarrow> pool \<Rightarrow> (pg_error, pool) outcome" where
  "prewarm t 0 ds p = Ret (Ok p)"
| "prewarm t (Suc n) [] p = Pending"
| "prewarm t (Suc n) (d # ds) p =
     (case create_connection (pool_cfg p) d of
        Pending \<Rightarrow> Pending
      | Ret (Inl _) \<Rightarrow> prewarm t n ds p
      | Ret (Inr c) \<Rightarrow> prewarm t n ds ((push_idle c t t p)\<lparr>total_created := total_created p + 1\<rparr>))"

definition pool_new ::
  "pool_config \<Rightarrow> nat \<Rightarrow> (pg_error, connection) outcome list \<Rightarrow> (pg_error, pool) outcome"
where
  "pool_new cfg t dialled =
     (case validate cfg of
        Inl e \<Rightarrow> Ret (Err e)
      | Inr _ \<Rightarrow> prewarm t (min_idle cfg) dialled
          \<lparr> pool_cfg = cfg, idle = [], active_count = 0, pending_count = 0, total_created = 0,
            pool_closed = False, wake = False \<rparr>)"

definition detach :: "acquired_connection \<Rightarrow> pool \<Rightarrow> connection \<times> pool" where
  "detach a p = (ac_connection a, notify_waiters (dec_active p))"

definition drop_guard :: "nat \<Rightarrow> acquired_connection \<Rightarrow> pool \<Rightarrow> pool" where
  "drop_guard t a p =
     (let p1 = dec_active p in
      if \<not> is_idle (ac_connection a) then notify_waiters p1
      else if pool_closed p1 then notify_waiters p1
      else notify_waiters (push_idle (ac_connection a) (ac_created_at a) t p1))"

definition close_pool :: "pool \<Rightarrow> pooled_connection list \<times> pool" where
  "close_pool p = (idle p, notify_waiters (p\<lparr>pool_closed := True, idle := []\<rparr>))"

definition maintain :: "nat \<Rightarrow> pool \<Rightarrow> pooled_connection list \<times> pool" where
  "maintain t p = (filter (\<lambda>pc. is_expired t pc (pool_cfg p)) (idle p),
                   p\<lparr>idle := filter (\<lambda>pc. \<not> is_expired t pc (pool_cfg p)) (idle p)\<rparr>)"

definition drop_pool :: "pool \<Rightarrow> pool" where
  "drop_pool p = p\<lparr>pool_closed := True, idle := []\<rparr>"

subsection \<open>Interleaving\<close>

text \<open>
  What a task counts for: a guard that is out (\<open>holding\<close>), a connection being created (\<open>creating\<close>), or
  a connection that is in nobody's count but will be counted again without a further check
  (\<open>in_gap\<close>: taken from the queue for a health check, or released and not yet back).
\<close>

fun holding :: "task \<Rightarrow> nat" where
  "holding (Holding _) = 1" | "holding (Releasing _) = 1" | "holding _ = 0"

fun creating :: "task \<Rightarrow> nat" where
  "creating (Creating _) = 1" | "creating (Created _) = 1" | "creating (CreateFailed _ _) = 1"
| "creating MinCreating = 1" | "creating (MinCreated _) = 1" | "creating MinFailed = 1" | "creating _ = 0"

fun in_gap :: "task \<Rightarrow> nat" where
  "in_gap (Pinging _ _) = 1" | "in_gap (Claim _) = 1" | "in_gap (Resetting _) = 1" | "in_gap (LifeCheck _) = 1"
| "in_gap (Returning _) = 1" | "in_gap (CloseDiscard _) = 1" | "in_gap MinIdle = 1" | "in_gap _ = 0"

definition tally :: "(task \<Rightarrow> nat) \<Rightarrow> task list \<Rightarrow> nat" where
  "tally f ts = sum_list (map f ts)"

definition creates :: "nat \<Rightarrow> pool \<Rightarrow> task \<Rightarrow> bool" where
  "creates t p tk = (case tk of Start m \<Rightarrow> fst (decide m t p) = Some CreateNew | _ \<Rightarrow> False)"

text \<open>A connection that \<open>connect\<close> returns is idle.\<close>

definition good_dial :: "(pg_error, connection) outcome \<Rightarrow> bool" where
  "good_dial d = (case d of Ret (Inr c) \<Rightarrow> state c = Idle | _ \<Rightarrow> True)"

text \<open>
  \<open>pool_step k\<close>: one step of one client, at any time and with any outcome of the awaited calls.  The
  parameter \<open>k\<close> limits the overlap: a client decides to open a new connection only while at most \<open>k\<close>
  others are in the gap (\<open>k = 0\<close> is what happens when operations do not overlap).
\<close>

inductive pool_step :: "nat \<Rightarrow> pool \<times> task list \<Rightarrow> pool \<times> task list \<Rightarrow> bool" for k where
  run: "i < length ts \<Longrightarrow> good_dial dial \<Longrightarrow> (creates t p (ts ! i) \<longrightarrow> tally in_gap ts \<le> k) \<Longrightarrow>
    task_step t dial p (ts ! i) = (tk, p') \<Longrightarrow> pool_step k (p, ts) (p', ts[i := tk])"
| acquire: "i < length ts \<Longrightarrow> ts ! i = Finished \<Longrightarrow> tk \<in> {acquire, acquire_resilient} \<Longrightarrow>
    pool_step k (p, ts) (p, ts[i := tk])"
| give_up: "i < length ts \<Longrightarrow> ts ! i = AcquireFailed e \<Longrightarrow> pool_step k (p, ts) (p, ts[i := Finished])"
| use: "i < length ts \<Longrightarrow> ts ! i = Holding a \<Longrightarrow>
    pool_step k (p, ts) (p, ts[i := Holding (a\<lparr>ac_connection := c\<rparr>)])"
| release: "i < length ts \<Longrightarrow> ts ! i = Holding a \<Longrightarrow> pool_step k (p, ts) (p, ts[i := release_with_metadata a])"
| detach: "i < length ts \<Longrightarrow> ts ! i = Holding a \<Longrightarrow>
    pool_step k (p, ts) (snd (detach a p), ts[i := Finished])"
| drop: "i < length ts \<Longrightarrow> ts ! i = Holding a \<Longrightarrow>
    pool_step k (p, ts) (drop_guard t a p, ts[i := Finished])"
| close: "pool_step k (p, ts) (snd (close_pool p), ts)"
| maintain: "pool_step k (p, ts) (snd (maintain t p), ts)"

inductive pool_reach :: "nat \<Rightarrow> pool_config \<Rightarrow> nat \<Rightarrow> pool \<times> task list \<Rightarrow> bool" for k cfg n where
  init: "list_all good_dial ds \<Longrightarrow> pool_new cfg t ds = Ret (Ok p) \<Longrightarrow>
    pool_reach k cfg n (p, replicate n Finished)"
| step: "pool_reach k cfg n s \<Longrightarrow> pool_step k s s' \<Longrightarrow> pool_reach k cfg n s'"

inductive_cases pool_stepE: "pool_step k (p, ts) s'"

subsection \<open>Lemmas: accounting\<close>

lemma tally_update:
  assumes "i < length ts"
  shows "tally f (ts[i := tk]) + f (ts ! i) = tally f ts + f tk" "f (ts ! i) \<le> tally f ts"
proof -
  have le: "f (ts ! i) \<le> tally f ts"
    using assms elem_le_sum_list [of i "map f ts"] by (simp add: tally_def)
  then show "tally f (ts[i := tk]) + f (ts ! i) = tally f ts + f tk" "f (ts ! i) \<le> tally f ts"
    using assms sum_list_update [of i "map f ts" "f tk"] by (auto simp: tally_def map_update)
qed

lemmas pool_ops = decide_def pop_idle_def claim_def push_idle_def dec_pending_def dec_active_def
  notify_waiters_def total_def Let_def

lemma decide_counts:
  assumes "decide m t p = (d, p')"
  shows "active_count p' = active_count p" "idle p' = idle p" "pool_cfg p' = pool_cfg p" "pool_closed p' = pool_closed p"
    "pending_count p' = pending_count p + (if d = Some CreateNew then 1 else 0)"
    "d = Some CreateNew \<Longrightarrow> idle p = [] \<and> total p < max_size (pool_cfg p)"
  using assms by (auto simp: decide_def split: list.splits if_splits)

text \<open>What one step of one task does to the counters.\<close>

definition balanced :: "nat \<Rightarrow> pool \<Rightarrow> task \<Rightarrow> task \<Rightarrow> pool \<Rightarrow> bool" where
  "balanced t p tk tk' p' =
     (active_count p' + holding tk = active_count p + holding tk' \<and>
      pending_count p' + creating tk = pending_count p + creating tk' \<and>
      pool_cfg p' = pool_cfg p \<and>
      (if creates t p tk then total p < max_size (pool_cfg p) \<and> total p' = total p + 1 \<and> in_gap tk' = in_gap tk
       else total p' + in_gap tk' \<le> total p + in_gap tk))"

lemma start_balanced:
  assumes "acquire_step t dial p (Start m) = (tk', p')"
  shows "balanced t p (Start m) tk' p'"
proof -
  obtain d p1 where d: "decide m t p = (d, p1)" by fastforce
  note c = decide_counts [OF d]
  show ?thesis
  proof (cases d)
    case None
    then show ?thesis using assms d c by (auto simp: balanced_def creates_def pool_err_def total_def)
  next
    case (Some x)
    then show ?thesis using assms d c by (cases x) (auto simp: balanced_def creates_def total_def)
  qed
qed

lemma acquire_step_balanced:
  assumes "acquire_step t dial p tk = (tk', p')" "creating tk \<le> pending_count p"
  shows "balanced t p tk tk' p'"
proof (cases tk)
  case (Start m)
  then show ?thesis using assms start_balanced by simp
next
  case (Pinging m pc)
  then show ?thesis using assms
    by (auto simp: balanced_def creates_def split: prod.splits outcome.splits sum.splits)
qed (use assms in \<open>auto simp: balanced_def creates_def pool_ops pool_err_def
      split: prod.splits outcome.splits sum.splits list.splits option.splits if_splits mode.splits\<close>)

lemma release_step_balanced:
  assumes "release_step t dial p tk = (tk', p')" "creating tk \<le> pending_count p" "holding tk \<le> active_count p"
  shows "balanced t p tk tk' p' \<or> \<not> is_release_task tk"
proof (cases tk)
  case (Releasing a)
  then show ?thesis using assms by (auto simp: balanced_def creates_def pool_ops split: if_splits)
qed (use assms in \<open>auto simp: balanced_def creates_def pool_ops is_release_task_def
      split: prod.splits outcome.splits sum.splits option.splits if_splits\<close>)

lemma task_step_balanced:
  assumes "task_step t dial p tk = (tk', p')" "creating tk \<le> pending_count p" "holding tk \<le> active_count p"
  shows "balanced t p tk tk' p'"
proof (cases "is_release_task tk")
  case True
  then show ?thesis using assms release_step_balanced [of t dial p tk tk' p'] by (simp add: task_step_def)
next
  case False
  then show ?thesis using assms acquire_step_balanced by (simp add: task_step_def)
qed

definition pool_inv :: "nat \<Rightarrow> pool_config \<Rightarrow> pool \<Rightarrow> task list \<Rightarrow> bool" where
  "pool_inv k cfg p ts =
     (pool_cfg p = cfg \<and> active_count p = tally holding ts \<and> pending_count p = tally creating ts \<and>
      total p + tally in_gap ts \<le> max_size cfg + k)"

lemma pool_inv_update:
  assumes "pool_inv k cfg p ts" "i < length ts" "balanced t p (ts ! i) tk p'"
    and "creates t p (ts ! i) \<longrightarrow> tally in_gap ts \<le> k"
  shows "pool_inv k cfg p' (ts[i := tk])"
  using assms tally_update(1) [OF assms(2), of holding tk] tally_update(1) [OF assms(2), of creating tk]
    tally_update(1) [OF assms(2), of in_gap tk]
  by (auto simp: pool_inv_def balanced_def split: if_splits)

lemma pool_step_inv:
  assumes "pool_step k (p, ts) (p', ts')" "pool_inv k cfg p ts"
  shows "pool_inv k cfg p' ts'"
  using assms(1)
proof (cases rule: pool_step.cases)
  case (run i dial t tk)
  have "creating (ts ! i) \<le> pending_count p" "holding (ts ! i) \<le> active_count p"
    using assms(2) tally_update(2) [OF run(2)] by (auto simp: pool_inv_def)
  from task_step_balanced [OF run(5) this] show ?thesis
    using run assms(2) pool_inv_update by blast
next
  case (detach i a)
  have "0 < active_count p" using assms(2) tally_update(2) [OF detach(3), of holding] detach(4) by (auto simp: pool_inv_def)
  then have "balanced 0 p (ts ! i) Finished p'" using detach
    by (auto simp: balanced_def creates_def pool_ops Pool.detach_def)
  then show ?thesis using detach assms(2) pool_inv_update [of k cfg p ts i 0] by (simp add: creates_def)
next
  case (drop i a t)
  have "0 < active_count p" using assms(2) tally_update(2) [OF drop(3), of holding] drop(4) by (auto simp: pool_inv_def)
  then have "balanced 0 p (ts ! i) Finished p'" using drop
    by (auto simp: balanced_def creates_def pool_ops drop_guard_def)
  then show ?thesis using drop assms(2) pool_inv_update [of k cfg p ts i 0] by (simp add: creates_def)
next
  case close
  then show ?thesis using assms(2) by (auto simp: pool_inv_def close_pool_def pool_ops)
next
  case (maintain t)
  then have "length (idle p') \<le> length (idle p)" "active_count p' = active_count p" "ts' = ts"
    "pending_count p' = pending_count p" "pool_cfg p' = pool_cfg p" by (simp_all add: maintain_def)
  then show ?thesis using assms(2) by (simp add: pool_inv_def total_def)
qed (use assms(2) in \<open>auto intro!: pool_inv_update [of k cfg p ts _ 0] simp: balanced_def creates_def\<close>)

lemma prewarm_inv:
  assumes "prewarm t n ds p = Ret (Ok p')"
  shows "pool_cfg p' = pool_cfg p \<and> active_count p' = active_count p \<and> pending_count p' = pending_count p \<and>
     length (idle p') \<le> length (idle p) + n"
  using assms
proof (induction t n ds p rule: prewarm.induct)
  case (3 t n d ds p)
  then show ?case
    by (fastforce simp: push_idle_def split: outcome.splits sum.splits)
qed auto

lemma tally_replicate [simp]: "tally f (replicate n Finished) = n * f Finished"
  by (simp add: tally_def sum_list_replicate)

lemma pool_reach_inv: "pool_reach k cfg n (p, ts) \<Longrightarrow> pool_inv k cfg p ts"
proof (induction "(p, ts)" arbitrary: p ts rule: pool_reach.induct)
  case (init ds t p)
  then show ?case
    by (auto simp: pool_inv_def pool_new_def validate_def total_def dest!: prewarm_inv split: sum.splits if_splits)
next
  case (step s)
  then show ?case by (cases s) (auto intro: pool_step_inv)
qed

subsection \<open>Lemmas: a successful statement leaves the connection idle\<close>

lemma stream_loop_end_idle:
  "stream_loop ms st c = (Ret (Ok None), st', c') \<Longrightarrow> \<not> stream_is_done st \<Longrightarrow> state c' = Idle"
proof (induction ms arbitrary: st c)
  case Nil
  then show ?case by (auto simp: stream_is_done_def split: row_stream_state.splits)
next
  case (Cons r ms)
  then show ?case
    by (auto simp: Let_def stream_error_no_row stream_is_done_def
        split: row_stream_state.splits sum.splits backend_message.splits)
qed

lemma stream_loop_row_open:
  "stream_loop ms st c = (Ret (Ok (Some x)), st', c') \<Longrightarrow> \<not> stream_is_done st'"
proof (induction ms arbitrary: st c)
  case Nil
  then show ?case by (auto split: row_stream_state.splits)
next
  case (Cons r ms)
  then show ?case
    by (auto simp: Let_def stream_error_no_row stream_is_done_def
        split: row_stream_state.splits sum.splits backend_message.splits)
qed

lemma stream_collect_ok_idle:
  "stream_collect st c rows = (Ret (Ok rs), st', c') \<Longrightarrow> \<not> stream_is_done st \<Longrightarrow> state c' = Idle"
proof (induction st c rows rule: stream_collect.induct)
  case (1 st c rows)
  obtain r st1 c1 where n: "stream_next st c = (r, st1, c1)" by (metis prod_cases3)
  show ?case
  proof (cases "\<exists>x. r = Ret (Inr (Some x))")
    case True
    then obtain x where x: "r = Ret (Inr (Some x))" ..
    then have "stream_collect st1 c1 (rows @ [x]) = (Ret (Ok rs), st', c')"
      using 1(2) n by (subst (asm) stream_collect.simps) simp
    then show ?thesis using 1(1) n x stream_loop_row_open by (simp add: stream_next_def)
  next
    case False
    then have "r = Ret (Ok None)" "c1 = c'"
      using 1(2) n by (subst (asm) stream_collect.simps, auto split: outcome.splits sum.splits option.splits)+
    then show ?thesis using n 1(3) stream_loop_end_idle by (simp add: stream_next_def)
  qed
qed

lemma execute_ok_idle: "execute sql c = (Ret (Ok tag), c') \<Longrightarrow> state c' = Idle"
proof -
  assume e: "execute sql c = (Ret (Ok tag), c')"
  obtain q where q: "query sql c = (Ret (Ok q), c')"
    using e by (auto simp: execute_def bindc_def retc_def split: prod.splits outcome.splits sum.splits)
  obtain st c1 where s: "query_stream sql c = (Ret (Ok st), c1)"
    using q by (auto simp: query_def bindc_def split: prod.splits outcome.splits sum.splits)
  have st: "st = new_simple"
    using s by (auto simp: query_stream_def bindc_def retc_def split: prod.splits outcome.splits sum.splits)
  obtain rs st' c2 where "stream_collect st c1 [] = (Ret (Ok rs), st', c2)" "c' = drop_stream st' c2"
    using q s by (auto simp: query_def split: prod.splits outcome.splits sum.splits)
  then show ?thesis using stream_collect_ok_idle [of st c1 "[]" rs st' c2] st
    by (auto simp: drop_stream_def new_simple_def stream_is_done_def)
qed

lemma ping_ok_idle: "ping c = (Ret (Ok u), c') \<Longrightarrow> state c' = Idle"
  using execute_ok_idle [of "''SELECT 1''" c]
  by (auto simp: ping_def execute_def bindc_def modifyc_def retc_def split: prod.splits outcome.splits sum.splits)

lemma reset_connection_ok_idle:
  "reset_connection cfg c = (Ret (Ok u), c') \<Longrightarrow> state c = Idle \<Longrightarrow> state c' = Idle"
  by (auto simp: reset_connection_def bindc_def retc_def dest!: execute_ok_idle
      split: prod.splits outcome.splits sum.splits option.splits if_splits)

lemma create_connection_idle:
  "create_connection cfg d = Ret (Ok c) \<Longrightarrow> good_dial d \<Longrightarrow> state c = Idle"
  by (auto simp: create_connection_def good_dial_def set_reconnect_init_sql_def dest!: execute_ok_idle
      split: prod.splits outcome.splits sum.splits option.splits)

subsection \<open>Lemmas: only idle connections are pooled\<close>

definition idle_ok :: "pool \<Rightarrow> bool" where
  "idle_ok p = list_all (\<lambda>pc. state (pc_connection pc) = Idle) (idle p)"

fun task_ok :: "task \<Rightarrow> bool" where
  "task_ok (Claim pc) = (state (pc_connection pc) = Idle)"
| "task_ok (Created c) = (state c = Idle)"
| "task_ok (Resetting a) = (state (ac_connection a) = Idle)"
| "task_ok (LifeCheck a) = (state (ac_connection a) = Idle)"
| "task_ok (Returning a) = (state (ac_connection a) = Idle)"
| "task_ok (MinCreated c) = (state c = Idle)"
| "task_ok _ = True"

lemma pop_idle_ok:
  "pop_idle p = (r, p') \<Longrightarrow> idle_ok p \<Longrightarrow>
     idle_ok p' \<and> (\<forall>pc. r = Some pc \<longrightarrow> state (pc_connection pc) = Idle)"
  by (auto simp: pop_idle_def idle_ok_def split: list.splits)

lemma idle_ok_frame [simp]:
  "idle_ok (p\<lparr>active_count := a\<rparr>) = idle_ok p" "idle_ok (p\<lparr>pending_count := a\<rparr>) = idle_ok p"
  "idle_ok (p\<lparr>total_created := a\<rparr>) = idle_ok p" "idle_ok (p\<lparr>wake := b\<rparr>) = idle_ok p"
  "idle_ok (push_idle c t1 t2 p) = (idle_ok p \<and> state c = Idle)"
  "idle_ok (dec_pending p) = idle_ok p" "idle_ok (dec_active p) = idle_ok p" "idle_ok (notify_waiters p) = idle_ok p"
  by (auto simp: idle_ok_def push_idle_def dec_pending_def dec_active_def notify_waiters_def)

lemma decide_idle_ok: "decide m t p = (d, p') \<Longrightarrow> idle_ok p \<Longrightarrow> idle_ok p'"
  using decide_counts(2) [of m t p d p'] by (simp add: idle_ok_def)

lemma acquire_step_ok:
  assumes "acquire_step t dial p tk = (tk', p')" "idle_ok p" "task_ok tk" "good_dial dial"
  shows "idle_ok p' \<and> task_ok tk' \<and> (\<forall>a. tk' = Holding a \<and> (\<forall>b. tk \<noteq> Holding b) \<longrightarrow> state (ac_connection a) = Idle)"
proof (cases tk)
  case (Start m)
  then show ?thesis using assms
    by (auto simp: pool_err_def dest: decide_idle_ok split: prod.splits option.splits acquire_decision.splits)
next
  case (Pinging m pc)
  then show ?thesis using assms ping_ok_idle by (auto split: prod.splits outcome.splits sum.splits)
next
  case (Creating m)
  then show ?thesis using assms create_connection_idle by (auto split: outcome.splits sum.splits)
next
  case (PopReady m)
  then show ?thesis using assms by (auto simp: claim_def dest!: pop_idle_ok split: prod.splits option.splits)
qed (use assms in \<open>auto simp: claim_def pool_err_def Let_def dest!: pop_idle_ok
      split: prod.splits outcome.splits option.splits if_splits mode.splits\<close>)

lemma release_step_ok:
  assumes "release_step t dial p tk = (tk', p')" "idle_ok p" "task_ok tk" "good_dial dial" "is_release_task tk"
  shows "idle_ok p' \<and> task_ok tk' \<and> (\<forall>a. tk' \<noteq> Holding a)"
proof (cases tk)
  case (Resetting a)
  then show ?thesis using assms reset_connection_ok_idle by (auto split: prod.splits outcome.splits sum.splits)
next
  case MinCreating
  then show ?thesis using assms create_connection_idle by (auto split: outcome.splits sum.splits)
qed (use assms in \<open>auto simp: Let_def is_idle_def is_release_task_def
      split: prod.splits outcome.splits option.splits if_splits\<close>)

lemma task_step_ok:
  assumes "task_step t dial p tk = (tk', p')" "idle_ok p" "task_ok tk" "good_dial dial"
  shows "idle_ok p' \<and> task_ok tk' \<and> (\<forall>a. tk' = Holding a \<and> (\<forall>b. tk \<noteq> Holding b) \<longrightarrow> state (ac_connection a) = Idle)"
  using acquire_step_ok [OF _ assms(2-4)] release_step_ok [OF _ assms(2-4)] assms(1)
  by (cases "is_release_task tk") (simp_all add: task_step_def)

lemma list_all_update: "list_all P xs \<Longrightarrow> P x \<Longrightarrow> list_all P (xs[i := x])"
  using set_update_subset_insert [of xs i x] by (auto simp: list_all_iff)

lemma pool_step_ok:
  assumes "pool_step k (p, ts) (p', ts')" "idle_ok p" "list_all task_ok ts"
  shows "idle_ok p' \<and> list_all task_ok ts'"
  using assms(1)
proof (cases rule: pool_step.cases)
  case (run i dial t tk)
  have "task_ok (ts ! i)" using assms(3) run(2) by (simp add: list_all_length)
  from task_step_ok [OF run(5) assms(2) this run(3)] have "idle_ok p'" "task_ok tk" by simp_all
  then show ?thesis using run(1) list_all_update [OF assms(3), of tk i] by simp
next
  case (detach i a)
  then show ?thesis using assms by (auto simp: Pool.detach_def intro!: list_all_update)
next
  case (drop i a t)
  then show ?thesis using assms by (auto simp: drop_guard_def Let_def is_idle_def intro!: list_all_update)
next
  case close
  then show ?thesis using assms by (simp add: close_pool_def idle_ok_def notify_waiters_def)
next
  case (maintain t)
  then show ?thesis using assms by (auto simp: Pool.maintain_def idle_ok_def list_all_iff)
qed (use assms in \<open>auto intro!: list_all_update\<close>)

lemma prewarm_ok:
  "prewarm t n ds p = Ret (Ok p') \<Longrightarrow> list_all good_dial ds \<Longrightarrow> idle_ok p \<Longrightarrow> idle_ok p'"
proof (induction t n ds p rule: prewarm.induct)
  case (3 t n d ds p)
  consider e where "create_connection (pool_cfg p) d = Ret (Inl e)"
    | c where "create_connection (pool_cfg p) d = Ret (Inr c)"
    using "3.prems"(1) by (auto split: outcome.splits sum.splits)
  then show ?case
  proof cases
    case 1
    then show ?thesis using 3 by simp
  next
    case (2 c)
    then show ?thesis using 3 create_connection_idle [OF 2] by simp
  qed
qed auto

lemma pool_reach_ok: "pool_reach k cfg n (p, ts) \<Longrightarrow> idle_ok p \<and> list_all task_ok ts"
proof (induction "(p, ts)" arbitrary: p ts rule: pool_reach.induct)
  case (init ds t p)
  let ?p0 = "\<lparr> pool_cfg = cfg, idle = [], active_count = 0, pending_count = 0, total_created = 0,
            pool_closed = False, wake = False \<rparr>"
  have "idle_ok ?p0" by (simp add: idle_ok_def)
  moreover have "prewarm t (min_idle cfg) ds ?p0 = Ret (Ok p)"
    using init(2) by (simp add: pool_new_def split: sum.splits)
  ultimately show ?case using prewarm_ok init(1) by (auto simp: list_all_iff)
next
  case (step s)
  then show ?case by (cases s) (auto dest: pool_step_ok)
qed

subsection \<open>Executable schedules\<close>

text \<open>A schedule names what happens next; \<open>exec_event\<close> runs it where the relation allows it.\<close>

datatype event =
    ERun nat nat "(pg_error, connection) outcome" | EAcquire nat mode | EUse nat connection
  | ERelease nat | EDrop nat nat

fun exec_event :: "nat \<Rightarrow> pool \<times> task list \<Rightarrow> event \<Rightarrow> (pool \<times> task list) option" where
  "exec_event k (p, ts) (ERun i t d) =
     (if i < length ts \<and> good_dial d \<and> (creates t p (ts ! i) \<longrightarrow> tally in_gap ts \<le> k)
      then (case task_step t d p (ts ! i) of (tk, p') \<Rightarrow> Some (p', ts[i := tk])) else None)"
| "exec_event k (p, ts) (EAcquire i m) =
     (if i < length ts \<and> ts ! i = Finished \<and> m \<in> {Basic, Resilient} then Some (p, ts[i := Start m]) else None)"
| "exec_event k (p, ts) (EUse i c) =
     (if i < length ts then (case ts ! i of Holding a \<Rightarrow> Some (p, ts[i := Holding (a\<lparr>ac_connection := c\<rparr>)]) | _ \<Rightarrow> None)
      else None)"
| "exec_event k (p, ts) (ERelease i) =
     (if i < length ts then (case ts ! i of Holding a \<Rightarrow> Some (p, ts[i := Releasing a]) | _ \<Rightarrow> None) else None)"
| "exec_event k (p, ts) (EDrop i t) =
     (if i < length ts then (case ts ! i of Holding a \<Rightarrow> Some (drop_guard t a p, ts[i := Finished]) | _ \<Rightarrow> None)
      else None)"

fun exec_events :: "nat \<Rightarrow> pool \<times> task list \<Rightarrow> event list \<Rightarrow> (pool \<times> task list) option" where
  "exec_events k s [] = Some s"
| "exec_events k s (e # es) = (case exec_event k s e of None \<Rightarrow> None | Some s' \<Rightarrow> exec_events k s' es)"

lemma exec_event_step:
  assumes "exec_event k s e = Some s'"
  shows "pool_step k s s'"
proof -
  obtain p ts where s: "s = (p, ts)" by fastforce
  show ?thesis
  proof (cases e)
    case (ERun i t d)
    obtain tk p' where st: "task_step t d p (ts ! i) = (tk, p')" by fastforce
    then show ?thesis using ERun assms s pool_step.run [OF _ _ _ st] by (simp split: if_splits)
  next
    case (EAcquire i m)
    then show ?thesis using assms s pool_step.acquire by (auto split: if_splits)
  next
    case (EUse i c)
    then show ?thesis using assms s pool_step.use by (auto split: if_splits task.splits)
  next
    case (ERelease i)
    then show ?thesis using assms s pool_step.release by (auto split: if_splits task.splits)
  next
    case (EDrop i t)
    then show ?thesis using assms s pool_step.drop by (auto split: if_splits task.splits)
  qed
qed

lemma exec_events_reach:
  "exec_events k s es = Some s' \<Longrightarrow> pool_reach k cfg n s \<Longrightarrow> pool_reach k cfg n s'"
proof (induction es arbitrary: s)
  case (Cons e es)
  then obtain s1 where "exec_event k s e = Some s1" "exec_events k s1 es = Some s'"
    by (auto split: option.splits)
  then show ?case using Cons pool_reach.step exec_event_step by blast
qed simp

subsection \<open>Lemmas: an acquisition returns\<close>

text \<open>A result, or waiting for capacity with a deadline.\<close>

definition is_final :: "task \<Rightarrow> bool" where
  "is_final tk = (case tk of Holding _ \<Rightarrow> True | AcquireFailed _ \<Rightarrow> True | Waiting _ \<Rightarrow> True | _ \<Rightarrow> False)"

definition mode_rank :: "mode \<Rightarrow> nat" where
  "mode_rank m = (case m of Timed _ \<Rightarrow> 0 | _ \<Rightarrow> 4)"

fun rank :: "nat \<Rightarrow> task \<Rightarrow> nat" where
  "rank l (Start m) = 4 * l + 4 + mode_rank m"
| "rank l (Discard m) = 4 * l + 3 + mode_rank m"
| "rank l (Closing m c) = 4 * l + 5 + mode_rank m"
| "rank l (PopCheck m) = 4 * l + 3 + mode_rank m"
| "rank l (Pinging m pc) = 4 * l + 6 + mode_rank m"
| "rank l (Claim pc) = 1"
| "rank l (PopReady m) = 4 * l + 3 + mode_rank m"
| "rank l (Creating m) = 3 + mode_rank m"
| "rank l (Created c) = 2"
| "rank l (CreateFailed m e) = 1"
| "rank l (CloseNew c) = 1"
| "rank l (ExhaustedAt m) = 4 * l + 3 + mode_rank m"
| "rank l _ = 0"

text \<open>No awaited call of the task waits forever, and a task that is about to take a connection finds one.\<close>

definition responsive :: "(pg_error, connection) outcome \<Rightarrow> pool \<Rightarrow> bool" where
  "responsive dial p = (create_connection (pool_cfg p) dial \<noteq> Pending \<and>
     list_all (\<lambda>pc. fst (ping (pc_connection pc)) \<noteq> Pending) (idle p))"

fun coherent :: "pool \<Rightarrow> task \<Rightarrow> bool" where
  "coherent p (Discard m) = (idle p \<noteq> [])" | "coherent p (PopCheck m) = (idle p \<noteq> [])"
| "coherent p (PopReady m) = (idle p \<noteq> [])" | "coherent p (Pinging m pc) = (fst (ping (pc_connection pc)) \<noteq> Pending)"
| "coherent p Finished = False" | "coherent p tk = (\<not> is_release_task tk)"

lemma close_not_pending: "close c \<noteq> (Pending, c')"
  by (auto simp: close_def split: prod.splits)

lemma start_progress:
  assumes "acquire_step t dial p (Start m) = (tk', p')" "responsive dial p"
  shows "coherent p' tk' \<and> responsive dial p' \<and> rank (length (idle p')) tk' < rank (length (idle p)) (Start m)"
proof -
  obtain d p1 where d: "decide m t p = (d, p1)" by fastforce
  note c = decide_counts [OF d]
  have i: "d \<in> {Some DiscardExpired, Some NeedsHealthCheck, Some Ready} \<Longrightarrow> idle p \<noteq> []"
    using d by (auto simp: decide_def split: list.splits if_splits)
  show ?thesis
  proof (cases d)
    case None
    then show ?thesis using assms d c by (auto simp: pool_err_def is_release_task_def responsive_def)
  next
    case (Some x)
    then show ?thesis using assms d c i by (cases x) (auto simp: is_release_task_def responsive_def)
  qed
qed

lemma acquire_progress:
  assumes "acquire_step t dial p tk = (tk', p')" "responsive dial p" "coherent p tk" "\<not> is_final tk"
  shows "coherent p' tk' \<and> responsive dial p' \<and> rank (length (idle p')) tk' < rank (length (idle p)) tk"
proof (cases tk)
  case (Start m)
  then show ?thesis using assms start_progress by simp
next
  case (Discard m)
  then show ?thesis using assms
    by (cases "idle p") (auto simp: pop_idle_def responsive_def is_release_task_def)
next
  case (PopCheck m)
  then show ?thesis using assms
    by (cases "idle p") (auto simp: pop_idle_def responsive_def is_release_task_def)
next
  case (PopReady m)
  then show ?thesis using assms
    by (cases "idle p") (auto simp: pop_idle_def claim_def responsive_def is_release_task_def)
next
  case (Pinging m pc)
  then show ?thesis using assms by (auto simp: is_release_task_def split: prod.splits outcome.splits sum.splits)
next
  case (Closing m c)
  then show ?thesis using assms
    by (auto simp: close_not_pending is_release_task_def split: prod.splits outcome.splits)
next
  case (CloseNew c)
  then show ?thesis using assms
    by (auto simp: close_not_pending is_release_task_def pool_err_def split: prod.splits outcome.splits)
next
  case (Creating m)
  then show ?thesis using assms
    by (auto simp: is_release_task_def responsive_def split: outcome.splits sum.splits)
qed (use assms in \<open>auto simp: claim_def dec_pending_def Let_def is_release_task_def is_final_def responsive_def
      pool_err_def mode_rank_def split: if_splits mode.splits option.splits\<close>)

text \<open>Running one acquisition undisturbed: its \<open>n\<close>-th step is made at the time \<open>clock n\<close>.\<close>

fun acquire_run :: "(nat \<Rightarrow> nat) \<Rightarrow> (pg_error, connection) outcome \<Rightarrow> nat \<Rightarrow> task \<times> pool \<Rightarrow> task \<times> pool" where
  "acquire_run clock dial 0 s = s"
| "acquire_run clock dial (Suc n) s = (case acquire_run clock dial n s of (tk, p) \<Rightarrow> acquire_step (clock n) dial p tk)"

definition returned :: "task \<Rightarrow> bool" where
  "returned tk = (case tk of Holding _ \<Rightarrow> True | AcquireFailed _ \<Rightarrow> True | _ \<Rightarrow> False)"

text \<open>The mode of the loop an acquisition is in; a waiting one is in the loop with its deadline.\<close>

fun mode_of :: "task \<Rightarrow> mode option" where
  "mode_of (Start m) = Some m" | "mode_of (Discard m) = Some m" | "mode_of (Closing m c) = Some m"
| "mode_of (PopCheck m) = Some m" | "mode_of (Pinging m pc) = Some m" | "mode_of (PopReady m) = Some m"
| "mode_of (Creating m) = Some m" | "mode_of (CreateFailed m e) = Some m" | "mode_of (ExhaustedAt m) = Some m"
| "mode_of (Waiting d) = Some (Timed d)" | "mode_of _ = None"

definition due :: "nat \<Rightarrow> task \<Rightarrow> bool" where
  "due limit tk = (\<forall>d. mode_of tk = Some (Timed d) \<longrightarrow> d \<le> limit)"

definition timed :: "task \<Rightarrow> bool" where
  "timed tk = (\<forall>m. mode_of tk = Some m \<longrightarrow> (\<exists>d. m = Timed d))"

definition waits :: "pool \<Rightarrow> nat" where
  "waits p = (case acquire_timeout (pool_cfg p) of Some d \<Rightarrow> d | None \<Rightarrow> 0)"

text \<open>The deadline of a loop never moves; it is set when an exhausted pool is first met.\<close>

lemma acquire_step_mode:
  assumes "acquire_step t dial p tk = (tk', p')" "\<not> is_release_task tk"
  shows "mode_of tk' = mode_of tk \<or> mode_of tk' = None \<or>
    (\<exists>m. tk = ExhaustedAt m \<and> \<not> timed tk \<and> mode_of tk' = Some (Timed (t + waits p)))"
  using assms
  by (cases tk) (auto simp: decide_def pop_idle_def claim_def Let_def pool_err_def timed_def waits_def is_release_task_def
      split: prod.splits outcome.splits sum.splits option.splits list.splits if_splits mode.splits)

lemma acquire_step_config: "acquire_step t dial p tk = (tk', p') \<Longrightarrow> pool_cfg p' = pool_cfg p \<and> length (idle p') \<le> length (idle p)"
  by (cases tk) (auto simp: decide_def pop_idle_def claim_def Let_def dec_pending_def
      split: prod.splits outcome.splits sum.splits option.splits list.splits if_splits mode.splits)

lemma acquire_step_due:
  assumes "acquire_step t dial p tk = (tk', p')" "\<not> is_release_task tk" "due limit tk" "timed tk \<or> t + waits p \<le> limit"
  shows "due limit tk' \<and> (timed tk \<longrightarrow> timed tk')"
  using acquire_step_mode [OF assms(1,2)] assms(3,4) by (auto simp: due_def timed_def)

lemma final_timed: "is_final tk \<Longrightarrow> timed tk"
  by (cases tk) (simp_all add: is_final_def timed_def)

text \<open>What holds along a run.\<close>

definition on_way :: "nat \<Rightarrow> (pg_error, connection) outcome \<Rightarrow> pool \<Rightarrow> task \<times> pool \<Rightarrow> bool" where
  "on_way limit dial p0 s = (case s of (tk, p) \<Rightarrow>
     responsive dial p \<and> (coherent p tk \<or> returned tk) \<and> \<not> is_release_task tk \<and> due limit tk \<and> pool_cfg p = pool_cfg p0 \<and>
     length (idle p) \<le> length (idle p0))"

lemma coherent_not_release: "coherent p tk \<Longrightarrow> \<not> is_release_task tk"
  by (cases tk) (simp_all add: is_release_task_def)

lemma returned_step: "returned tk \<Longrightarrow> acquire_step t dial p tk = (tk, p)"
  by (cases tk) (simp_all add: returned_def)

lemma on_way_step:
  assumes "on_way limit dial p0 (tk, p)" "timed tk \<or> t + waits p0 \<le> limit"
  shows "on_way limit dial p0 (acquire_step t dial p tk) \<and> (timed tk \<longrightarrow> timed (fst (acquire_step t dial p tk)))"
proof -
  obtain tk' p' where st: "acquire_step t dial p tk = (tk', p')" by fastforce
  have h: "responsive dial p" "coherent p tk \<or> returned tk" "\<not> is_release_task tk" "due limit tk" "pool_cfg p = pool_cfg p0"
    "length (idle p) \<le> length (idle p0)" using assms(1) by (auto simp: on_way_def)
  have w: "waits p = waits p0" using h(5) by (simp add: waits_def)
  note d = acquire_step_due [OF st h(3,4)] and c = acquire_step_config [OF st]
  consider "returned tk" | (wait) D where "tk = Waiting D" | "coherent p tk" "\<not> is_final tk"
    using h(2) by (cases tk) (auto simp: returned_def is_final_def)
  then have "responsive dial p' \<and> (coherent p' tk' \<or> returned tk')"
  proof cases
    case wait
    then show ?thesis using st h(1) by (auto simp: responsive_def is_release_task_def split: if_splits)
  qed (use st h acquire_progress [OF st] returned_step in auto)
  moreover have "\<not> is_release_task tk'"
    using calculation coherent_not_release by (cases tk') (auto simp: returned_def is_release_task_def)
  ultimately show ?thesis using st d c h assms(2) w by (auto simp: on_way_def)
qed

text \<open>Phase one: a result, or the loop with a deadline.\<close>

lemma acquire_run_final:
  assumes "responsive dial p" "coherent p tk" "rank (length (idle p)) tk \<le> r"
  shows "\<exists>n\<le>r. is_final (fst (acquire_run clock dial n (tk, p)))"
proof (rule ccontr)
  assume "\<not> ?thesis"
  then have no: "\<not> is_final (fst (acquire_run clock dial n (tk, p)))" if "n \<le> r" for n using that by blast
  have "n \<le> r \<Longrightarrow> (case acquire_run clock dial n (tk, p) of (tk', p') \<Rightarrow>
      responsive dial p' \<and> coherent p' tk' \<and> rank (length (idle p')) tk' + n \<le> r)" for n
  proof (induction n)
    case (Suc n)
    obtain tk1 p1 where r1: "acquire_run clock dial n (tk, p) = (tk1, p1)" by fastforce
    obtain tk2 p2 where st: "acquire_step (clock n) dial p1 tk1 = (tk2, p2)" by fastforce
    show ?case using Suc no [of n] r1 st acquire_progress [OF st] by auto
  qed (use assms in simp)
  note at = this [of r, OF order_refl]
  obtain tk1 p1 where r1: "acquire_run clock dial r (tk, p) = (tk1, p1)" by fastforce
  obtain tk2 p2 where st: "acquire_step (clock r) dial p1 tk1 = (tk2, p2)" by fastforce
  show False using at r1 no [of r] acquire_progress [OF st] by simp
qed

text \<open>Phase two: once the deadline has passed, waiting ends and does not begin again.\<close>

fun late_rank :: "nat \<Rightarrow> task \<Rightarrow> nat" where
  "late_rank l (Waiting d) = 4 * l + 5"
| "late_rank l tk = rank l tk"

lemma late_progress:
  assumes "on_way limit dial p0 (tk, p)" "timed tk" "limit \<le> t" "\<not> returned tk" "acquire_step t dial p tk = (tk', p')"
  shows "late_rank (length (idle p')) tk' < late_rank (length (idle p)) tk"
proof (cases "\<exists>D. tk = Waiting D")
  case True
  then show ?thesis using assms by (auto simp: on_way_def due_def mode_rank_def split: if_splits)
next
  case False
  have c: "\<not> is_final tk" "coherent p tk" "responsive dial p"
    using assms(1,4) False by (auto simp: on_way_def is_final_def returned_def split: task.splits)
  note less = acquire_progress [OF assms(5) c(3,2,1)]
  have "tk' \<noteq> Waiting D" for D
    using assms False by (cases tk) (auto simp: on_way_def due_def timed_def decide_def pop_idle_def claim_def Let_def pool_err_def
      split: prod.splits outcome.splits sum.splits option.splits list.splits if_splits mode.splits)
  then show ?thesis using less False by (cases tk; cases tk'; simp)
qed

lemma late_rank_bound: "timed tk \<Longrightarrow> late_rank l tk \<le> 4 * l + 6"
  by (cases tk) (auto simp: timed_def mode_rank_def)

lemma late_returns:
  assumes "\<And>n. N \<le> n \<Longrightarrow> limit \<le> clock n" "\<And>n. N \<le> n \<Longrightarrow> on_way limit dial p0 (acquire_run clock dial n s) \<and> timed (fst (acquire_run clock dial n s))"
    and "late_rank (length (idle (snd (acquire_run clock dial N s)))) (fst (acquire_run clock dial N s)) \<le> r"
  shows "\<exists>n\<le>N + r. returned (fst (acquire_run clock dial n s))"
  using assms
proof (induction r arbitrary: N)
  case 0
  obtain tk p where r: "acquire_run clock dial N s = (tk, p)" by fastforce
  obtain tk' p' where st: "acquire_step (clock N) dial p tk = (tk', p')" by fastforce
  show ?case using late_progress [OF _ _ _ _ st, of limit p0] "0.prems"(1,2) [of N] "0.prems"(3) r by fastforce
next
  case (Suc r)
  obtain tk p where r: "acquire_run clock dial N s = (tk, p)" by fastforce
  obtain tk' p' where st: "acquire_step (clock N) dial p tk = (tk', p')" by fastforce
  show ?case
  proof (cases "returned tk")
    case True
    then show ?thesis using r by (intro exI [of _ N]) simp
  next
    case False
    have "late_rank (length (idle p')) tk' \<le> r"
      using late_progress [OF _ _ _ False st, of limit p0] Suc.prems(1,2) [of N] Suc.prems(3) r by fastforce
    then have "\<exists>n\<le>Suc N + r. returned (fst (acquire_run clock dial n s))"
      using Suc.prems(1,2) r st by (intro Suc.IH) auto
    then show ?thesis by simp
  qed
qed

lemma acquire_run_timed: "timed (fst (acquire_run clock dial n (Start (Timed d), p)))"
proof -
  have "\<not> is_release_task (fst (acquire_run clock dial n (Start (Timed d), p))) \<and> timed (fst (acquire_run clock dial n (Start (Timed d), p)))"
  proof (induction n)
    case (Suc n)
    obtain tk p1 where r: "acquire_run clock dial n (Start (Timed d), p) = (tk, p1)" by fastforce
    obtain tk' p' where st: "acquire_step (clock n) dial p1 tk = (tk', p')" by fastforce
    have "\<not> is_release_task tk'" using st Suc r
      by (cases tk) (auto simp: is_release_task_def decide_def Let_def pool_err_def
        split: prod.splits outcome.splits sum.splits option.splits if_splits mode.splits list.splits)
    then show ?case using acquire_step_mode [OF st] Suc r st by (auto simp: timed_def)
  qed (simp add: is_release_task_def timed_def)
  then show ?thesis by simp
qed

subsection \<open>Properties\<close>

text \<open>
  C5.  Accounting and capacity of the pool under every interleaving of any number of clients, with
  \<open>close\<close>, \<open>maintain\<close>, failing connections and expiry: \<open>active_count\<close> is the number of guards that are
  out, \<open>pending_count\<close> the number of connections being created, and idle, active and pending
  connections together (with those in transit) exceed \<open>max_size\<close> by at most the number \<open>k\<close> of
  operations that were in transit when a client decided to open a new connection; without such
  overlap (\<open>k = 0\<close>) the pool never exceeds \<open>max_size\<close>.
\<close>

theorem pool_capacity:
  assumes "pool_reach k cfg n (p, ts)"
  shows "active_count p = tally holding ts \<and> pending_count p = tally creating ts \<and>
     length (idle p) + active_count p + pending_count p + tally in_gap ts \<le> max_size cfg + k"
  using pool_reach_inv [OF assms] by (simp add: pool_inv_def total_def)

definition small_config :: pool_config where
  "small_config = default_pool_config\<lparr>max_size := 1, test_on_acquire := False\<rparr>"

definition small_pool :: pool where
  "small_pool = \<lparr> pool_cfg = small_config, idle = [], active_count = 0, pending_count = 0, total_created = 0,
     pool_closed = False, wake = False \<rparr>"

lemma small_pool_reach: "pool_reach k small_config n (small_pool, replicate n Finished)"
proof (rule pool_reach.init [of "[]"])
  show "pool_new small_config 0 [] = Ret (Ok small_pool)"
    by (simp add: pool_new_def validate_def small_config_def default_pool_config_def small_pool_def)
qed simp

lemmas pool_eval = task_step_def is_release_task_def creates_def good_dial_def tally_def pool_ops
  small_pool_def small_config_def default_pool_config_def create_connection_def reset_connection_def is_idle_def
  retc_def bindc_def drop_guard_def is_expired_def

theorem pool_capacity_witness:
  "\<exists>p ts. pool_reach 0 small_config 1 (p, ts) \<and> active_count p = 1 \<and>
     length (idle p) + active_count p + pending_count p + tally in_gap ts \<le> 1"
proof -
  have "\<exists>p ts. exec_events 0 (small_pool, replicate 1 Finished) [EAcquire 0 Basic, ERun 0 0 Pending,
      ERun 0 0 (Ret (Ok (sample_connection []))), ERun 0 0 Pending] = Some (p, ts) \<and> active_count p = 1"
    by (simp add: pool_eval)
  then obtain p ts where e: "exec_events 0 (small_pool, replicate 1 Finished) [EAcquire 0 Basic, ERun 0 0 Pending,
      ERun 0 0 (Ret (Ok (sample_connection []))), ERun 0 0 Pending] = Some (p, ts)" "active_count p = 1" by blast
  have r: "pool_reach 0 small_config 1 (p, ts)" by (rule exec_events_reach [OF e(1) small_pool_reach])
  have "max_size small_config = 1" by (simp add: small_config_def)
  with pool_capacity [OF r] e(2) have "active_count p = 1 \<and>
     length (idle p) + active_count p + pending_count p + tally in_gap ts \<le> 1" by linarith
  then show ?thesis using r by blast
qed

text \<open>
  The bound is tight, so overlap really breaks the limit: with \<open>max_size = 1\<close> and two clients there is
  a run in which the pool ends up owning two connections.  One client releases its guard: the count
  goes down before the connection is back in the queue; in between the other client sees room and
  opens a new connection; then the first one is put back without a further check.
\<close>

lemma pool_overlap_exceeds_max_size:
  "\<exists>p ts. pool_reach 1 small_config 2 (p, ts) \<and> max_size small_config = 1 \<and>
     length (idle p) = 1 \<and> active_count p = 1"
proof -
  let ?d = "Ret (Ok (sample_connection []))"
  let ?es = "[EAcquire 0 Basic, ERun 0 0 ?d, ERun 0 0 ?d, ERun 0 0 ?d, ERelease 0, ERun 0 0 ?d,
     EAcquire 1 Basic, ERun 1 0 ?d, ERun 1 0 ?d, ERun 1 0 ?d, ERun 0 0 ?d, ERun 0 0 ?d, ERun 0 0 ?d]"
  have "\<exists>p ts. exec_events 1 (small_pool, replicate 2 Finished) ?es = Some (p, ts) \<and>
      length (idle p) = 1 \<and> active_count p = 1"
    by (simp add: pool_eval numeral_2_eq_2)
  then obtain p ts where "exec_events 1 (small_pool, replicate 2 Finished) ?es = Some (p, ts)"
    "length (idle p) = 1" "active_count p = 1" by blast
  moreover from this(1) have "pool_reach 1 small_config 2 (p, ts)" by (rule exec_events_reach [OF _ small_pool_reach])
  moreover have "max_size small_config = 1" by (simp add: small_config_def)
  ultimately show ?thesis by blast
qed

text \<open>
  C6.  Every connection that an acquisition hands out is in the idle state of the protocol, ready for a
  query, under every interleaving and whatever earlier clients left behind: connections that are not
  idle are never put back, and the hooks that run on creation, health check and return leave the
  connection idle or make the pool discard it.
\<close>

theorem acquire_hands_out_idle:
  assumes "pool_reach k cfg n (p, ts)" "i < length ts" "good_dial dial"
    and "task_step t dial p (ts ! i) = (Holding a, p')" "\<forall>b. ts ! i \<noteq> Holding b"
  shows "is_idle (ac_connection a) \<and> list_all (\<lambda>pc. is_idle (pc_connection pc)) (idle p')"
proof -
  have "idle_ok p" "task_ok (ts ! i)"
    using pool_reach_ok [OF assms(1)] assms(2) by (simp_all add: list_all_length)
  from task_step_ok [OF assms(4) this assms(3)] assms(5) show ?thesis
    by (simp add: is_idle_def idle_ok_def)
qed

theorem acquire_hands_out_idle_witness:
  "\<exists>p ts a p'. pool_reach 0 small_config 1 (p, ts) \<and>
     task_step 0 Pending p (ts ! 0) = (Holding a, p') \<and> is_idle (ac_connection a)"
proof -
  let ?es = "[EAcquire 0 Basic, ERun 0 0 Pending, ERun 0 0 (Ret (Ok (sample_connection [])))]"
  have "\<exists>p ts a p'. exec_events 0 (small_pool, replicate 1 Finished) ?es = Some (p, ts) \<and> 0 < length ts \<and>
      task_step 0 Pending p (ts ! 0) = (Holding a, p') \<and> (\<forall>b. ts ! 0 \<noteq> Holding b)"
    by (simp add: pool_eval)
  then obtain p ts a p' where e: "exec_events 0 (small_pool, replicate 1 Finished) ?es = Some (p, ts)" "0 < length ts"
    "task_step 0 Pending p (ts ! 0) = (Holding a, p')" "\<forall>b. ts ! 0 \<noteq> Holding b" by blast
  have r: "pool_reach 0 small_config 1 (p, ts)" by (rule exec_events_reach [OF e(1) small_pool_reach])
  from acquire_hands_out_idle [OF r e(2) _ e(3,4)] r e(3) show ?thesis by (auto simp: good_dial_def)
qed

text \<open>
  C7.  An acquisition that runs undisturbed returns: if every health check and every attempt to connect
  comes back, then it ends with a guard or an error, also on an exhausted pool, where it waits for its
  deadline and then gives up.  The deadline is the one it was called with, or the time of the first
  \<open>4 * idle + 8\<close> steps plus the configured timeout; \<open>4 * idle + 6\<close> steps after the first step \<open>N\<close> past it
  the acquisition has returned.  Expired and broken connections are discarded on the way, each once, and a
  stale wake-up only makes it look again.
\<close>

theorem acquire_returns:
  assumes "responsive dial p" "mono clock" "4 * length (idle p) + 8 \<le> N"
    and "(case m of Timed d \<Rightarrow> d | _ \<Rightarrow> clock (4 * length (idle p) + 8) +
           (case acquire_timeout (pool_cfg p) of Some d \<Rightarrow> d | None \<Rightarrow> 0)) \<le> clock N"
  shows "\<exists>n\<le>N + 4 * length (idle p) + 6.
     case fst (acquire_run clock dial n (Start m, p)) of Holding _ \<Rightarrow> True | AcquireFailed _ \<Rightarrow> True | _ \<Rightarrow> False"
proof -
  let ?R = "4 * length (idle p) + 8" and ?run = "\<lambda>n. acquire_run clock dial n (Start m, p)" and ?lim = "clock N"
  have s: "coherent p (Start m)" "rank (length (idle p)) (Start m) \<le> ?R"
    by (simp_all add: is_release_task_def mode_rank_def split: mode.splits)
  obtain k where k: "k \<le> ?R" "is_final (fst (?run k))" using acquire_run_final [OF assms(1) s] by blast
  have way: "on_way ?lim dial p (?run n) \<and> (k \<le> n \<longrightarrow> timed (fst (?run n)))" for n
  proof (induction n)
    case 0
    have "due ?lim (Start m)" using assms(4) by (auto simp: due_def)
    then show ?case using assms(1) s(1) k(2) final_timed by (auto simp: on_way_def is_release_task_def)
  next
    case (Suc n)
    obtain tk1 p1 where r: "?run n = (tk1, p1)" by fastforce
    have "timed tk1 \<or> clock n + waits p \<le> ?lim"
    proof (cases "k \<le> n")
      case False
      then have "clock n \<le> clock ?R" using k(1) by (intro monoD [OF assms(2)]) simp
      then have "(\<forall>d. m \<noteq> Timed d) \<longrightarrow> clock n + waits p \<le> ?lim" using assms(4) by (auto simp: waits_def split: mode.splits)
      moreover have "timed (fst (acquire_run clock dial n (Start (Timed d), p)))" if "m = Timed d" for d
        by (rule acquire_run_timed)
      ultimately show ?thesis using r by (metis fst_conv)
    qed (use Suc r in auto)
    then show ?case using on_way_step [of ?lim dial p tk1 p1 "clock n"] Suc r final_timed [OF k(2)]
      by (auto simp: le_Suc_eq)
  qed
  have late: "\<exists>n\<le>N + r. returned (fst (?run n))" if "late_rank (length (idle (snd (?run N)))) (fst (?run N)) \<le> r" for r
  proof (rule late_returns [of N ?lim clock dial p "(Start m, p)", OF _ _ that])
    show "?lim \<le> clock n" if "N \<le> n" for n using monoD [OF assms(2) that] .
    show "on_way ?lim dial p (?run n) \<and> timed (fst (?run n))" if "N \<le> n" for n using way [of n] k(1) assms(3) that by simp
  qed
  have "late_rank (length (idle (snd (?run N)))) (fst (?run N)) \<le> 4 * length (idle p) + 6"
    using way [of N] k(1) assms(3) late_rank_bound [of "fst (?run N)" "length (idle (snd (?run N)))"]
    by (cases "?run N") (auto simp: on_way_def)
  from late [OF this] show ?thesis unfolding returned_def add.assoc .
qed

theorem acquire_returns_witness:
  "\<exists>n\<le>14. case fst (acquire_run id (Ret (Ok (sample_connection []))) n (Start (Timed 5), small_pool\<lparr>active_count := 1, wake := True\<rparr>)) of
     Holding _ \<Rightarrow> True | AcquireFailed _ \<Rightarrow> True | _ \<Rightarrow> False"
proof -
  let ?p = "small_pool\<lparr>active_count := 1, wake := True\<rparr>"
  have "responsive (Ret (Ok (sample_connection []))) ?p"
    by (simp add: responsive_def small_pool_def create_connection_def small_config_def default_pool_config_def)
  from acquire_returns [OF this, of id 8 "Timed 5"] show ?thesis by (simp add: small_pool_def mono_def)
qed

text \<open>The clients that have got past the check whether the pool is closed and are not finished.\<close>

fun admitted :: "task \<Rightarrow> nat" where
  "admitted (Start _) = 0" | "admitted (Waiting _) = 0" | "admitted (AcquireFailed _) = 0" | "admitted Finished = 0"
| "admitted _ = 1"

text \<open>
  C32.  A closed pool stays closed and admits nobody: from then on, whatever is interleaved, every
  acquisition that starts fails with \<open>Closed\<close> and changes nothing, and the number of clients that
  hold or are about to get a connection never grows.
\<close>

theorem closed_pool_admits_nobody:
  assumes "pool_closed p" "pool_step k (p, ts) (p', ts')"
  shows "pool_closed p' \<and> tally admitted ts' \<le> tally admitted ts \<and>
     acquire_step t dial p (Start m) = (AcquireFailed (PgPool PvClosed), p)"
proof -
  have st: "pool_closed p1 \<and> admitted tk' \<le> admitted tk" if "task_step t dial p tk = (tk', p1)" for t dial tk tk' p1
    using that assms(1)
    by (cases tk) (auto simp: task_step_def is_release_task_def pool_ops pool_err_def
        split: prod.splits outcome.splits sum.splits list.splits option.splits if_splits mode.splits)
  have up: "tally admitted (ts[i := tk]) \<le> tally admitted ts" if "i < length ts" "admitted tk \<le> admitted (ts ! i)" for i tk
    using tally_update(1) [OF that(1), of admitted tk] that(2) by linarith
  have "pool_closed p' \<and> tally admitted ts' \<le> tally admitted ts"
    using assms(2)
  proof (cases rule: pool_step.cases)
    case (run i dial t tk)
    then show ?thesis using st [of t dial "ts ! i" tk p'] up by auto
  next
    case (acquire i tk)
    then show ?thesis using assms(1) up [of i tk] by auto
  next
    case (give_up i e)
    then show ?thesis using assms(1) up [of i Finished] by simp
  next
    case (use i a c)
    then show ?thesis using assms(1) up [of i "Holding (a\<lparr>ac_connection := c\<rparr>)"] by simp
  next
    case (release i a)
    then show ?thesis using assms(1) up [of i "Releasing a"] by simp
  next
    case (detach i a)
    then show ?thesis using assms(1) up [of i Finished] by (simp add: Pool.detach_def pool_ops)
  next
    case (drop i a t)
    then show ?thesis using assms(1) up [of i Finished] by (simp add: drop_guard_def pool_ops)
  next
    case close
    then show ?thesis using assms(1) by (simp add: close_pool_def pool_ops)
  next
    case (maintain t)
    then show ?thesis using assms(1) by (simp add: Pool.maintain_def)
  qed
  then show ?thesis using assms(1) by (simp add: decide_def pool_err_def)
qed

theorem closed_pool_admits_nobody_witness:
  "\<exists>p ts. pool_step 0 (snd (close_pool small_pool), [Start Basic]) (p, ts) \<and> pool_closed p \<and> tally admitted ts = 0"
proof -
  let ?p = "snd (close_pool small_pool)"
  have s: "pool_step 0 (?p, [Start Basic]) (snd (maintain 0 ?p), [Start Basic])" by (rule pool_step.maintain)
  have "pool_closed ?p" by (simp add: close_pool_def pool_ops)
  from closed_pool_admits_nobody [OF this s, of 0 Pending Basic]
  have "pool_closed (snd (maintain 0 ?p)) \<and> tally admitted [Start Basic] = 0" by (simp add: tally_def)
  then show ?thesis using s by blast
qed

text \<open>
  Dropping a guard inside a transaction: the connection goes back to the queue as it is, and the next
  client gets it without a rollback having been sent.
\<close>

lemma dropped_guard_leaks_transaction:
  "\<exists>p ts a. pool_reach 0 small_config 1 (p, ts) \<and> ts = [Holding a] \<and> total_created p = 1 \<and>
     transaction_status (ac_connection a) = InTransaction \<and> outbox (ac_connection a) = []"
proof -
  let ?d = "Ret (Ok (sample_connection []))"
  let ?es = "[EAcquire 0 Basic, ERun 0 0 ?d, ERun 0 0 ?d, ERun 0 0 ?d,
     EUse 0 ((sample_connection [])\<lparr>transaction_status := InTransaction\<rparr>), EDrop 0 0,
     EAcquire 0 Basic, ERun 0 0 ?d, ERun 0 0 ?d]"
  have "\<exists>p ts a. exec_events 0 (small_pool, replicate 1 Finished) ?es = Some (p, ts) \<and> ts = [Holding a] \<and>
      total_created p = 1 \<and> transaction_status (ac_connection a) = InTransaction \<and> outbox (ac_connection a) = []"
    by (simp add: pool_eval)
  then obtain p ts a where e: "exec_events 0 (small_pool, replicate 1 Finished) ?es = Some (p, ts)" "ts = [Holding a]"
    "total_created p = 1" "transaction_status (ac_connection a) = InTransaction" "outbox (ac_connection a) = []" by blast
  have "pool_reach 0 small_config 1 (p, ts)" by (rule exec_events_reach [OF e(1) small_pool_reach])
  then show ?thesis using e by blast
qed

end
