(* ===== verification/Resilience.thy ===== *)
theory Resilience
  imports Transaction
begin

text \<open>
  Reconnection and retry of \<open>connection.rs\<close> (\<open>reconnect\<close>, \<open>rebuild_session\<close>, \<open>with_retry\<close>, \<open>ensure_alive\<close>)
  and query cancellation (\<open>cancel.rs\<close>).  The outcomes of the coming dials are the field \<open>dials\<close> of a
  connection; \<open>reconnect_sleep\<close> advances its clock.  The callback \<open>on_before_reconnect\<close> does not occur:
  \<open>with_retry\<close> works on a clone of the configuration, and \<open>clone_reconnect_config\<close> drops it.
\<close>

subsection \<open>Rebuilding the session\<close>

definition rebuild_reconnect_init_sql :: "session_state \<Rightarrow> unit cm" where
  "rebuild_reconnect_init_sql s =
     (case reconnect_init_sql s of None \<Rightarrow> retc () | Some sql \<Rightarrow> bindc (execute sql) (\<lambda>_. retc ()))"

text \<open>
  The two loops over the tracked state: a statement that succeeds is tracked again, an error is
  dropped.
\<close>

fun rebuild_each :: "('i \<Rightarrow> string) \<Rightarrow> ('i \<Rightarrow> session_state \<Rightarrow> session_state) \<Rightarrow> 'i list \<Rightarrow> unit cm" where
  "rebuild_each sql_of track [] c = (Ret (Ok ()), c)"
| "rebuild_each sql_of track (i # is) c =
     (case execute (sql_of i) c of
        (Pending, c1) \<Rightarrow> (Pending, c1)
      | (Ret (Inr _), c1) \<Rightarrow> rebuild_each sql_of track is (c1\<lparr>session_state := track i (session_state c1)\<rparr>)
      | (Ret (Inl _), c1) \<Rightarrow> rebuild_each sql_of track is c1)"

definition rebuild_listens :: "string list \<Rightarrow> unit cm" where
  "rebuild_listens = rebuild_each build_listen_sql track_listen"

definition rebuild_gucs :: "(string \<times> string) list \<Rightarrow> unit cm" where
  "rebuild_gucs = rebuild_each (\<lambda>(k, v). build_set_param_sql k v) (\<lambda>(k, v). track_set_guc k v)"

definition rebuild_session :: "session_state \<Rightarrow> unit cm" where
  "rebuild_session s = bindc (rebuild_listens (listen_channels s)) (\<lambda>_. rebuild_gucs (custom_gucs s))"

subsection \<open>Reconnecting\<close>

text \<open>The swap of transport, codec and parameters, and the fields copied or reset around it.\<close>

definition adopt :: "connection \<Rightarrow> connection \<Rightarrow> connection" where
  "adopt new_conn c =
     c\<lparr>inbox := inbox new_conn, outbox := outbox new_conn, write_faults := write_faults new_conn,
       secure := secure new_conn, tls_server_end_point := tls_server_end_point new_conn,
       shut_down := shut_down new_conn, server_params_of := server_params_of new_conn,
       transaction_status := transaction_status new_conn, notification_queue := [],
       state := state new_conn, health := reset_after_reconnect (now c) (health c),
       needs_recovery := False\<rparr>"

definition init_replacement :: "session_state \<Rightarrow> bool \<Rightarrow> unit cm" where
  "init_replacement s rebuild =
     bindc (rebuild_reconnect_init_sql s) (\<lambda>_. if rebuild then rebuild_session s else retc ())"

definition reconnect ::
  "'sc scram_lib \<Rightarrow> (bytes \<Rightarrow> bytes \<Rightarrow> bytes \<Rightarrow> string) \<Rightarrow> unit cm"
where
  "reconnect l md5_hash c =
     (let c1 = shutdown_c (c\<lparr>health := mark_broken (health c)\<rparr>) in
      case dials c1 of
        [] \<Rightarrow> (Pending, c1)
      | d # ds \<Rightarrow>
          (let c2 = c1\<lparr>dials := ds\<rparr> in
           case connect l md5_hash (now c2) ds d (conn_config c2) of
             Pending \<Rightarrow> (Pending, c2)
           | Ret (Inl e) \<Rightarrow> (Ret (Err e), c2)
           | Ret (Inr new_conn) \<Rightarrow>
               (case init_replacement (session_state c) (rebuild_session_flag (reconnect_cfg (conn_config c2))) new_conn of
                  (Pending, nc) \<Rightarrow> (Pending, c2)
                | (Ret (Inl e), nc) \<Rightarrow> (Ret (Err e), c2)
                | (Ret (Inr _), nc) \<Rightarrow> (Ret (Ok ()), adopt nc c2))))"

subsection \<open>Retrying\<close>

definition sleep :: "nat \<Rightarrow> connection \<Rightarrow> connection" where
  "sleep d c = c\<lparr>now := now c + d\<rparr>"

definition break_health :: "connection \<Rightarrow> connection" where
  "break_health c = c\<lparr>health := mark_broken (health c)\<rparr>"

text \<open>
  The loop of \<open>with_retry\<close>, with the number of attempts made; the error \<open>None\<close> is the panic of the delay
  computation.
\<close>

function conn_retry_loop ::
  "'sc scram_lib \<Rightarrow> (bytes \<Rightarrow> bytes \<Rightarrow> bytes \<Rightarrow> string) \<Rightarrow> reconnect_config \<Rightarrow> nat \<Rightarrow> 'a cm \<Rightarrow> nat \<Rightarrow> connection \<Rightarrow>
   (pg_error option, 'a) outcome \<times> connection \<times> nat"
where
  "conn_retry_loop l md5_hash cfg limit f attempt0 c =
     (let attempt = attempt0 + 1 in
      case f c of
        (Pending, c1) \<Rightarrow> (Pending, c1, attempt)
      | (Ret (Inr v), c1) \<Rightarrow>
          (Ret (Inr v), set_in_transaction (transaction_status c1 \<noteq> TIdle)
             (c1\<lparr>health := mark_alive (now c1) (health c1)\<rparr>), attempt)
      | (Ret (Inl err), c1) \<Rightarrow>
          (case classify_error err of
             Permanent \<Rightarrow> (Ret (Inl (Some err)), c1, attempt)
           | Transient \<Rightarrow>
               if limit \<le> attempt then (Ret (Inl (Some err)), c1, attempt)
               else (case reconnect_delay_for_attempt cfg attempt of
                       None \<Rightarrow> (Ret (Inl None), c1, attempt)
                     | Some d \<Rightarrow> conn_retry_loop l md5_hash cfg limit f attempt (sleep d c1))
           | Broken \<Rightarrow>
               if \<not> enabled cfg then (Ret (Inl (Some err)), break_health c1, attempt)
               else if \<not> allow_mid_transaction cfg \<and> in_transaction (session_state c1)
                    then (Ret (Inl (Some err)), break_health c1, attempt)
               else if limit \<le> attempt then (Ret (Inl (Some err)), c1, attempt)
               else (case reconnect_delay_for_attempt cfg attempt of
                       None \<Rightarrow> (Ret (Inl None), c1, attempt)
                     | Some d \<Rightarrow>
                         (case reconnect l md5_hash (sleep d c1) of
                            (Pending, c2) \<Rightarrow> (Pending, c2, attempt)
                          | (Ret (Inl _), c2) \<Rightarrow> (Ret (Inl (Some err)), c2, attempt)
                          | (Ret (Inr _), c2) \<Rightarrow> conn_retry_loop l md5_hash cfg limit f attempt c2))))"
  by pat_completeness auto
termination
  by (relation "measure (\<lambda>(l, md5_hash, cfg, limit, f, attempt0, c). limit - attempt0)") auto

declare conn_retry_loop.simps [simp del]

definition attempt_limit :: "reconnect_config \<Rightarrow> nat" where
  "attempt_limit cfg = (if enabled cfg then max (max_attempts cfg) 1 else 1)"

definition conn_with_retry ::
  "'sc scram_lib \<Rightarrow> (bytes \<Rightarrow> bytes \<Rightarrow> bytes \<Rightarrow> string) \<Rightarrow> 'a cm \<Rightarrow> connection \<Rightarrow>
   (pg_error option, 'a) outcome \<times> connection \<times> nat"
where
  "conn_with_retry l md5_hash f c =
     (let cfg = clone_reconnect_config (reconnect_cfg (conn_config c))
      in conn_retry_loop l md5_hash cfg (attempt_limit cfg) f 0 c)"

definition ensure_alive ::
  "'sc scram_lib \<Rightarrow> (bytes \<Rightarrow> bytes \<Rightarrow> bytes \<Rightarrow> string) \<Rightarrow> unit cm"
where
  "ensure_alive l md5_hash c =
     (if \<not> alive (health c) then
        (if enabled (reconnect_cfg (conn_config c)) then reconnect l md5_hash c
         else (Ret (Err PgConnectionClosed), c))
      else if is_stale (stale_threshold (stale_cfg (conn_config c))) c \<and> ping_on_stale (stale_cfg (conn_config c)) then
        (case ping c of
           (Pending, c1) \<Rightarrow> (Pending, c1)
         | (Ret (Inr _), c1) \<Rightarrow> (Ret (Ok ()), c1\<lparr>health := mark_alive (now c1) (health c1)\<rparr>)
         | (Ret (Inl e), c1) \<Rightarrow>
             (if enabled (reconnect_cfg (conn_config (break_health c1))) then reconnect l md5_hash (break_health c1)
              else (Ret (Err e), break_health c1)))
      else (Ret (Ok ()), c))"

subsection \<open>Cancelling\<close>

record cancel_token =
  ct_host :: string
  ct_port :: nat
  ct_process_id :: int
  ct_secret_key :: int
  ct_ssl_mode :: ssl_mode
  ct_accept_invalid_certs :: bool

definition cancel_token_of :: "connection \<Rightarrow> cancel_token" where
  "cancel_token_of c =
     \<lparr> ct_host = host (conn_config c), ct_port = port (conn_config c),
       ct_process_id = process_id (server_params_of c), ct_secret_key = secret_key (server_params_of c),
       ct_ssl_mode = ssl_mode (conn_config c), ct_accept_invalid_certs = accept_invalid_certs (conn_config c) \<rparr>"

text \<open>\<open>cancel_with_timeout\<close> on the outcome of dialling and negotiating TLS.\<close>

definition cancel :: "cancel_token \<Rightarrow> (pg_error, channel) res \<Rightarrow> (pg_error, channel) res" where
  "cancel tok d =
     (case d of
        Inl e \<Rightarrow> Err e
      | Inr ch \<Rightarrow>
          (case chan_write [CancelRequest (ct_process_id tok) (ct_secret_key tok)] ch of
             (Inl e, ch1) \<Rightarrow> Err (from_auth_error e)
           | (Inr _, ch1) \<Rightarrow> Ok (ch1\<lparr>shut_down := True\<rparr>)))"

subsection \<open>The replacement is initialised\<close>

lemma rebuild_each_replies:
  assumes "ready c" "replies mss reps" "length reps = length is" "inbox c = map Inr (concat mss) @ rest"
  shows "\<exists>c'. rebuild_each sql_of track is c = (Ret (Ok ()), c') \<and> ready c' \<and> inbox c' = rest \<and>
     outbox c' = outbox c @ map (Query \<circ> sql_of) is"
  using assms
proof (induction "is" arbitrary: c mss reps)
  case Nil
  then show ?case by (auto simp: replies_def)
next
  case (Cons i "is")
  obtain ms mss' r rs where m: "mss = ms # mss'" "reps = r # rs" "interleaved ms (reply_messages r)"
    "well_formed_reply r" "replies mss' rs" "length rs = length is"
    using Cons.prems(2,3) by (cases reps) (auto simp: replies_def list_all2_Cons2)
  have "inbox c = map Inr ms @ (map Inr (concat mss') @ rest)" using Cons.prems(4) m(1) by simp
  from execute_reply [OF Cons.prems(1) m(3,4) this, of "sql_of i"] obtain c1 where
    c1: "execute (sql_of i) c = (Ret (bind_res (reply_result r) (\<lambda>q. Ok (qr_command_tag q))), c1)" "ready c1"
      "inbox c1 = map Inr (concat mss') @ rest" "outbox c1 = outbox c @ [Query (sql_of i)]" by blast
  show ?case
  proof (cases "reply_result r")
    case (Inl e)
    then show ?thesis using c1 Cons.IH [OF c1(2) m(5,6) c1(3)] by (auto simp: bind_res_def)
  next
    case (Inr q)
    let ?c = "c1\<lparr>session_state := track i (session_state c1)\<rparr>"
    have "ready ?c" "inbox ?c = map Inr (concat mss') @ rest" using c1(2,3) by (simp_all add: ready_def)
    from Cons.IH [OF this(1) m(5,6) this(2)] show ?thesis using c1 Inr by (auto simp: bind_res_def)
  qed
qed

text \<open>The statements \<open>reconnect\<close> sends on the replacement, in order.\<close>

definition rebuild_statements :: "bool \<Rightarrow> session_state \<Rightarrow> string list" where
  "rebuild_statements rebuild s =
     (case reconnect_init_sql s of None \<Rightarrow> [] | Some sql \<Rightarrow> [sql]) @
     (if rebuild then map build_listen_sql (listen_channels s) @ map (\<lambda>(k, v). build_set_param_sql k v) (custom_gucs s)
      else [])"

lemma rebuild_session_replies:
  assumes "ready c" "replies mss reps" "length reps = length (listen_channels s) + length (custom_gucs s)"
    and "inbox c = map Inr (concat mss) @ rest"
  shows "\<exists>c'. rebuild_session s c = (Ret (Ok ()), c') \<and> ready c' \<and> inbox c' = rest \<and>
     outbox c' = outbox c @ map Query (map build_listen_sql (listen_channels s) @
        map (\<lambda>(k, v). build_set_param_sql k v) (custom_gucs s))"
proof -
  let ?n = "length (listen_channels s)"
  have l: "replies (take ?n mss) (take ?n reps)" "replies (drop ?n mss) (drop ?n reps)"
    "length (take ?n reps) = length (listen_channels s)" "length (drop ?n reps) = length (custom_gucs s)"
    using assms(2,3) by (auto simp: replies_def list_all2_takeI list_all2_dropI)
  have "inbox c = map Inr (concat (take ?n mss)) @ (map Inr (concat (drop ?n mss)) @ rest)"
    using assms(4) by (metis append.assoc append_take_drop_id concat_append map_append)
  from rebuild_each_replies [OF assms(1) l(1,3) this, of build_listen_sql track_listen] obtain c1 where
    c1: "rebuild_listens (listen_channels s) c = (Ret (Ok ()), c1)" "ready c1"
      "inbox c1 = map Inr (concat (drop ?n mss)) @ rest"
      "outbox c1 = outbox c @ map (Query \<circ> build_listen_sql) (listen_channels s)"
    unfolding rebuild_listens_def by blast
  from rebuild_each_replies [OF c1(2) l(2,4) c1(3), of "\<lambda>(k, v). build_set_param_sql k v" "\<lambda>(k, v). track_set_guc k v"]
  show ?thesis using c1 by (auto simp: rebuild_session_def rebuild_gucs_def comp_def)
qed

lemma init_replacement_replies:
  assumes "ready c" "replies mss reps" "length reps = length (rebuild_statements rebuild s)"
    and "inbox c = map Inr (concat mss) @ rest"
    and "reconnect_init_sql s \<noteq> None \<longrightarrow> (\<exists>q. reply_result (hd reps) = Inr q)"
  shows "\<exists>c'. init_replacement s rebuild c = (Ret (Ok ()), c') \<and> ready c' \<and> inbox c' = rest \<and>
     outbox c' = outbox c @ map Query (rebuild_statements rebuild s)"
proof (cases "reconnect_init_sql s")
  case None
  then show ?thesis using assms rebuild_session_replies [OF assms(1,2) _ assms(4), of s]
    by (cases rebuild) (auto simp: init_replacement_def rebuild_reconnect_init_sql_def retc_def rebuild_statements_def
        replies_def)
next
  case (Some sql)
  obtain ms mss' r rs where m: "mss = ms # mss'" "reps = r # rs" "interleaved ms (reply_messages r)"
    "well_formed_reply r" "replies mss' rs"
    using assms(2,3) Some by (cases reps) (auto simp: replies_def list_all2_Cons2 rebuild_statements_def)
  obtain q where q: "reply_result r = Inr q" using assms(5) Some m(2) by auto
  have "inbox c = map Inr ms @ (map Inr (concat mss') @ rest)" using assms(4) m(1) by simp
  from execute_reply [OF assms(1) m(3,4) this, of sql] q obtain c1 where
    c1: "execute sql c = (Ret (Ok (qr_command_tag q)), c1)" "ready c1"
      "inbox c1 = map Inr (concat mss') @ rest" "outbox c1 = outbox c @ [Query sql]" by (auto simp: bind_res_def)
  then show ?thesis using Some m assms(3) rebuild_session_replies [OF c1(2) m(5) _ c1(3), of s]
    by (cases rebuild) (auto simp: init_replacement_def rebuild_reconnect_init_sql_def retc_def rebuild_statements_def
        replies_def)
qed

lemma connect_fresh:
  assumes "connect l h t ds d cfg = Ret (Ok nc)"
  shows "state nc = Idle" "\<not> needs_recovery nc"
  using assms
  by (auto simp: connect_def init_connection_def split: sum.splits prod.splits outcome.splits)

text \<open>
  C10.  \<open>reconnect\<close> rebuilds the session on the replacement connection: once a dial is answered by a
  server that authenticates the client and then answers every statement (the initialisation statement
  successfully, the others in any way), \<open>reconnect\<close> succeeds; what was sent after authentication is
  exactly the registered initialisation statement, one \<open>LISTEN\<close> for every tracked channel and one
  \<open>SET\<close> for every tracked parameter, in this order (only the first without \<open>rebuild_session\<close>); the
  connection is idle, alive, in step with the server, with one reconnection more on record and the
  tracked session state unchanged.  Notifications received before, or while the session is rebuilt, are
  gone.
\<close>

theorem reconnect_rebuilds_session:
  assumes "dials c = d # ds" "connect l h (now c) ds d (conn_config c) = Ret (Ok nc)" "write_faults nc = []"
    and "stmts = rebuild_statements (rebuild_session_flag (reconnect_cfg (conn_config c))) (session_state c)"
    and "replies mss reps" "length reps = length stmts" "inbox nc = map Inr (concat mss) @ rest"
    and "reconnect_init_sql (session_state c) \<noteq> None \<longrightarrow> (\<exists>q. reply_result (hd reps) = Inr q)"
  shows "\<exists>c'. reconnect l h c = (Ret (Ok ()), c') \<and> outbox c' = outbox nc @ map Query stmts \<and>
     inbox c' = rest \<and> ready c' \<and> alive (health c') \<and> reconnect_count (health c') = reconnect_count (health c) + 1 \<and>
     session_state c' = session_state c \<and> notification_queue c' = [] \<and> dials c' = ds"
proof -
  have "ready nc" using connect_fresh [OF assms(2)] assms(3) by (simp add: ready_def)
  from init_replacement_replies [OF this assms(5) assms(6) [unfolded assms(4)] assms(7,8)] obtain nc' where
    n: "init_replacement (session_state c) (rebuild_session_flag (reconnect_cfg (conn_config c))) nc = (Ret (Ok ()), nc')"
      "ready nc'" "inbox nc' = rest" "outbox nc' = outbox nc @ map Query stmts"
    unfolding assms(4) by blast
  have "reconnect l h c = (Ret (Ok ()),
      adopt nc' ((shutdown_c (c\<lparr>health := mark_broken (health c)\<rparr>))\<lparr>dials := ds\<rparr>))"
    using assms(1,2) n(1) by (simp add: reconnect_def Let_def shutdown_c_def)
  then show ?thesis using n(2-4)
    by (simp add: adopt_def shutdown_c_def ready_def reset_after_reconnect_def mark_broken_def health_new_def)
qed

text \<open>A dial answered by a server that needs no password.\<close>

definition trusting_dial :: "backend_message list \<Rightarrow> (pg_error, channel) res" where
  "trusting_dial ms = Ok \<lparr> inbox = map Ok (AuthenticationOk # ReadyForQuery CHR ''I'' # ms), outbox = [],
     write_faults = [], secure = True, tls_server_end_point = None, shut_down = False \<rparr>"

lemma connect_trusting_dial:
  "\<exists>nc. connect l h t ds (trusting_dial ms) cfg = Ret (Ok nc) \<and> write_faults nc = [] \<and> inbox nc = map Ok ms \<and>
     outbox nc = [Startup (startup_params cfg)]"
  by (simp add: connect_def trusting_dial_def chan_write_def authenticate.simps recv_def read_startup_params_def
      init_connection_def)

theorem reconnect_rebuilds_session_witness:
  "\<exists>c'. reconnect \<lparr> scram_new = \<lambda>_ _. (), scram_message = \<lambda>_. [], scram_update = \<lambda>s _. Ok s, scram_finish = \<lambda>_ _. Ok () \<rparr>
       (\<lambda>_ _ _. ''md5'')
       ((sample_connection [])\<lparr>dials := [trusting_dial [CommandComplete (Ok ''LISTEN''), ReadyForQuery CHR ''I'']],
          session_state := session_new\<lparr>listen_channels := [''jobs'']\<rparr>\<rparr>) = (Ret (Ok ()), c') \<and>
     outbox c' = [Startup (startup_params config_new), Query (build_listen_sql ''jobs'')]"
proof -
  let ?l = "\<lparr> scram_new = \<lambda>_ _. (), scram_message = \<lambda>_. [], scram_update = \<lambda>s _. Ok s, scram_finish = \<lambda>_ _. Ok () \<rparr>"
  let ?m = "[CommandComplete (Ok ''LISTEN''), ReadyForQuery CHR ''I'']"
  let ?c = "(sample_connection [])\<lparr>dials := [trusting_dial ?m], session_state := session_new\<lparr>listen_channels := [''jobs'']\<rparr>\<rparr>"
  obtain nc where nc: "connect ?l (\<lambda>_ _ _. ''md5'') (now ?c) [] (trusting_dial ?m) (conn_config ?c) = Ret (Ok nc)"
    "write_faults nc = []" "inbox nc = map Ok ?m" "outbox nc = [Startup (startup_params (conn_config ?c))]"
    using connect_trusting_dial by blast
  have r: "replies [?m] [CommandReply ''LISTEN'' CHR ''I'']"
    by (simp add: replies_def is_async_def well_formed_reply_def)
  have s: "rebuild_statements (rebuild_session_flag (reconnect_cfg (conn_config ?c))) (session_state ?c) = [build_listen_sql ''jobs'']"
    by (simp add: rebuild_statements_def session_new_def config_new_def default_reconnect_config_def)
  have "\<exists>c'. reconnect ?l (\<lambda>_ _ _. ''md5'') ?c = (Ret (Ok ()), c') \<and>
      outbox c' = outbox nc @ map Query [build_listen_sql ''jobs'']"
    using reconnect_rebuilds_session [OF _ nc(1,2) s [symmetric] r, of "[]"] nc(3) by (auto simp: session_new_def)
  then show ?thesis using nc(4) by simp
qed

subsection \<open>The attempts of a retry\<close>

text \<open>
  \<open>retry_step l h cfg f n c0 c2\<close>: attempt \<open>n\<close>, on \<open>c0\<close>, fails in a way that allows another attempt, which
  starts with \<open>c2\<close>.
\<close>

inductive retry_step ::
  "'sc scram_lib \<Rightarrow> (bytes \<Rightarrow> bytes \<Rightarrow> bytes \<Rightarrow> string) \<Rightarrow> reconnect_config \<Rightarrow> 'a cm \<Rightarrow> nat \<Rightarrow>
   connection \<Rightarrow> connection \<Rightarrow> bool"
  for l h cfg f n c0
where
  retry_transient: "\<lbrakk>f c0 = (Ret (Inl err), c1); classify_error err = Transient;
    reconnect_delay_for_attempt cfg n = Some d\<rbrakk> \<Longrightarrow> retry_step l h cfg f n c0 (sleep d c1)"
| retry_broken: "\<lbrakk>f c0 = (Ret (Inl err), c1); classify_error err = Broken;
    enabled cfg; allow_mid_transaction cfg \<or> \<not> in_transaction (session_state c1);
    reconnect_delay_for_attempt cfg n = Some d; reconnect l h (sleep d c1) = (Ret (Ok ()), c2)\<rbrakk>
    \<Longrightarrow> retry_step l h cfg f n c0 c2"

inductive retried_from ::
  "'sc scram_lib \<Rightarrow> (bytes \<Rightarrow> bytes \<Rightarrow> bytes \<Rightarrow> string) \<Rightarrow> reconnect_config \<Rightarrow> 'a cm \<Rightarrow> connection \<Rightarrow>
   nat \<Rightarrow> connection \<Rightarrow> bool"
  for l h cfg f c
where
  "retried_from l h cfg f c 0 c"
| "retried_from l h cfg f c k c0 \<Longrightarrow> retry_step l h cfg f (Suc k) c0 c1 \<Longrightarrow> retried_from l h cfg f c (Suc k) c1"

text \<open>How the last attempt, number \<open>n\<close> on \<open>c0\<close>, determines the result.\<close>

definition last_attempt ::
  "reconnect_config \<Rightarrow> nat \<Rightarrow> 'a cm \<Rightarrow> connection \<Rightarrow> nat \<Rightarrow> (pg_error option, 'a) outcome \<Rightarrow> connection \<Rightarrow> bool"
where
  "last_attempt cfg limit f c0 n r c' =
     (case r of
        Ret (Inr v) \<Rightarrow> fst (f c0) = Ret (Inr v) \<and> alive (health c')
      | Ret (Inl (Some err)) \<Rightarrow> fst (f c0) = Ret (Inl err) \<and>
          (case classify_error err of
             Permanent \<Rightarrow> c' = snd (f c0)
           | Transient \<Rightarrow> n = limit \<and> c' = snd (f c0)
           | Broken \<Rightarrow>
               (if \<not> enabled cfg \<or> \<not> allow_mid_transaction cfg \<and> in_transaction (session_state (snd (f c0)))
                then c' = break_health (snd (f c0))
                else n < limit \<or> c' = snd (f c0)))
      | Ret (Inl None) \<Rightarrow> reconnect_delay_for_attempt cfg n = None
      | Pending \<Rightarrow> True)"

lemma conn_retry_loop_failed:
  assumes "f c0 = (Ret (Inl err), c1)"
  shows "conn_retry_loop l h cfg limit f k c0 =
     (if classify_error err = Permanent then (Ret (Inl (Some err)), c1, Suc k)
      else if classify_error err = Broken \<and>
         \<not> (enabled cfg \<and> (allow_mid_transaction cfg \<or> \<not> in_transaction (session_state c1)))
      then (Ret (Inl (Some err)), break_health c1, Suc k)
      else if limit \<le> Suc k then (Ret (Inl (Some err)), c1, Suc k)
      else case reconnect_delay_for_attempt cfg (Suc k) of
        None \<Rightarrow> (Ret (Inl None), c1, Suc k)
      | Some d \<Rightarrow>
          if classify_error err = Transient then conn_retry_loop l h cfg limit f (Suc k) (sleep d c1)
          else (case reconnect l h (sleep d c1) of
                  (Pending, c2) \<Rightarrow> (Pending, c2, Suc k)
                | (Ret (Inl _), c2) \<Rightarrow> (Ret (Inl (Some err)), c2, Suc k)
                | (Ret (Inr _), c2) \<Rightarrow> conn_retry_loop l h cfg limit f (Suc k) c2))"
  using assms by (subst conn_retry_loop.simps) (cases "classify_error err"; simp split: option.split)

lemma conn_retry_loop_cases:
  assumes "conn_retry_loop l h cfg limit f k c0 = (r, c', n)" "k < limit"
  shows "(n = Suc k \<and> last_attempt cfg limit f c0 n r c') \<or>
     (\<exists>c2. retry_step l h cfg f (Suc k) c0 c2 \<and> Suc k < limit \<and> conn_retry_loop l h cfg limit f (Suc k) c2 = (r, c', n))"
proof -
  obtain x c1 where f: "f c0 = (x, c1)" by fastforce
  consider "x = Pending" | v where "x = Ret (Inr v)" | err where "x = Ret (Inl err)"
    by (metis outcome.exhaust sum.exhaust)
  then show ?thesis
  proof cases
    case 3
    have fe: "f c0 = (Ret (Inl err), c1)" using f 3 by simp
    note run = assms(1) [unfolded conn_retry_loop_failed [of f c0 err c1 l h cfg limit k, OF fe]]
    show ?thesis
    proof (cases "classify_error err")
      case Transient
      then show ?thesis using run fe assms(2) retry_transient [of f c0 err c1 cfg "Suc k"]
        by (auto simp: last_attempt_def split: option.splits if_splits)
    next
      case Broken
      show ?thesis
      proof (cases "\<exists>d c2. reconnect_delay_for_attempt cfg (Suc k) = Some d \<and> \<not> limit \<le> Suc k \<and> enabled cfg \<and>
          (allow_mid_transaction cfg \<or> \<not> in_transaction (session_state c1)) \<and> reconnect l h (sleep d c1) = (Ret (Ok ()), c2)")
        case True
        then obtain d c2 where t: "reconnect_delay_for_attempt cfg (Suc k) = Some d" "\<not> limit \<le> Suc k" "enabled cfg"
          "allow_mid_transaction cfg \<or> \<not> in_transaction (session_state c1)" "reconnect l h (sleep d c1) = (Ret (Ok ()), c2)"
          by blast
        then show ?thesis using run Broken retry_broken [of f, OF fe Broken t(3,4,1,5)] by auto
      next
        case False
        then show ?thesis using run fe Broken assms(2)
          by (auto simp: last_attempt_def split: option.splits if_splits prod.splits outcome.splits sum.splits)
      qed
    qed (use run fe in \<open>auto simp: last_attempt_def\<close>)
  qed (use assms(1) f in \<open>auto simp: conn_retry_loop.simps [of l h cfg limit f k c0] last_attempt_def
      set_in_transaction_def mark_alive_def\<close>)
qed

lemma conn_retry_loop_attempts:
  assumes "conn_retry_loop l h cfg limit f k c0 = (r, c', n)" "retried_from l h cfg f c k c0" "k < limit"
  shows "\<exists>c1. retried_from l h cfg f c (n - 1) c1 \<and> 1 \<le> n \<and> n \<le> limit \<and> last_attempt cfg limit f c1 n r c'"
  using assms
proof (induction "limit - k" arbitrary: k c0 rule: less_induct)
  case less
  from conn_retry_loop_cases [OF less.prems(1,3)] show ?case
  proof (elim disjE exE conjE)
    fix c2 assume s: "retry_step l h cfg f (Suc k) c0 c2" "Suc k < limit"
      "conn_retry_loop l h cfg limit f (Suc k) c2 = (r, c', n)"
    from less.hyps [OF _ s(3) retried_from.intros(2) [OF less.prems(2) s(1)] s(2)] s(2) show ?thesis by simp
  qed (use less.prems in auto)
qed

text \<open>
  C9.  \<open>Connection::with_retry\<close> gives back the outcome of one attempt: it makes at least one and at most
  \<open>max max_attempts 1\<close> attempts (one when reconnection is disabled); each of the earlier ones failed with a
  transient error, or with a broken connection on which no transaction was tracked (unless
  \<open>allow_mid_transaction\<close>) and which \<open>reconnect\<close> replaced; and the value or error returned is that of the
  last attempt, never that of a failed reconnection.  A permanent error comes back at once with the
  connection as the attempt left it; a connection broken inside a tracked transaction, or with
  reconnection disabled, is marked broken and not replaced; a transient error comes back only when the attempts
  are used up; the only panic is an overflow of the delay.
\<close>

theorem conn_with_retry_returns_attempt:
  assumes "conn_with_retry l h f c = (r, c', n)" "cfg = clone_reconnect_config (reconnect_cfg (conn_config c))"
  shows "\<exists>c1. retried_from l h cfg f c (n - 1) c1 \<and> 1 \<le> n \<and> n \<le> attempt_limit cfg \<and>
     last_attempt cfg (attempt_limit cfg) f c1 n r c'"
proof (rule conn_retry_loop_attempts)
  show "conn_retry_loop l h cfg (attempt_limit cfg) f 0 c = (r, c', n)"
    using assms by (simp add: conn_with_retry_def Let_def)
qed (auto simp: attempt_limit_def intro: retried_from.intros)

text \<open>An operation that finds the first connection broken and works on any later one.\<close>

definition broken_once :: "string cm" where
  "broken_once c = (if reconnect_count (health c) = 0 then (Ret (Err PgConnectionClosed), c) else (Ret (Ok ''done''), c))"

theorem conn_with_retry_returns_attempt_witness:
  "\<exists>c1 c'. conn_with_retry \<lparr> scram_new = \<lambda>_ _. (), scram_message = \<lambda>_. [], scram_update = \<lambda>s _. Ok s, scram_finish = \<lambda>_ _. Ok () \<rparr>
       (\<lambda>_ _ _. ''md5'') broken_once
       ((sample_connection [])\<lparr>dials := [trusting_dial []], conn_config := config_new\<lparr>reconnect_cfg := reconnect_config_enabled\<rparr>\<rparr>)
     = (Ret (Ok ''done''), c', 2) \<and> alive (health c') \<and> fst (broken_once c1) = Ret (Ok ''done'')"
proof -
  let ?l = "\<lparr> scram_new = \<lambda>_ _. (), scram_message = \<lambda>_. [], scram_update = \<lambda>s _. Ok s, scram_finish = \<lambda>_ _. Ok () \<rparr>"
  let ?h = "\<lambda>_ _ _. ''md5''"
  let ?cfg = "config_new\<lparr>reconnect_cfg := reconnect_config_enabled\<rparr>"
  let ?c = "(sample_connection [])\<lparr>dials := [trusting_dial []], conn_config := ?cfg\<rparr>"
  let ?rc = "clone_reconnect_config (reconnect_cfg (conn_config ?c))"
  obtain d where d: "reconnect_delay_for_attempt ?rc (Suc 0) = Some d"
    by (simp add: reconnect_delay_for_attempt_def clone_reconnect_config_def reconnect_config_enabled_def
        default_reconnect_config_def duration_mul_def saturating_pow_def u32_max_def millis_def secs_def duration_max_def)
  have "\<exists>c2. reconnect ?l ?h (sleep d ?c) = (Ret (Ok ()), c2) \<and> reconnect_count (health c2) = 1"
    by (simp add: reconnect_def shutdown_c_def sleep_def connect_def trusting_dial_def chan_write_def authenticate.simps
        recv_def read_startup_params_def init_connection_def init_replacement_def rebuild_reconnect_init_sql_def
        rebuild_session_def rebuild_listens_def rebuild_gucs_def session_new_def retc_def adopt_def
        reset_after_reconnect_def mark_broken_def health_new_def)
  then obtain c2 where c2: "reconnect ?l ?h (sleep d ?c) = (Ret (Ok ()), c2)" "reconnect_count (health c2) = 1" by blast
  have run: "\<exists>c'. conn_with_retry ?l ?h broken_once ?c = (Ret (Ok ''done''), c', 2)"
    using d c2 by (simp add: conn_with_retry_def attempt_limit_def conn_retry_loop.simps [of _ _ _ _ _ 0]
        conn_retry_loop.simps [of _ _ _ _ _ "Suc 0"] broken_once_def health_new_def session_new_def
        clone_reconnect_config_def reconnect_config_enabled_def default_reconnect_config_def)
  then show ?thesis using conn_with_retry_returns_attempt [of ?l ?h broken_once ?c _ _ 2 ?rc]
    by (fastforce simp: last_attempt_def)
qed

end
