(* ===== verification/Establish.thy ===== *)
theory Establish
  imports Client_Transport Tls_Verify Pool Resilience
begin

text \<open>
  Establishing a connection from a configuration (\<open>connection.rs\<close>): building the transport on each
  target, negotiating TLS on it, the startup exchange, \<open>connect_with_retry\<close>, \<open>connect_str\<close>,
  \<open>create_connection_with_retry\<close> of the pool, and the connection of a cancel request (\<open>cancel.rs\<close>).  Here the sockets of \<open>Client_Transport\<close>, the TLS driver of
  \<open>Tls_Stream\<close> and \<open>Tls_Verify\<close>, the authentication of \<open>Auth\<close> and the configuration of \<open>Config\<close> meet.
\<close>

subsection \<open>Building the transport\<close>

text \<open>
  What the operating system answers: resolving and dialling on WASI, dialling and setting options
  elsewhere, and whether the timer of a connect timeout fires first.
\<close>

record 'addr platform =
  wasi_parse_ip :: "string \<Rightarrow> ip_address option"
  wasi_lookup :: "string \<Rightarrow> (error_code, ip_address list) res"
  wasi_dial :: "ip_address_family \<Rightarrow> ip_socket_address \<Rightarrow> (error_code, wasi_transport) res"
  timer_first :: bool
  os_dial :: "string \<Rightarrow> (string, socket) res"
  os_parse_addr :: "string \<Rightarrow> (string, 'addr) res"
  os_dial_timeout :: "'addr \<Rightarrow> nat \<Rightarrow> (string, socket) res"
  os_set_nodelay :: "(string, unit) res"
  os_set_nonblocking :: "(string, unit) res"
  os_flush :: "(string, unit) res"

text \<open>The targets the crate is compiled for.\<close>

datatype build_target = Wasm32 | TokioTransport | TestNative | NoTransport

definition wasi_connect_with_timeout ::
  "'addr platform \<Rightarrow> string \<Rightarrow> nat \<Rightarrow> nat option \<Rightarrow> (transport_error, wasi_transport) res"
where
  "wasi_connect_with_timeout os h p timeout =
     (case timeout of
        Some d \<Rightarrow> if timer_first os then Err TeTimeout
                  else wasi_connect (wasi_parse_ip os) (wasi_lookup os) (wasi_dial os) h p
      | None \<Rightarrow> wasi_connect (wasi_parse_ip os) (wasi_lookup os) (wasi_dial os) h p)"

definition squoted :: "string \<Rightarrow> string" where "squoted s = [CHR 0x27] @ s @ [CHR 0x27]"

text \<open>Dialling on each target, with the complaint of a build without any transport.\<close>

definition open_transport ::
  "build_target \<Rightarrow> 'addr platform \<Rightarrow> string \<Rightarrow> string \<Rightarrow> nat \<Rightarrow> nat option \<Rightarrow> (pg_error, client_transport) res"
where
  "open_transport target os purpose h p timeout =
     (case target of
        Wasm32 \<Rightarrow> bind_res (map_err PgTransport (wasi_connect_with_timeout os h p timeout)) (\<lambda>tcp. Ok (Wasi tcp))
      | TokioTransport \<Rightarrow> bind_res (map_err PgTransport
          (tokio_connect_with_timeout (timer_first os) (os_dial os) (os_set_nodelay os) h p timeout)) (\<lambda>tcp. Ok (Tokio tcp))
      | TestNative \<Rightarrow> bind_res (map_err PgTransport
          (native_connect_with_timeout (os_parse_addr os) (os_dial_timeout os) (os_dial os) (os_set_nonblocking os)
             h p timeout)) (\<lambda>tcp. Ok (Native tcp))
      | NoTransport \<Rightarrow> Err (PgUnsupported (''no transport available for '' @ purpose @ ''. Enable the '' @
          squoted ''tokio-transport'' @ '' feature (recommended) or '' @ squoted ''test-native'' @
          '' feature, or compile for wasm32-wasip2'')))"

definition build_pg_transport ::
  "build_target \<Rightarrow> 'addr platform \<Rightarrow> (transport_error, unit) res \<Rightarrow>
   (client_transport \<Rightarrow> tls_verification_policy \<Rightarrow> string \<Rightarrow> (transport_error, 's) res) \<Rightarrow> (bytes \<Rightarrow> string) \<Rightarrow>
   config \<Rightarrow> (pg_error, (client_transport, 's) pg_transport) res"
where
  "build_pg_transport target os clock handshake lossy cfg =
     bind_res (open_transport target os ''this target'' (host cfg) (port cfg) (connect_timeout cfg)) (\<lambda>tcp.
       apply_tls clock client_read_exact client_write_all (client_flush (os_flush os)) handshake lossy tcp cfg)"

text \<open>\<open>PgTransport::is_secure\<close> and \<open>tls_server_end_point\<close>.\<close>

definition pg_is_secure :: "('t, ('t, 'r) tls_transport) pg_transport \<Rightarrow> bool" where
  "pg_is_secure t = is_tls t"

definition pg_end_point :: "('t, ('t, 'r) tls_transport) pg_transport \<Rightarrow> bytes option" where
  "pg_end_point t = (case t of Plain _ \<Rightarrow> None | Tls s \<Rightarrow> end_point s)"

text \<open>
  The message channel over a transport: \<open>answers\<close> are the messages the server will send on it, \<open>faults\<close>
  the outcomes of writing.
\<close>

definition channel_over ::
  "(auth_error, backend_message) res list \<Rightarrow> auth_error option list \<Rightarrow>
   ('t, ('t, 'r) tls_transport) pg_transport \<Rightarrow> channel"
where
  "channel_over answers faults t =
     \<lparr> inbox = answers, outbox = [], write_faults = faults, secure = pg_is_secure t,
       tls_server_end_point = pg_end_point t, shut_down = False \<rparr>"

text \<open>\<open>Connection::connect\<close> with the transport it builds.\<close>

definition connect_over ::
  "'sc scram_lib \<Rightarrow> (bytes \<Rightarrow> bytes \<Rightarrow> bytes \<Rightarrow> string) \<Rightarrow> nat \<Rightarrow> (pg_error, channel) res list \<Rightarrow>
   (auth_error, backend_message) res list \<Rightarrow> auth_error option list \<Rightarrow>
   (pg_error, (client_transport, (client_transport, 'r) tls_transport) pg_transport) res \<Rightarrow> config \<Rightarrow>
   (pg_error, connection) outcome"
where
  "connect_over l md5_hash t ds answers faults built cfg =
     connect l md5_hash t ds (bind_res built (\<lambda>tr. Ok (channel_over answers faults tr))) cfg"

subsection \<open>Retrying\<close>

text \<open>
  One attempt of \<open>connect_with_retry\<close> on the transports still to be built, each with the time it is
  there.  An attempt that never returns ends the loop.
\<close>

definition connect_attempt ::
  "'sc scram_lib \<Rightarrow> (bytes \<Rightarrow> bytes \<Rightarrow> bytes \<Rightarrow> string) \<Rightarrow> config \<Rightarrow> (nat \<times> (pg_error, channel) res) list \<Rightarrow>
   (pg_error, (pg_error, connection) outcome) res \<times> (nat \<times> (pg_error, channel) res) list"
where
  "connect_attempt l md5_hash cfg ds =
     (case ds of
        [] \<Rightarrow> (Ok Pending, [])
      | (t, d) # ds' \<Rightarrow>
          (case connect l md5_hash t (map snd ds') d cfg of
             Pending \<Rightarrow> (Ok Pending, ds')
           | Ret (Inl e) \<Rightarrow> (Err e, ds')
           | Ret (Inr c) \<Rightarrow> (Ok (Ret (Ok c)), ds')))"

text \<open>\<open>None\<close> is the panic of the delay computation.\<close>

definition connect_with_retry ::
  "'sc scram_lib \<Rightarrow> (bytes \<Rightarrow> bytes \<Rightarrow> bytes \<Rightarrow> string) \<Rightarrow> config \<Rightarrow> retry_policy \<Rightarrow>
   (nat \<times> (pg_error, channel) res) list \<Rightarrow> (pg_error, connection) outcome option"
where
  "connect_with_retry l md5_hash cfg p ds =
     (case policy_retry p (connect_attempt l md5_hash cfg) 0 ds [] of
        (Inr out, _) \<Rightarrow> Some out
      | (Inl (Some e), _) \<Rightarrow> Some (Ret (Err e))
      | (Inl None, _) \<Rightarrow> None)"

text \<open>\<open>create_connection_with_retry\<close>, and the policy \<open>acquire_resilient\<close> calls it with.\<close>

definition resilient_policy :: retry_policy where
  "resilient_policy = exponential_backoff 3 (millis 100) (secs 5)"

definition create_connection_with_retry ::
  "'sc scram_lib \<Rightarrow> (bytes \<Rightarrow> bytes \<Rightarrow> bytes \<Rightarrow> string) \<Rightarrow> config \<Rightarrow> pool_config \<Rightarrow> retry_policy \<Rightarrow>
   (nat \<times> (pg_error, channel) res) list \<Rightarrow> (pg_error, connection) outcome option"
where
  "create_connection_with_retry l md5_hash cfg pcfg p ds =
     map_option (create_connection pcfg) (connect_with_retry l md5_hash cfg p ds)"

subsection \<open>Connection strings\<close>

fun show_config_error :: "config_error \<Rightarrow> string" where
  "show_config_error (InvalidValue m) = ''invalid value: '' @ m"
| "show_config_error (MissingField m) = ''missing required field: '' @ m"
| "show_config_error (ParseError m) = ''parse error: '' @ m"
| "show_config_error (InvalidTimeout field v) = ''invalid timeout value for '' @ field @ '': '' @ v"

text \<open>\<open>connect_str\<close>; \<open>dial\<close> is the outcome of building the transport for a configuration.\<close>

definition connect_str ::
  "'sc scram_lib \<Rightarrow> (bytes \<Rightarrow> bytes \<Rightarrow> bytes \<Rightarrow> string) \<Rightarrow> nat \<Rightarrow> (pg_error, channel) res list \<Rightarrow>
   (config \<Rightarrow> (pg_error, channel) res) \<Rightarrow> (string \<Rightarrow> (string, url) res) \<Rightarrow> string \<Rightarrow>
   (pg_error, connection) outcome"
where
  "connect_str l md5_hash t ds dial url_parse s =
     (case from_uri url_parse s of
        Inr cfg \<Rightarrow> connect l md5_hash t ds (dial cfg) cfg
      | Inl uri_err \<Rightarrow>
          (case from_key_value s of
             Inr cfg \<Rightarrow> connect l md5_hash t ds (dial cfg) cfg
           | Inl kv_err \<Rightarrow> Ret (Err (PgConfig (''could not parse connection string as URI ('' @
               show_config_error uri_err @ '') or key=value format ('' @ show_config_error kv_err @ '')'')))))"

subsection \<open>Cancel requests\<close>

definition build_tls_config :: "cancel_token \<Rightarrow> tls_options" where
  "build_tls_config tok =
     (tls_config_new (ct_ssl_mode tok) (ct_host tok))\<lparr>tls_accept_invalid_certs := ct_accept_invalid_certs tok\<rparr>"

definition cancel_config :: "cancel_token \<Rightarrow> config" where
  "cancel_config tok =
     (let c = config_new\<lparr>host := ct_host tok, port := ct_port tok, user := ''cancel'', ssl_mode := ct_ssl_mode tok\<rparr> in
      if ct_accept_invalid_certs tok then c\<lparr>accept_invalid_certs := True\<rparr> else c)"

definition build_cancel_transport ::
  "build_target \<Rightarrow> 'addr platform \<Rightarrow> config \<Rightarrow> nat option \<Rightarrow> (pg_error, client_transport) res"
where
  "build_cancel_transport target os cfg timeout =
     open_transport target os ''cancellation'' (host cfg) (port cfg) timeout"

text \<open>The result is the channel the request went over; \<open>faults\<close> are the outcomes of writing.\<close>

definition cancel_with_timeout ::
  "build_target \<Rightarrow> 'addr platform \<Rightarrow> (transport_error, unit) res \<Rightarrow>
   (client_transport \<Rightarrow> tls_verification_policy \<Rightarrow> string \<Rightarrow> (transport_error, (client_transport, 'r) tls_transport) res) \<Rightarrow>
   (bytes \<Rightarrow> string) \<Rightarrow> auth_error option list \<Rightarrow> nat option \<Rightarrow> cancel_token \<Rightarrow> (pg_error, channel) res"
where
  "cancel_with_timeout target os clock handshake lossy faults timeout tok =
     bind_res (build_cancel_transport target os (cancel_config tok) timeout) (\<lambda>raw.
     bind_res
       (if ct_ssl_mode tok \<noteq> Disable then
          map_err PgTransport (negotiate_tls clock client_read_exact client_write_all (client_flush (os_flush os))
            handshake lossy raw (tls_config.truncate (build_tls_config tok)))
        else Ok (Plain raw))
       (\<lambda>tr. cancel tok (Ok (channel_over [] faults tr))))"

subsection \<open>Lemmas\<close>

lemma connect_built:
  assumes "connect l h t ds d cfg = Ret (Ok c)"
  obtains ch ch1 ch2 sp where "d = Ok ch" "chan_write [Startup (startup_params cfg)] ch = (Ok (), ch1)"
    "authenticate l h cfg ch1 = (Ret (Ok sp), ch2)" "c = init_connection t ds cfg sp ch2"
  using assms by (auto simp: connect_def split: sum.splits prod.splits outcome.splits)

lemma connect_over_channel:
  assumes "connect_over l h t ds answers faults built cfg = Ret (Ok c)"
  obtains tr where "built = Ok tr" "secure c = is_tls tr" "tls_server_end_point c = pg_end_point tr"
    "state c = Idle" "conn_config c = cfg" "\<exists>ms. outbox c = Startup (startup_params cfg) # ms"
    "\<not> secure c \<and> \<not> allow_insecure_auth cfg \<longrightarrow> passwords c = []"
proof -
  obtain tr ch1 ch2 sp where tr: "built = Ok tr"
    and w: "chan_write [Startup (startup_params cfg)] (channel_over answers faults tr) = (Ok (), ch1)"
    and a: "authenticate l h cfg ch1 = (Ret (Ok sp), ch2)" and c: "c = init_connection t ds cfg sp ch2"
    using assms unfolding connect_over_def
    by (elim connect_built) (auto simp: bind_res_def split: sum.splits)
  have f: "outbox ch1 = [Startup (startup_params cfg)]" "secure ch1 = is_tls tr" "tls_server_end_point ch1 = pg_end_point tr"
    using chan_send_ok [OF w] chan_write_frame [OF w] by (simp_all add: channel_over_def pg_is_secure_def)
  have "grows ch1 ch2" by (rule authenticate_grows [OF a])
  then have g: "secure ch2 = is_tls tr" "tls_server_end_point ch2 = pg_end_point tr"
    "\<exists>ms. outbox ch2 = Startup (startup_params cfg) # ms"
    using f by (auto simp: grows_def)
  have "passwords c = []" if "\<not> secure c" "\<not> allow_insecure_auth cfg"
    using authenticate_passwords [of ch1 cfg l h] a that f g(1) c
    by (simp add: passwords_def init_connection_def is_password_def)
  then show ?thesis using tr c g by (intro that) (simp_all add: init_connection_def)
qed

text \<open>The outcomes of connecting on each of the transports in turn, and the one a limit of \<open>m\<close> attempts selects.\<close>

fun connect_outcomes ::
  "'sc scram_lib \<Rightarrow> (bytes \<Rightarrow> bytes \<Rightarrow> bytes \<Rightarrow> string) \<Rightarrow> config \<Rightarrow> (nat \<times> (pg_error, channel) res) list \<Rightarrow>
   (pg_error, connection) outcome list"
where
  "connect_outcomes l h cfg [] = []"
| "connect_outcomes l h cfg ((t, d) # ds) = connect l h t (map snd ds) d cfg # connect_outcomes l h cfg ds"

definition refused :: "('e, 'a) outcome \<Rightarrow> bool" where
  "refused r = (case r of Ret (Inl e) \<Rightarrow> True | _ \<Rightarrow> False)"

definition first_within :: "nat \<Rightarrow> ('e, 'a) outcome list \<Rightarrow> ('e, 'a) outcome" where
  "first_within m rs = (case dropWhile refused (take m rs) of [] \<Rightarrow> last (take m rs) | r # _ \<Rightarrow> r)"

lemma length_connect_outcomes [simp]: "length (connect_outcomes l h cfg ds) = length ds"
  by (induction l h cfg ds rule: connect_outcomes.induct) simp_all

lemma first_within_Cons:
  assumes "rs \<noteq> []" "0 < m"
  shows "first_within (Suc m) (r # rs) = (if refused r then first_within m rs else r)"
proof -
  have l: "last (r # take m rs) = last (take m rs)" using assms by simp
  show ?thesis by (simp only: first_within_def take_Suc_Cons dropWhile.simps l split: if_split) simp
qed

lemma first_within_1 [simp]: "first_within (Suc 0) (r # rs) = r"
  by (simp add: first_within_def)

lemma connect_attempt_Cons:
  "connect_attempt l h cfg ((t, d) # ds) =
     (case connect l h t (map snd ds) d cfg of Ret (Inl e) \<Rightarrow> Err e | r \<Rightarrow> Ok r, ds)"
  by (simp add: connect_attempt_def split: outcome.splits sum.splits)

lemma policy_retry_connect:
  assumes "n < max 1 (rp_max_attempts p)" "max 1 (rp_max_attempts p) - n \<le> length ds"
    and "\<And>a. policy_delay_for_attempt p a \<noteq> None"
  shows "(case policy_retry p (connect_attempt l h cfg) n ds slept of
      (Inr out, _) \<Rightarrow> Some out | (Inl (Some e), _) \<Rightarrow> Some (Ret (Err e)) | (Inl None, _) \<Rightarrow> None) =
     Some (first_within (max 1 (rp_max_attempts p) - n) (connect_outcomes l h cfg ds))"
  using assms(1,2)
proof (induction ds arbitrary: n slept)
  case (Cons td ds)
  let ?M = "max 1 (rp_max_attempts p)"
  obtain t d where td: "td = (t, d)" by fastforce
  let ?r = "connect l h t (map snd ds) d cfg"
  have suc: "?M - n = Suc (?M - Suc n)" using Cons.prems(1) by simp
  show ?case
  proof (cases "refused ?r")
    case False
    have "first_within (?M - n) (connect_outcomes l h cfg (td # ds)) = ?r"
      using False td suc by (simp add: first_within_def)
    then show ?thesis using False td
      by (subst policy_retry.simps)
        (auto simp: connect_attempt_Cons refused_def split: outcome.splits sum.splits)
  next
    case True
    then obtain e where e: "?r = Ret (Inl e)" by (auto simp: refused_def split: outcome.splits sum.splits)
    show ?thesis
    proof (cases "rp_max_attempts p \<le> n + 1")
      case True
      then have "?M - n = Suc 0" using Cons.prems(1) by simp
      then show ?thesis using True td e by (subst policy_retry.simps) (simp add: connect_attempt_Cons)
    next
      case False
      then have n: "Suc n < ?M" by simp
      obtain dl where dl: "policy_delay_for_attempt p (Suc n) = Some dl" using assms(3) by blast
      have ne: "connect_outcomes l h cfg ds \<noteq> []"
        using n Cons.prems(2) by (cases ds) auto
      have "policy_retry p (connect_attempt l h cfg) n (td # ds) slept = policy_retry p (connect_attempt l h cfg) (Suc n) ds (slept @ [dl])"
        using False td e dl by (subst policy_retry.simps) (simp add: connect_attempt_Cons)
      moreover have "first_within (?M - n) (connect_outcomes l h cfg (td # ds)) =
          first_within (?M - Suc n) (connect_outcomes l h cfg ds)"
        using first_within_Cons [OF ne, of "?M - Suc n" ?r] n \<open>refused ?r\<close> td suc by simp
      ultimately show ?thesis using Cons.IH [OF n, of "slept @ [dl]"] Cons.prems(2) by simp
    qed
  qed
qed auto

text \<open>What a transport with negotiated TLS guarantees, for connections and cancel requests alike.\<close>

lemma built_trust:
  assumes "webpki_sound X" "authenticates X L new_session P shown"
    and "apply_tls clock client_read_exact client_write_all fl
      (run_handshake X L new_session parse_x509 digest client_read client_write_all fl) lossy tcp cfg = Ok tr"
  shows "(ssl_mode cfg \<in> {Require, VerifyCa, VerifyFull} \<longrightarrow> is_tls tr) \<and>
     (ssl_mode cfg \<in> {VerifyCa, VerifyFull} \<and> \<not> accept_invalid_certs cfg \<longrightarrow>
       (\<exists>(tls :: (client_transport, _) tls_transport) cert ints time pc. shown (tls_conn tls) = (cert, ints, time) \<and> parse_cert X cert = Ok pc \<and>
          signed_by_anchor X pc (built_in_roots X) ints time = Ok () \<and>
          (ssl_mode cfg = VerifyFull \<longrightarrow> name_matches X pc (host cfg) = Ok ()) \<and>
          pg_end_point tr = end_point tls))"
proof (intro conjI impI)
  show "is_tls tr" if "ssl_mode cfg \<in> {Require, VerifyCa, VerifyFull}"
    using apply_tls_secure [OF that assms(3)] by (auto simp: is_tls_def)
  assume v: "ssl_mode cfg \<in> {VerifyCa, VerifyFull} \<and> \<not> accept_invalid_certs cfg"
  obtain tls cert ints time pc where t: "tr = Tls tls" "shown (tls_conn tls) = (cert, ints, time)" "parse_cert X cert = Ok pc"
    "signed_by_anchor X pc (built_in_roots X) ints time = Ok ()" "ssl_mode cfg = VerifyFull \<longrightarrow> name_matches X pc (host cfg) = Ok ()"
    using verified_server [OF conjunct1 [OF v] conjunct2 [OF v] assms] by blast
  have "pg_end_point tr = end_point tls" using t(1) by (simp add: pg_end_point_def)
  with t(2-5) show "\<exists>(tls :: (client_transport, _) tls_transport) cert ints time pc. shown (tls_conn tls) = (cert, ints, time) \<and> parse_cert X cert = Ok pc \<and>
      signed_by_anchor X pc (built_in_roots X) ints time = Ok () \<and>
      (ssl_mode cfg = VerifyFull \<longrightarrow> name_matches X pc (host cfg) = Ok ()) \<and> pg_end_point tr = end_point tls" by blast
qed

text \<open>A cancel request negotiates TLS as a connection with the configuration of the token does.\<close>

lemma cancel_negotiation:
  "(if ct_ssl_mode tok \<noteq> Disable then
      map_err PgTransport (negotiate_tls clock rx wa fl handshake lossy raw (tls_config.truncate (build_tls_config tok)))
    else Ok (Plain raw)) = apply_tls clock rx wa fl handshake lossy raw (cancel_config tok)"
  by (simp add: apply_tls_def cancel_config_def build_tls_config_def tls_config_new_def default_tls_options_def
      tls_config.truncate_def config_new_def Let_def)

lemma cancel_over:
  assumes "cancel_with_timeout target os clock handshake lossy faults timeout tok = Ok ch"
  obtains raw tr where
    "build_cancel_transport target os (cancel_config tok) timeout = Ok raw"
    "apply_tls clock client_read_exact client_write_all (client_flush (os_flush os)) handshake lossy raw (cancel_config tok) = Ok tr"
    "outbox ch = [CancelRequest (ct_process_id tok) (ct_secret_key tok)]" "secure ch = is_tls tr"
    "tls_server_end_point ch = pg_end_point tr" "shut_down ch"
proof -
  obtain raw tr where
    d: "build_cancel_transport target os (cancel_config tok) timeout = Ok raw"
    and ap: "apply_tls clock client_read_exact client_write_all (client_flush (os_flush os)) handshake lossy raw (cancel_config tok) = Ok tr"
    and k: "cancel tok (Ok (channel_over [] faults tr)) = Ok ch"
    using assms unfolding cancel_with_timeout_def cancel_negotiation by (auto simp: bind_res_def split: sum.splits)
  obtain ch1 where w: "chan_write [CancelRequest (ct_process_id tok) (ct_secret_key tok)] (channel_over [] faults tr) = (Ok (), ch1)"
    "ch = ch1\<lparr>shut_down := True\<rparr>"
    using k by (auto simp: cancel_def split: prod.splits sum.splits)
  show ?thesis using chan_send_ok [OF w(1)] chan_write_frame(2,3) [OF w(1)] w(2)
    by (intro that [OF d ap]) (simp_all add: channel_over_def pg_is_secure_def)
qed

lemma cancel_config_of [simp]:
  "ssl_mode (cancel_config (cancel_token_of c)) = ssl_mode (conn_config c)"
  "accept_invalid_certs (cancel_config (cancel_token_of c)) = accept_invalid_certs (conn_config c)"
  "host (cancel_config (cancel_token_of c)) = host (conn_config c)"
  "port (cancel_config (cancel_token_of c)) = port (conn_config c)"
  by (simp_all add: cancel_config_def cancel_token_of_def config_new_def Let_def)

subsection \<open>Properties\<close>

text \<open>
  C21.  What a connection that \<open>Connection::connect\<close> returns may be trusted with, from the socket to the
  message level and on every target: it is idle and begins with the startup message of its
  configuration; with \<open>sslmode\<close> \<open>require\<close>, \<open>verify-ca\<close> or \<open>verify-full\<close> it runs over TLS, whatever the server
  answered to the SSL request; in the two verifying modes, unless \<open>accept_invalid_certs\<close> is set, the
  server showed in the handshake a certificate signed by one of the built-in roots, which with
  \<open>verify-full\<close> bears the configured host name, and the channel-binding data is that of this session;
  and on a connection without TLS no password was sent unless the configuration allows it.
\<close>

theorem connect_trust:
  assumes "webpki_sound X" "authenticates X L new_session P shown"
    and "connect_over l h t ds answers faults
      (build_pg_transport target os clock
        (run_handshake X L new_session parse_x509 digest client_read client_write_all (client_flush (os_flush os)))
        lossy cfg) cfg = Ret (Ok c)"
  shows "state c = Idle \<and> conn_config c = cfg \<and> (\<exists>ms. outbox c = Startup (startup_params cfg) # ms) \<and>
     (ssl_mode cfg \<in> {Require, VerifyCa, VerifyFull} \<longrightarrow> secure c) \<and>
     (\<not> secure c \<and> \<not> allow_insecure_auth cfg \<longrightarrow> passwords c = []) \<and>
     (ssl_mode cfg \<in> {VerifyCa, VerifyFull} \<and> \<not> accept_invalid_certs cfg \<longrightarrow>
       (\<exists>(tls :: (client_transport, _) tls_transport) cert ints time pc. shown (tls_conn tls) = (cert, ints, time) \<and> parse_cert X cert = Ok pc \<and>
          signed_by_anchor X pc (built_in_roots X) ints time = Ok () \<and>
          (ssl_mode cfg = VerifyFull \<longrightarrow> name_matches X pc (host cfg) = Ok ()) \<and>
          tls_server_end_point c = end_point tls))"
proof -
  let ?h = "run_handshake X L new_session parse_x509 digest client_read client_write_all (client_flush (os_flush os))"
  obtain tr where tr: "build_pg_transport target os clock ?h lossy cfg = Ok tr"
    and c: "secure c = is_tls tr" "tls_server_end_point c = pg_end_point tr"
      "state c = Idle" "conn_config c = cfg" "\<exists>ms. outbox c = Startup (startup_params cfg) # ms"
      "\<not> secure c \<and> \<not> allow_insecure_auth cfg \<longrightarrow> passwords c = []"
    using assms(3) by (rule connect_over_channel)
  obtain tcp where ap: "apply_tls clock client_read_exact client_write_all (client_flush (os_flush os)) ?h lossy tcp cfg = Ok tr"
    using tr by (auto simp: build_pg_transport_def bind_res_def split: sum.splits)
  from built_trust [OF assms(1,2) ap] c show ?thesis by simp
qed

text \<open>A tokio socket whose peer accepts TLS and answers the handshake with one byte.\<close>

definition sample_os :: "unit platform" where
  "sample_os =
     \<lparr> wasi_parse_ip = \<lambda>_. None, wasi_lookup = \<lambda>_. Ok [], wasi_dial = \<lambda>_ _. Err EcConnectionRefused, timer_first = False,
       os_dial = \<lambda>_. Ok \<lparr> incoming = [83, 22], read_plan = [], outgoing = [], write_plan = [], nodelay = False,
         nonblocking = True, shut = False \<rparr>,
       os_parse_addr = \<lambda>_. Ok (), os_dial_timeout = \<lambda>_ _. Err [], os_set_nodelay = Ok (),
       os_set_nonblocking = Ok (), os_flush = Ok () \<rparr>"

definition sample_scram :: "unit scram_lib" where
  "sample_scram = \<lparr> scram_new = \<lambda>_ _. (), scram_message = \<lambda>_. [], scram_update = \<lambda>s _. Ok s, scram_finish = \<lambda>_ _. Ok () \<rparr>"

lemma char_S: "char_of (83::nat) = CHR ''S''"
  by code_simp

lemmas sample_eval = open_transport_def tokio_connect_with_timeout_def tokio_connect_def sample_os_def char_S
  apply_tls_def negotiate_tls_def Let_def verification_policy_def map_err_def config_new_def run_handshake_def
  build_with_policy_def bind_res_def policy_verifier_def build_root_store_def client_auth_def tls_handshake_def
  sample_new_session_def verify_server_cert_def handshake_loop.simps MAX_HANDSHAKE_ITERATIONS_def send_flight_def
  receive_flight_def TLS_BUFFER_def sample_session_def sample_pki_def client_read_def client_write_all_def
  client_flush_def client_read_exact_def tokio_read_def tokio_write_all_def tokio_flush_def tokio_read_exact_def
  sock_read_def sock_write_def sock_pend_def sock_write_all.simps sock_read_exact.simps

lemma sample_built:
  "\<exists>tr. build_pg_transport TokioTransport sample_os (Ok ())
      (run_handshake sample_pki sample_session sample_new_session (\<lambda>_. Err []) (\<lambda>_ bs. bs) client_read client_write_all
        (client_flush (os_flush sample_os))) string_of (config_new\<lparr>host := ''db''\<rparr>) = Ok tr"
  by (simp add: sample_eval build_pg_transport_def)

theorem connect_trust_witness:
  "\<exists>c. connect_over sample_scram (\<lambda>_ _ _. ''md5'') 0 [] [Ok AuthenticationOk, Ok (ReadyForQuery CHR ''I'')] []
      (build_pg_transport TokioTransport sample_os (Ok ())
        (run_handshake sample_pki sample_session sample_new_session (\<lambda>_. Err []) (\<lambda>_ bs. bs) client_read client_write_all
          (client_flush (os_flush sample_os))) string_of (config_new\<lparr>host := ''db''\<rparr>)) (config_new\<lparr>host := ''db''\<rparr>) = Ret (Ok c) \<and>
     secure c \<and> name_matches sample_pki [7] ''db'' = Ok ()"
proof -
  let ?b = "build_pg_transport TokioTransport sample_os (Ok ())
        (run_handshake sample_pki sample_session sample_new_session (\<lambda>_. Err []) (\<lambda>_ bs. bs) client_read client_write_all
          (client_flush (os_flush sample_os))) string_of (config_new\<lparr>host := ''db''\<rparr>)"
  obtain tr where "?b = Ok tr" using sample_built by blast
  then obtain c where c: "connect_over sample_scram (\<lambda>_ _ _. ''md5'') 0 [] [Ok AuthenticationOk, Ok (ReadyForQuery CHR ''I'')] []
      ?b (config_new\<lparr>host := ''db''\<rparr>) = Ret (Ok c)"
    by (simp add: connect_over_def bind_res_def channel_over_def connect_def chan_write_def authenticate.simps recv_def
        read_startup_params_def)
  have "ssl_mode (config_new\<lparr>host := ''db''\<rparr>) = VerifyFull" "\<not> accept_invalid_certs (config_new\<lparr>host := ''db''\<rparr>)"
    "host (config_new\<lparr>host := ''db''\<rparr>) = ''db''" by (simp_all add: config_new_def)
  then show ?thesis using c connect_trust [OF sample_webpki_sound sample_authenticates c]
    by (auto simp: sample_pki_def)
qed

text \<open>
  C22.  A cancel request does not widen trust: a request sent with the token of a connection carries the
  backend key of that connection as its only message; it goes over a transport dialled to the host and
  port of that connection, on which TLS was negotiated exactly as for a connection with its configuration.
  So it goes over TLS whenever the \<open>sslmode\<close> of the connection requires it, and in the verifying modes to a
  server that showed a certificate signed by a built-in root, bearing with \<open>verify-full\<close> the host name of the
  connection: the secret key is never handed to a server the connection itself would not have been opened to.
\<close>

theorem cancel_same_trust:
  assumes "webpki_sound X" "authenticates X L new_session P shown"
    and "cancel_with_timeout target os clock
      (run_handshake X L new_session parse_x509 digest client_read client_write_all (client_flush (os_flush os)))
      lossy faults timeout (cancel_token_of c) = Ok ch"
  shows "outbox ch = [CancelRequest (process_id (server_params_of c)) (secret_key (server_params_of c))] \<and> shut_down ch \<and>
     (\<exists>raw tr. open_transport target os ''cancellation'' (host (conn_config c)) (port (conn_config c)) timeout = Ok raw \<and>
        apply_tls clock client_read_exact client_write_all (client_flush (os_flush os))
          (run_handshake X L new_session parse_x509 digest client_read client_write_all (client_flush (os_flush os)))
          lossy raw (conn_config c) = Ok tr \<and>
        secure ch = is_tls tr \<and> tls_server_end_point ch = pg_end_point tr) \<and>
     (ssl_mode (conn_config c) \<in> {Require, VerifyCa, VerifyFull} \<longrightarrow> secure ch) \<and>
     (ssl_mode (conn_config c) \<in> {VerifyCa, VerifyFull} \<and> \<not> accept_invalid_certs (conn_config c) \<longrightarrow>
       (\<exists>(tls :: (client_transport, _) tls_transport) cert ints time pc. shown (tls_conn tls) = (cert, ints, time) \<and> parse_cert X cert = Ok pc \<and>
          signed_by_anchor X pc (built_in_roots X) ints time = Ok () \<and>
          (ssl_mode (conn_config c) = VerifyFull \<longrightarrow> name_matches X pc (host (conn_config c)) = Ok ()) \<and>
          tls_server_end_point ch = end_point tls))"
proof -
  let ?h = "run_handshake X L new_session parse_x509 digest client_read client_write_all (client_flush (os_flush os))"
  obtain raw tr where
    d: "build_cancel_transport target os (cancel_config (cancel_token_of c)) timeout = Ok raw" and
    ap: "apply_tls clock client_read_exact client_write_all (client_flush (os_flush os)) ?h lossy raw (cancel_config (cancel_token_of c)) = Ok tr"
    and ch: "outbox ch = [CancelRequest (process_id (server_params_of c)) (secret_key (server_params_of c))]"
      "secure ch = is_tls tr" "tls_server_end_point ch = pg_end_point tr" "shut_down ch"
    using assms(3) by (rule cancel_over) (simp add: cancel_token_of_def)
  have "apply_tls clock client_read_exact client_write_all (client_flush (os_flush os)) ?h lossy raw (conn_config c) = Ok tr"
    using ap unfolding apply_tls_def cancel_config_of .
  moreover have "open_transport target os ''cancellation'' (host (conn_config c)) (port (conn_config c)) timeout = Ok raw"
    using d by (simp add: build_cancel_transport_def)
  ultimately show ?thesis using built_trust [OF assms(1,2) ap] ch by simp
qed

theorem cancel_same_trust_witness:
  "\<exists>ch. cancel_with_timeout TokioTransport sample_os (Ok ())
      (run_handshake sample_pki sample_session sample_new_session (\<lambda>_. Err []) (\<lambda>_ bs. bs) client_read client_write_all
        (client_flush (os_flush sample_os))) string_of [] None
      (cancel_token_of ((sample_connection [])\<lparr>conn_config := config_new\<lparr>host := ''db''\<rparr>\<rparr>)) = Ok ch \<and>
     secure ch \<and> name_matches sample_pki [7] ''db'' = Ok ()"
proof -
  let ?c = "(sample_connection [])\<lparr>conn_config := config_new\<lparr>host := ''db''\<rparr>\<rparr>"
  let ?h = "run_handshake sample_pki sample_session sample_new_session (\<lambda>_. Err []) (\<lambda>_ bs. bs) client_read client_write_all
        (client_flush (os_flush sample_os))"
  have "\<exists>ch. cancel_with_timeout TokioTransport sample_os (Ok ()) ?h string_of [] None (cancel_token_of ?c) = Ok ch"
    by (simp add: sample_eval cancel_with_timeout_def build_cancel_transport_def cancel_config_def cancel_token_of_def
        build_tls_config_def tls_config_new_def default_tls_options_def tls_config.truncate_def cancel_def
        channel_over_def chan_write_def)
  then obtain ch where ch: "cancel_with_timeout TokioTransport sample_os (Ok ()) ?h string_of [] None (cancel_token_of ?c) = Ok ch"
    by blast
  have "ssl_mode (conn_config ?c) = VerifyFull" "\<not> accept_invalid_certs (conn_config ?c)" "host (conn_config ?c) = ''db''"
    by (simp_all add: config_new_def)
  then show ?thesis using ch cancel_same_trust [OF sample_webpki_sound sample_authenticates ch]
    by (auto simp: sample_pki_def)
qed

text \<open>
  C23.  \<open>connect_with_retry\<close> returns the first attempt that does not fail, among as many as its policy
  allows (at least one), and the error of the last of them when all fail; the computation of the
  delays cannot panic unless the initial delay is astronomically long, and never does under the
  policy of \<open>Pool::acquire_resilient\<close>, whose \<open>create_connection_with_retry\<close> hands exactly that outcome to
  the \<open>after_connect\<close> hook.
\<close>

theorem connect_with_retry_first:
  assumes "rp_initial_delay p * u32_max \<le> duration_max" "max 1 (rp_max_attempts p) \<le> length ds"
  shows "connect_with_retry l h cfg p ds = Some (first_within (max 1 (rp_max_attempts p)) (connect_outcomes l h cfg ds)) \<and>
     rp_initial_delay resilient_policy * u32_max \<le> duration_max \<and>
     (3 \<le> length ds' \<longrightarrow> create_connection_with_retry l h cfg pcfg resilient_policy ds' =
        Some (create_connection pcfg (first_within 3 (connect_outcomes l h cfg ds'))))"
proof -
  have retry: "connect_with_retry l h cfg q es = Some (first_within (max 1 (rp_max_attempts q)) (connect_outcomes l h cfg es))"
    if q: "rp_initial_delay q * u32_max \<le> duration_max" "max 1 (rp_max_attempts q) \<le> length es" for q es
  proof -
    have "0 < max 1 (rp_max_attempts q)" "max 1 (rp_max_attempts q) - 0 \<le> length es" using q(2) by simp_all
    from policy_retry_connect [OF this policy_delay_no_panic [OF q(1)], of l h cfg "[]"] show ?thesis
      unfolding connect_with_retry_def by simp
  qed
  have r: "rp_initial_delay resilient_policy * u32_max \<le> duration_max" "rp_max_attempts resilient_policy = 3"
    by (simp_all add: resilient_policy_def exponential_backoff_def millis_def duration_max_def u32_max_def u64_max_def)
  show ?thesis using retry [OF assms] r retry [OF r(1), of ds']
    by (simp add: create_connection_with_retry_def)
qed

text \<open>The server refuses the first connection and accepts the second.\<close>

definition sample_dials :: "(nat \<times> (pg_error, channel) res) list" where
  "sample_dials =
     [(0, Err (PgTransport TeTimeout)), (5, Ok \<lparr> inbox = [Ok AuthenticationOk, Ok (ReadyForQuery CHR ''I'')], outbox = [],
        write_faults = [], secure = True, tls_server_end_point = None, shut_down = False \<rparr>), (9, Err (PgTransport TeTimeout))]"

theorem connect_with_retry_first_witness:
  "\<exists>c. connect_with_retry sample_scram (\<lambda>_ _ _. ''md5'') config_new default_retry_policy sample_dials = Some (Ret (Ok c)) \<and>
     outbox c = [Startup (startup_params config_new)]"
proof -
  let ?h = "\<lambda>(_::bytes) (_::bytes) (_::bytes). ''md5''"
  have p: "rp_initial_delay default_retry_policy * u32_max \<le> duration_max" "max 1 (rp_max_attempts default_retry_policy) = 3"
    by (simp_all add: default_retry_policy_def millis_def duration_max_def u32_max_def u64_max_def)
  have n: "3 \<le> length sample_dials" by (simp add: sample_dials_def)
  have "\<exists>c. first_within 3 (connect_outcomes sample_scram ?h config_new sample_dials) = Ret (Ok c) \<and>
      outbox c = [Startup (startup_params config_new)]"
    by (simp add: sample_dials_def first_within_def refused_def connect_def chan_write_def authenticate.simps recv_def
        read_startup_params_def init_connection_def)
  moreover have "connect_with_retry sample_scram ?h config_new default_retry_policy sample_dials =
      Some (first_within 3 (connect_outcomes sample_scram ?h config_new sample_dials))"
    using connect_with_retry_first [OF p(1), of sample_dials sample_scram ?h config_new, unfolded p(2)] n by simp
  ultimately show ?thesis by auto
qed

end
