(* ===== verification/Wire.thy ===== *)
theory Wire
  imports Establish
begin

text \<open>
  From bytes to messages and back.  The theories of the protocol work on channels, whose inbox holds the
  messages to come; this theory runs the codec of \<open>auth/mod.rs\<close> on a transport and shows that the
  inbox is what the bytes of the transport give: through \<open>BufferedTransport\<close>, in the clear or through
  TLS, on every platform.  \<open>PgTransport\<close> (\<open>transport/tls.rs\<close>) dispatches between the two.
\<close>

subsection \<open>PgTransport\<close>

text \<open>
  \<open>rp\<close>, \<open>wp\<close> and so on are the operations of the transport itself, \<open>rs\<close>, \<open>ws\<close> those of the TLS
  transport over it; both are behind a \<open>BufferedTransport\<close>.
\<close>

type_synonym ('p, 's) pg_stream = "('p buffered, 's buffered) pg_transport"

definition on_pg ::
  "('p buffered \<Rightarrow> 'a \<times> 'p buffered) \<Rightarrow> ('s buffered \<Rightarrow> 'a \<times> 's buffered) \<Rightarrow> ('p, 's) pg_stream \<Rightarrow> 'a \<times> ('p, 's) pg_stream"
where
  "on_pg f g t = (case t of
      Plain b \<Rightarrow> (case f b of (r, b1) \<Rightarrow> (r, Plain b1))
    | Tls b \<Rightarrow> (case g b of (r, b1) \<Rightarrow> (r, Tls b1)))"

definition pg_read :: "'p reader \<Rightarrow> 's reader \<Rightarrow> ('p, 's) pg_stream reader" where
  "pg_read rp rs t k = on_pg (\<lambda>b. bt_read rp b k) (\<lambda>b. bt_read rs b k) t"

definition pg_read_exact :: "'p reader \<Rightarrow> 's reader \<Rightarrow> ('p, 's) pg_stream reader" where
  "pg_read_exact rp rs t k = on_pg (\<lambda>b. bt_read_exact rp b k) (\<lambda>b. bt_read_exact rs b k) t"

definition pg_write ::
  "'p writer \<Rightarrow> 's writer \<Rightarrow> ('p, 's) pg_stream \<Rightarrow> bytes \<Rightarrow> (transport_error, nat) res \<times> ('p, 's) pg_stream"
where
  "pg_write wp ws t buf = on_pg (\<lambda>b. bt_write wp b buf) (\<lambda>b. bt_write ws b buf) t"

definition pg_write_all :: "'p writer \<Rightarrow> 's writer \<Rightarrow> ('p, 's) pg_stream writer" where
  "pg_write_all wp ws t buf = on_pg (\<lambda>b. bt_write_all wp b buf) (\<lambda>b. bt_write_all ws b buf) t"

definition pg_flush :: "'p writer \<Rightarrow> 'p action \<Rightarrow> 's writer \<Rightarrow> 's action \<Rightarrow> ('p, 's) pg_stream action" where
  "pg_flush wp fp ws fs t = on_pg (bt_flush wp fp) (bt_flush ws fs) t"

definition pg_shutdown :: "'p writer \<Rightarrow> 'p action \<Rightarrow> 's writer \<Rightarrow> 's action \<Rightarrow> ('p, 's) pg_stream action" where
  "pg_shutdown wp sp ws ss t = on_pg (bt_shutdown wp sp) (bt_shutdown ws ss) t"

subsection \<open>The codec on a transport\<close>

text \<open>\<open>Codec::read_message\<close>; \<open>None\<close> is a loop that never returns.\<close>

definition READ_CHUNK :: nat where "READ_CHUNK = 4096"

partial_function (option) codec_read ::
  "'m parser \<Rightarrow> 't reader \<Rightarrow> message_buffer \<Rightarrow> 't \<Rightarrow> ((auth_error, 'm) res \<times> message_buffer \<times> 't) option"
where
  "codec_read parse rd b t =
     (case next_message parse b of
        (Inl e, b1) \<Rightarrow> Some (Err (AeProtocol e), b1, t)
      | (Inr (Some m), b1) \<Rightarrow> Some (Ok m, b1, t)
      | (Inr None, b1) \<Rightarrow>
          (case rd t READ_CHUNK of
             (Inl e, t1) \<Rightarrow> Some (Err (AeTransport e), b1, t1)
           | (Inr chunk, t1) \<Rightarrow>
               if chunk = [] then Some (Err (AeTransport TeUnexpectedEof), b1, t1)
               else (case try_extend b1 chunk of
                       (Inl e, b2) \<Rightarrow> Some (Err (AeProtocol e), b2, t1)
                     | (Inr _, b2) \<Rightarrow> codec_read parse rd b2 t1)))"

text \<open>Reading message after message, as a connection does, until the first error.\<close>

fun codec_reads ::
  "'m parser \<Rightarrow> 't reader \<Rightarrow> nat \<Rightarrow> message_buffer \<Rightarrow> 't \<Rightarrow> ('m list \<times> auth_error option \<times> message_buffer \<times> 't) option"
where
  "codec_reads parse rd 0 b t = Some ([], None, b, t)"
| "codec_reads parse rd (Suc n) b t =
     (case codec_read parse rd b t of
        None \<Rightarrow> None
      | Some (Inl e, b1, t1) \<Rightarrow> Some ([], Some e, b1, t1)
      | Some (Inr m, b1, t1) \<Rightarrow> map_option (\<lambda>(ms, x). (m # ms, x)) (codec_reads parse rd n b1 t1))"

text \<open>What a channel finds in its inbox when it is read from this transport.\<close>

definition inbox_of :: "'m list \<Rightarrow> auth_error option \<Rightarrow> (auth_error, 'm) res list" where
  "inbox_of ms e = map Ok ms @ (case e of None \<Rightarrow> [] | Some x \<Rightarrow> [Err x])"

subsection \<open>Sources of bytes\<close>

text \<open>
  All that reading messages needs of a transport: a read that delivers something brings the source
  nearer to its end, so that reading stops, and what it delivers is the front of what is to come, unless
  the source has lost bytes on the way, which \<open>lost\<close> counts.
\<close>

locale byte_source =
  fixes rd :: "'t reader" and pend :: "'t \<Rightarrow> bytes" and invar :: "'t \<Rightarrow> bool" and lost :: "'t \<Rightarrow> nat"
    and nearer :: "('t \<times> 't) set"
  assumes source_wf: "wf nearer"
    and source_ok: "invar t \<Longrightarrow> rd t k = (Inr bs, t') \<Longrightarrow>
      invar t' \<and> length bs \<le> k \<and> lost t \<le> lost t' \<and> (bs \<noteq> [] \<longrightarrow> (t', t) \<in> nearer) \<and> (lost t' = lost t \<longrightarrow> pend t = bs @ pend t')"
    and source_err: "invar t \<Longrightarrow> rd t k = (Inl e, t') \<Longrightarrow> invar t' \<and> lost t \<le> lost t'"

text \<open>A buffer in front of a source: what is buffered is consumed before the source is read again.\<close>

definition bt_less :: "('t \<times> 't) set \<Rightarrow> ('t buffered \<times> 't buffered) set" where
  "bt_less nearer = inv_image (nearer <*lex*> less_than) (\<lambda>b. (inner b, length (available b)))"

context byte_source
begin

lemma refill_source:
  assumes "bt_inv invar b" "refill rd b = (r, b')" "available b = []"
  shows "lost (inner b) \<le> lost (inner b') \<and> (case r of Inl e \<Rightarrow> bt_inv invar b'
     | Inr n \<Rightarrow> bt_inv invar (b'\<lparr>read_len := read_len b' + n\<rparr>) \<and> (n \<noteq> 0 \<longrightarrow> (inner b', inner b) \<in> nearer) \<and>
         (lost (inner b') = lost (inner b) \<longrightarrow> bt_pend pend b = bt_pend pend (b'\<lparr>read_len := read_len b' + n\<rparr>)))"
proof -
  have i: "invar (inner b)" "read_len b \<le> length (read_buf b)" "read_pos b = read_len b"
    using assms(1,3) by (auto simp: bt_inv_def available_def)
  obtain x t where x: "rd (inner b) (length (read_buf b) - read_len b) = (x, t)" by fastforce
  show ?thesis
  proof (cases x)
    case (Inl e)
    then show ?thesis using assms x source_err [OF i(1)] i by (auto simp: refill_def bt_inv_def)
  next
    case (Inr bs)
    have ok: "invar t" "length bs \<le> length (read_buf b) - read_len b" "lost (inner b) \<le> lost t"
      "bs \<noteq> [] \<longrightarrow> (t, inner b) \<in> nearer" "lost t = lost (inner b) \<longrightarrow> pend (inner b) = bs @ pend t"
      using source_ok [OF i(1)] x Inr by auto
    have r: "r = Ok (length bs)" "b' = b\<lparr>inner := t, read_buf := take (read_len b) (read_buf b) @ bs
         @ drop (read_len b + length bs) (read_buf b)\<rparr>"
      using assms(2) x Inr by (auto simp: refill_def)
    then have "available (b'\<lparr>read_len := read_len b' + length bs\<rparr>) = bs" using i ok by (auto simp: available_def)
    then show ?thesis using r ok i assms(3) by (auto simp: bt_inv_def bt_pend_def)
  qed
qed

lemma bt_consume:
  assumes "bt_inv invar b" "c = min k (length (available b))"
  shows "bt_inv invar (b\<lparr>read_pos := read_pos b + c\<rparr>) \<and> length (take c (available b)) \<le> k \<and>
     bt_pend pend b = take c (available b) @ bt_pend pend (b\<lparr>read_pos := read_pos b + c\<rparr>) \<and>
     (take c (available b) \<noteq> [] \<longrightarrow> length (available (b\<lparr>read_pos := read_pos b + c\<rparr>)) < length (available b))"
  using assms bt_inv_consume [OF assms(1), of c] available_consume [OF assms(1), of c]
  by (auto simp: bt_pend_def simp flip: append_assoc)

lemma buffered_source:
  "byte_source (bt_read rd) (bt_pend pend) (bt_inv invar) (\<lambda>b. lost (inner b)) (bt_less nearer)"
proof
  show "wf (bt_less nearer)" unfolding bt_less_def using source_wf by (intro wf_inv_image wf_lex_prod) simp_all
  fix b :: "'t buffered" and k r b'
  let ?b1 = "ensure_read_capacity (compact_read b) DEFAULT_READ_CAPACITY"
  assume inv: "bt_inv invar b"
  have i1: "bt_inv invar ?b1" using inv by auto
  have in1: "inner ?b1 = inner b" by (simp add: ensure_read_capacity_def Let_def)
  have empty: "available ?b1 = []" "bt_pend pend ?b1 = bt_pend pend b" if "\<not> read_pos b < read_len b"
  proof -
    have "available b = []" using that inv by (simp add: available_def bt_inv_def)
    then show "available ?b1 = []" "bt_pend pend ?b1 = bt_pend pend b"
      using inv by (simp_all add: bt_pend_def)
  qed
  {
    fix e assume "bt_read rd b k = (Inl e, b')"
    then have "\<not> read_pos b < read_len b" "refill rd ?b1 = (Inl e, b')"
      by (auto simp: bt_read_def Let_def split: if_splits prod.splits sum.splits)
    then show "bt_inv invar b' \<and> lost (inner b) \<le> lost (inner b')" using refill_source [OF i1] empty in1 by fastforce
  }
  {
    fix bs assume rd: "bt_read rd b k = (Inr bs, b')"
    show "bt_inv invar b' \<and> length bs \<le> k \<and> lost (inner b) \<le> lost (inner b') \<and> (bs \<noteq> [] \<longrightarrow> (b', b) \<in> bt_less nearer) \<and>
        (lost (inner b') = lost (inner b) \<longrightarrow> bt_pend pend b = bs @ bt_pend pend b')"
    proof (cases "read_pos b < read_len b")
      case True
      let ?c = "min k (length (available b))"
      let ?b2 = "b\<lparr>read_pos := read_pos b + ?c\<rparr>"
      have "bs = take ?c (available b)" "b' = compact_read ?b2 \<or> b' = ?b2"
        using rd True by (auto simp: bt_read_def Let_def split: if_splits)
      then show ?thesis using bt_consume [OF inv refl, of k] by (auto simp: bt_pend_def bt_less_def)
    next
      case False
      obtain n b2 where r: "refill rd ?b1 = (Inr n, b2)"
        using rd False by (auto simp: bt_read_def Let_def split: prod.splits sum.splits)
      let ?b3 = "b2\<lparr>read_len := read_len b2 + n\<rparr>"
      let ?c = "min k (length (available ?b3))"
      have f: "bt_inv invar ?b3" "lost (inner b) \<le> lost (inner b2)" "n \<noteq> 0 \<longrightarrow> (inner b2, inner b) \<in> nearer"
        "lost (inner b2) = lost (inner b) \<longrightarrow> bt_pend pend b = bt_pend pend ?b3"
        using refill_source [OF i1 r] empty [OF False] in1 by simp_all
      show ?thesis
      proof (cases "n = 0")
        case True
        then show ?thesis using rd False r f by (auto simp: bt_read_def Let_def)
      next
        case nz: False
        then have "bs = take ?c (available ?b3)" "b' = ?b3\<lparr>read_pos := read_pos ?b3 + ?c\<rparr>"
          using rd False r by (auto simp: bt_read_def Let_def)
        then show ?thesis using bt_consume [OF f(1) refl, of k] f nz by (simp add: bt_less_def)
      qed
    qed
  }
qed

end

text \<open>
  The first \<open>n\<close> messages of a stream fit the limit of the buffer: as long as a message is incomplete,
  there is room for one more read.  This bounds each message, not the stream.
\<close>

fun fits :: "'m parser \<Rightarrow> nat \<Rightarrow> nat \<Rightarrow> bytes \<Rightarrow> bool" where
  "fits parse lim 0 s = True"
| "fits parse lim (Suc n) s =
     ((\<forall>k\<le>length s. parse (take k s) = (Ok None, take k s) \<longrightarrow> k + READ_CHUNK \<le> lim) \<and>
      (case parse s of (Inr (Some m), rest) \<Rightarrow> fits parse lim n rest | _ \<Rightarrow> True))"

context byte_source
begin

text \<open>Reading a message always returns, whatever the source delivers.\<close>

lemma codec_read_returns:
  assumes "invar t"
  shows "\<exists>r b' t'. codec_read parse rd b t = Some (r, b', t') \<and> invar t' \<and> lost t \<le> lost t'"
  using source_wf assms
proof (induction t arbitrary: b rule: wf_induct_rule)
  case (less t)
  note unf = codec_read.simps [of parse rd b t]
  obtain x b1 where n: "next_message parse b = (x, b1)" by fastforce
  obtain y t1 where y: "rd t READ_CHUNK = (y, t1)" by fastforce
  have t1: "invar t1" "lost t \<le> lost t1" using source_ok [OF less.prems] source_err [OF less.prems] y by (cases y; auto)+
  show ?case
  proof (cases "\<exists>chunk. x = Inr None \<and> y = Inr chunk \<and> chunk \<noteq> []")
    case False
    then show ?thesis using n y t1 less.prems by (subst unf) (auto split: sum.splits option.splits)
  next
    case True
    then obtain chunk where c: "x = Inr None" "y = Inr chunk" "chunk \<noteq> []" by blast
    have "(t1, t) \<in> nearer" using source_ok [OF less.prems] y c by auto
    then have ih: "\<exists>r b' t'. codec_read parse rd b t1 = Some (r, b', t') \<and> invar t' \<and> lost t1 \<le> lost t'" for b
      using less.IH t1(1) by blast
    obtain z b2 where z: "try_extend b1 chunk = (z, b2)" by fastforce
    obtain r b' t' where "codec_read parse rd b2 t1 = Some (r, b', t')" "invar t'" "lost t1 \<le> lost t'" using ih by blast
    then show ?thesis using n y c z t1 by (subst unf) (cases z; auto)
  qed
qed

lemma codec_reads_returns:
  assumes "invar t"
  shows "\<exists>seen e b' t'. codec_reads parse rd n b t = Some (seen, e, b', t') \<and> invar t' \<and> lost t \<le> lost t'"
  using assms
proof (induction n arbitrary: b t)
  case (Suc n)
  obtain r b1 t1 where r: "codec_read parse rd b t = Some (r, b1, t1)" "invar t1" "lost t \<le> lost t1"
    using codec_read_returns [OF Suc.prems] by blast
  obtain seen e b' t' where "codec_reads parse rd n b1 t1 = Some (seen, e, b', t')" "invar t'" "lost t1 \<le> lost t'"
    using Suc.IH [OF r(2)] by blast
  then show ?case using r by (cases r) auto
qed simp

text \<open>
  If a message is at the front of what is to come, it is what is read, unless the transport fails or
  bytes are lost.
\<close>

lemma codec_read_front:
  assumes "framing parse" "consuming parse" "invar t" "length (mb_inner b) \<le> max_buffered_bytes b"
    and "\<forall>k\<le>length (mb_inner b @ pend t). parse (take k (mb_inner b @ pend t)) = (Ok None, take k (mb_inner b @ pend t)) \<longrightarrow>
      k + READ_CHUNK \<le> max_buffered_bytes b"
    and "parse (mb_inner b @ pend t) = (Ok (Some m), rest)"
    and "codec_read parse rd b t = Some (r, b', t')" "lost t' = lost t"
  shows "max_buffered_bytes b' = max_buffered_bytes b \<and> length (mb_inner b') \<le> max_buffered_bytes b \<and>
     (r = Ok m \<and> mb_inner b' @ pend t' = rest \<or> (\<exists>e. r = Err (AeTransport e)))"
  using source_wf assms(3-)
proof (induction t arbitrary: b rule: wf_induct_rule)
  case (less t)
  note unf = codec_read.simps [of parse rd b t]
  have lim: "\<not> max_buffered_bytes b < length (mb_inner b)" using less.prems(2) by simp
  from framing_prefix [OF assms(1) less.prems(4)] show ?case
  proof
    assume "\<exists>r'. parse (mb_inner b) = (Ok (Some m), r') \<and> rest = r' @ pend t"
    then obtain r' where p: "parse (mb_inner b) = (Ok (Some m), r')" "rest = r' @ pend t" by blast
    then have "length r' \<le> length (mb_inner b)" using assms(2) unfolding consuming_def by (metis snd_conv)
    then show ?thesis using p lim less.prems(5) by (subst (asm) unf) (auto simp: next_message_def)
  next
    assume p: "parse (mb_inner b) = (Ok None, mb_inner b)"
    then have n: "next_message parse b = (Ok None, b)" using lim by (simp add: next_message_def)
    obtain y t1 where y: "rd t READ_CHUNK = (y, t1)" by fastforce
    show ?thesis
    proof (cases "\<exists>chunk. y = Inr chunk \<and> chunk \<noteq> []")
      case False
      then show ?thesis using n y less.prems(2,5) by (subst (asm) unf) (auto split: sum.splits)
    next
      case True
      then obtain chunk where c: "y = Inr chunk" "chunk \<noteq> []" by blast
      have t1: "invar t1" "length chunk \<le> READ_CHUNK" "(t1, t) \<in> nearer" "lost t \<le> lost t1" "lost t1 = lost t \<Longrightarrow> pend t = chunk @ pend t1"
        using source_ok [OF less.prems(1)] y c by auto
      let ?b = "b\<lparr>mb_inner := mb_inner b @ chunk\<rparr>"
      have room: "length (mb_inner b) + READ_CHUNK \<le> max_buffered_bytes b"
        using less.prems(3) [rule_format, of "length (mb_inner b)"] p by simp
      then have "try_extend b chunk = (Ok (), ?b)" using t1(2) by (intro try_extend_ok) simp
      then have r: "codec_read parse rd ?b t1 = Some (r, b', t')" using less.prems(5) n y c by (subst (asm) unf) simp
      have "lost t1 \<le> lost t'" using codec_read_returns [OF t1(1), of parse ?b] r by auto
      then have same: "lost t1 = lost t" "lost t' = lost t1" using t1(4) less.prems(6) by simp_all
      then have "pend t = chunk @ pend t1" using t1(5) by simp
      then show ?thesis using less.IH [OF t1(3,1) _ _ _ r same(2)] less.prems(3,4) room t1(2) by simp
    qed
  qed
qed

lemma codec_reads_front:
  assumes "framing parse" "consuming parse" "invar t" "length (mb_inner b) \<le> max_buffered_bytes b"
    and "fits parse (max_buffered_bytes b) n (mb_inner b @ pend t)" "parse_n parse n (mb_inner b @ pend t) = Some ms"
    and "codec_reads parse rd n b t = Some (seen, e, b', t')" "lost t' = lost t"
  shows "\<exists>k\<le>n. seen = take k ms \<and> (case e of None \<Rightarrow> k = n | Some x \<Rightarrow> k < n \<and> (\<exists>te. x = AeTransport te))"
  using assms(3-)
proof (induction n arbitrary: b t ms seen)
  case (Suc n)
  obtain m rest ms1 where p: "parse (mb_inner b @ pend t) = (Ok (Some m), rest)" "parse_n parse n rest = Some ms1" "ms = m # ms1"
    using Suc.prems(4) by (auto split: prod.splits sum.splits option.splits)
  obtain r b1 t1 where r: "codec_read parse rd b t = Some (r, b1, t1)" "invar t1" "lost t \<le> lost t1"
    using codec_read_returns [OF Suc.prems(1)] by blast
  have "lost t1 \<le> lost t'"
  proof (cases r)
    case (Inr m1)
    then obtain seen1 where "codec_reads parse rd n b1 t1 = Some (seen1, e, b', t')" using Suc.prems(5) r(1) by auto
    then show ?thesis using codec_reads_returns [OF r(2), of parse n b1] by auto
  qed (use Suc.prems(5) r(1) in auto)
  then have same: "lost t1 = lost t" "lost t' = lost t1" using r(3) Suc.prems(6) by simp_all
  have f: "max_buffered_bytes b1 = max_buffered_bytes b" "length (mb_inner b1) \<le> max_buffered_bytes b1"
    "r = Ok m \<and> mb_inner b1 @ pend t1 = rest \<or> (\<exists>e. r = Err (AeTransport e))"
    using codec_read_front [OF assms(1,2) Suc.prems(1,2) _ p(1) r(1) same(1)] Suc.prems(3) by auto
  from f(3) show ?case
  proof
    assume ok: "r = Ok m \<and> mb_inner b1 @ pend t1 = rest"
    then obtain seen1 where x: "codec_reads parse rd n b1 t1 = Some (seen1, e, b', t')" "seen = m # seen1"
      using Suc.prems(5) r(1) by auto
    have "fits parse (max_buffered_bytes b1) n (mb_inner b1 @ pend t1)" using Suc.prems(3) p(1) ok f(1) by simp
    then obtain k where "k \<le> n" "seen1 = take k ms1" "case e of None \<Rightarrow> k = n | Some x \<Rightarrow> k < n \<and> (\<exists>te. x = AeTransport te)"
      using Suc.IH [OF r(2) f(2) _ _ x(1) same(2)] p(2) ok by blast
    then show ?thesis using x(2) p(3) by (intro exI [of _ "Suc k"]) (auto split: option.splits)
  next
    assume "\<exists>e. r = Err (AeTransport e)"
    then show ?thesis using r(1) Suc.prems(5) by (intro exI [of _ 0]) auto
  qed
qed auto

end

subsection \<open>The sources of the client\<close>

text \<open>A transport of the contract loses nothing.\<close>

sublocale async_transport \<subseteq> source: byte_source rd pend invar "\<lambda>_. 0" "measure (\<lambda>t. length (pend t))"
proof
  fix t k bs t' assume "invar t" "rd t k = (Inr bs, t')"
  then show "invar t' \<and> length bs \<le> k \<and> (0::nat) \<le> 0 \<and> (bs \<noteq> [] \<longrightarrow> (t', t) \<in> measure (\<lambda>t. length (pend t))) \<and>
      ((0::nat) = 0 \<longrightarrow> pend t = bs @ pend t')"
    using read_ok by fastforce
qed (use read_err in auto)

interpretation plain_source: byte_source "bt_read client_read" "bt_pend client_pend" "bt_inv client_inv" "\<lambda>b. 0"
  "bt_less (measure (\<lambda>t. length (client_pend t)))"
  by (rule client.source.buffered_source)

text \<open>The read of the TLS transport, which returns on every transport of the contract.\<close>

definition tls_reader :: "'r rustls \<Rightarrow> 't reader \<Rightarrow> ('t, 'r) tls_transport reader" where
  "tls_reader L rd t k = the (tls_read L rd t k)"

context async_transport
begin

lemma tls_reader_returns:
  assumes "record_layer L plain" "invar (tls_inner t)"
  shows "tls_read L rd t k = Some (tls_reader L rd t k)"
  using tls_read_delivers [OF assms, of k] by (auto simp: delivers_def tls_reader_def)

text \<open>What TLS loses is the ciphertext the driver throws away.\<close>

lemma tls_source:
  assumes "record_layer L plain"
  shows "byte_source (tls_reader L rd) (tls_pend plain pend) (\<lambda>t. invar (tls_inner t)) (\<lambda>t. length (dropped t)) (tls_less plain)"
proof
  show "wf (tls_less plain :: (('t, 'a) tls_transport \<times> _) set)"
    unfolding tls_less_def by (intro wf_inv_image wf_lex_prod) simp_all
  fix t :: "('t, 'a) tls_transport" and k t'
  assume i: "invar (tls_inner t)"
  have d: "delivers plain t k (Some (r, t'))" if "tls_reader L rd t k = (r, t')" for r
    using tls_read_delivers [OF assms i, of k] tls_reader_returns [OF assms i, of k] that by simp
  show "invar (tls_inner t') \<and> length bs \<le> k \<and> length (dropped t) \<le> length (dropped t') \<and>
      (bs \<noteq> [] \<longrightarrow> (t', t) \<in> tls_less plain) \<and>
      (length (dropped t') = length (dropped t) \<longrightarrow> tls_pend plain pend t = bs @ tls_pend plain pend t')"
    if "tls_reader L rd t k = (Inr bs, t')" for bs
    using d [OF that] by (auto simp: delivers_def)
  show "invar (tls_inner t') \<and> length (dropped t) \<le> length (dropped t')" if "tls_reader L rd t k = (Inl e, t')" for e
    using d [OF that] by (auto simp: delivers_def)
qed

end

text \<open>What is still to come on a \<open>PgTransport\<close>, and what it has lost.\<close>

definition pg_pend :: "('p \<Rightarrow> bytes) \<Rightarrow> ('s \<Rightarrow> bytes) \<Rightarrow> ('p, 's) pg_stream \<Rightarrow> bytes" where
  "pg_pend pp ps t = (case t of Plain b \<Rightarrow> bt_pend pp b | Tls b \<Rightarrow> bt_pend ps b)"

definition pg_inv :: "('p \<Rightarrow> bool) \<Rightarrow> ('s \<Rightarrow> bool) \<Rightarrow> ('p, 's) pg_stream \<Rightarrow> bool" where
  "pg_inv ip is t = (case t of Plain b \<Rightarrow> bt_inv ip b | Tls b \<Rightarrow> bt_inv is b)"

definition pg_lost :: "('p \<Rightarrow> nat) \<Rightarrow> ('s \<Rightarrow> nat) \<Rightarrow> ('p, 's) pg_stream \<Rightarrow> nat" where
  "pg_lost lp ls t = (case t of Plain b \<Rightarrow> lp (inner b) | Tls b \<Rightarrow> ls (inner b))"

definition pg_less :: "('p \<times> 'p) set \<Rightarrow> ('s \<times> 's) set \<Rightarrow> (('p, 's) pg_stream \<times> ('p, 's) pg_stream) set" where
  "pg_less lp ls = {(Plain a, Plain b) | a b. (a, b) \<in> bt_less lp} \<union> {(Tls a, Tls b) | a b. (a, b) \<in> bt_less ls}"

lemma wf_pg_less:
  assumes "wf (bt_less lp)" "wf (bt_less ls)"
  shows "wf (pg_less lp ls)"
proof (rule wfUNIVI)
  fix P and x :: "('a, 'b) pg_stream"
  assume ih: "\<forall>x. (\<forall>y. (y, x) \<in> pg_less lp ls \<longrightarrow> P y) \<longrightarrow> P x"
  have "P (Plain a)" for a
    using assms(1) by (induction a rule: wf_induct_rule) (rule ih [rule_format], auto simp: pg_less_def)
  moreover have "P (Tls a)" for a
    using assms(2) by (induction a rule: wf_induct_rule) (rule ih [rule_format], auto simp: pg_less_def)
  ultimately show "P x" by (cases x) auto
qed

lemma pg_source:
  assumes "byte_source rp pp ip lp qp" "byte_source rs ps is ls qs"
  shows "byte_source (pg_read rp rs) (pg_pend pp ps) (pg_inv ip is) (pg_lost lp ls) (pg_less qp qs)"
proof -
  note p = byte_source.buffered_source [OF assms(1)] and q = byte_source.buffered_source [OF assms(2)]
  show ?thesis
  proof
    show "wf (pg_less qp qs)" using byte_source.source_wf [OF p] byte_source.source_wf [OF q] by (rule wf_pg_less)
    fix t :: "('a, 'b) pg_stream" and k r t'
    assume i: "pg_inv ip is t"
    show "pg_inv ip is t' \<and> length bs \<le> k \<and> pg_lost lp ls t \<le> pg_lost lp ls t' \<and> (bs \<noteq> [] \<longrightarrow> (t', t) \<in> pg_less qp qs) \<and>
        (pg_lost lp ls t' = pg_lost lp ls t \<longrightarrow> pg_pend pp ps t = bs @ pg_pend pp ps t')"
      if got: "pg_read rp rs t k = (Inr bs, t')" for bs
    proof (cases t)
      case (Plain b)
      then obtain b1 where "bt_read rp b k = (Inr bs, b1)" "t' = Plain b1"
        using got by (cases "bt_read rp b k") (auto simp: pg_read_def on_pg_def)
      then show ?thesis using i Plain byte_source.source_ok [OF p, of b k bs b1]
        by (auto simp: pg_inv_def pg_pend_def pg_lost_def pg_less_def)
    next
      case (Tls b)
      then obtain b1 where "bt_read rs b k = (Inr bs, b1)" "t' = Tls b1"
        using got by (cases "bt_read rs b k") (auto simp: pg_read_def on_pg_def)
      then show ?thesis using i Tls byte_source.source_ok [OF q, of b k bs b1]
        by (auto simp: pg_inv_def pg_pend_def pg_lost_def pg_less_def)
    qed
    show "pg_inv ip is t' \<and> pg_lost lp ls t \<le> pg_lost lp ls t'" if "pg_read rp rs t k = (Inl e, t')" for e
      using that i byte_source.source_err [OF p] byte_source.source_err [OF q]
      by (cases t) (auto simp: pg_read_def on_pg_def pg_inv_def pg_lost_def split: prod.splits)
  qed
qed

text \<open>The ciphertext a connection has thrown away: none in the clear.\<close>

definition ciphertext_lost :: "('p, ('t, 'r) tls_transport) pg_stream \<Rightarrow> nat" where
  "ciphertext_lost = pg_lost (\<lambda>_. 0) (\<lambda>t. length (dropped t))"

lemma ciphertext_lost_simps [simp]:
  "ciphertext_lost (Plain b) = 0" "ciphertext_lost (Tls b') = length (dropped (inner b'))"
  by (simp_all add: ciphertext_lost_def pg_lost_def)

lemma client_pg_source:
  assumes "record_layer L plain"
  shows "byte_source (pg_read client_read (tls_reader L client_read)) (pg_pend client_pend (tls_pend plain client_pend))
     (pg_inv client_inv (\<lambda>t. client_inv (tls_inner t))) ciphertext_lost
     (pg_less (measure (\<lambda>t. length (client_pend t))) (async_transport.tls_less client_pend plain))"
  unfolding ciphertext_lost_def by (intro pg_source client.tls_source [OF assms]) unfold_locales

subsection \<open>Writing batches\<close>

text \<open>\<open>encode_and_write\<close> for each message and one flush, as the extended protocol does.\<close>

fun write_encoded ::
  "frontend_lib \<Rightarrow> 't writer \<Rightarrow> codec \<Rightarrow> 't \<Rightarrow> frontend_message list \<Rightarrow> (auth_error, unit) res \<times> codec \<times> 't"
where
  "write_encoded l wa c t [] = (Ok (), c, t)"
| "write_encoded l wa c t (m # ms) =
     (case encode_and_write l wa c t m of
        (Inl e, c1, t1) \<Rightarrow> (Err e, c1, t1)
      | (Inr _, c1, t1) \<Rightarrow> write_encoded l wa c1 t1 ms)"

definition send_batch ::
  "frontend_lib \<Rightarrow> 't writer \<Rightarrow> 't action \<Rightarrow> codec \<Rightarrow> 't \<Rightarrow> frontend_message list \<Rightarrow> (auth_error, unit) res \<times> codec \<times> 't"
where
  "send_batch l wa fl c t ms =
     (case write_encoded l wa c t ms of
        (Inl e, c1, t1) \<Rightarrow> (Err e, c1, t1)
      | (Inr _, c1, t1) \<Rightarrow> (case fl t1 of (r, t2) \<Rightarrow> (map_err AeTransport r, c1, t2)))"

definition encoded :: "frontend_lib \<Rightarrow> frontend_message list \<Rightarrow> bytes list \<Rightarrow> bool" where
  "encoded l ms es = list_all2 (\<lambda>m e. encode l m [] = Ok e) ms es"

context async_transport
begin

lemma write_encoded_sent:
  assumes "invar t" "write_encoded l wa c t ms = (Ok (), c', t')"
  shows "invar t' \<and> pend t' = pend t \<and> (\<exists>es. encoded l ms es \<and> sent t' = sent t @ concat es)"
  using assms
proof (induction ms arbitrary: c t)
  case (Cons m ms)
  obtain c1 t1 where w: "encode_and_write l wa c t m = (Ok (), c1, t1)" "write_encoded l wa c1 t1 ms = (Ok (), c', t')"
    using Cons.prems(2) by (auto split: prod.splits sum.splits)
  then obtain e where e: "encode l m [] = Ok e" "wa t e = (Ok (), t1)"
    by (auto simp: encode_and_write_def encode_to_buffer_def map_err_def split: sum.splits prod.splits)
  note ok = write_ok [OF Cons.prems(1) e(2)]
  obtain es where "invar t'" "pend t' = pend t1" "encoded l ms es" "sent t' = sent t1 @ concat es"
    using Cons.IH [OF _ w(2)] ok by blast
  then show ?case using ok e(1) by (auto simp: encoded_def intro!: exI [of _ "e # es"])
qed (auto simp: encoded_def)

end

lemma client_flush_frame:
  assumes "client_flush os t = (r, t')"
  shows "client_sent t' = client_sent t \<and> client_pend t' = client_pend t"
  using assms
  by (cases t) (auto simp: client_flush_def native_flush_def tokio_flush_def wasi_flush_def mock_flush_def client_sent_def
      client_pend_def mock_pend_def split: prod.splits if_splits)

subsection \<open>Replies that are cut short\<close>

text \<open>Messages without the one that ends a reply, and then an error of the transport.\<close>

fun cut_short :: "(auth_error, backend_message) res list \<Rightarrow> bool" where
  "cut_short [] = False"
| "cut_short (Inl e # rs) = (rs = [])"
| "cut_short (Inr m # rs) = ((\<forall>b. m \<noteq> ReadyForQuery b) \<and> cut_short rs)"

lemma ready_loop_cut: "cut_short rs \<Longrightarrow> \<exists>e c'. read_until_ready_loop rs c = (Ret (Err e), c')"
  by (induction rs c rule: read_until_ready_loop.induct) (auto simp: Let_def split: backend_message.splits)

text \<open>What one step of a row stream gives then: an error, or a row with the rest still cut short.\<close>

definition cut_outcome :: "(pg_error, row option) outcome \<times> row_stream \<times> connection \<Rightarrow> bool" where
  "cut_outcome out = (case out of (r, st', c') \<Rightarrow>
     (\<exists>e. r = Ret (Err e)) \<or> (\<exists>x. r = Ret (Ok (Some x)) \<and> cut_short (inbox c') \<and> \<not> stream_is_done st'))"

lemma cut_outcome_simps [simp]:
  "cut_outcome (Ret (Err e), st', c')"
  "cut_outcome (Ret (Ok (Some x)), st', c') = (cut_short (inbox c') \<and> \<not> stream_is_done st')"
  by (simp_all add: cut_outcome_def)

lemma stream_error_cut: "cut_short (inbox c) \<Longrightarrow> cut_outcome (stream_error b st c)"
  using ready_loop_cut [of "inbox c" c] by (auto simp: stream_error_def read_until_ready_def split: sum.splits)

lemma stream_is_done_states [simp]:
  "rs_state st = WaitingForDescription \<Longrightarrow> \<not> stream_is_done st"
  "rs_state st = ReceivingRows \<Longrightarrow> \<not> stream_is_done st"
  "rs_state st = Finishing t \<Longrightarrow> \<not> stream_is_done st"
  by (simp_all add: stream_is_done_def)

lemma stream_loop_cut:
  assumes "cut_short rs" "\<not> stream_is_done st"
  shows "cut_outcome (stream_loop rs st c)"
  using assms
proof (induction rs arbitrary: st c)
  case (Cons r rs)
  have live: "rs_state st = WaitingForDescription \<or> rs_state st = ReceivingRows \<or> (\<exists>t. rs_state st = Finishing t)"
    using Cons.prems(2) by (cases "rs_state st") (auto simp: stream_is_done_def)
  show ?case
  proof (cases r)
    case (Inl e)
    then show ?thesis using live by (elim disjE exE) simp_all
  next
    case (Inr m)
    then have cut: "cut_short rs" "\<And>b. m \<noteq> ReadyForQuery b" using Cons.prems(1) by auto
    note ih = Cons.IH [OF cut(1)]
    have err: "cut_outcome (stream_error body st (c\<lparr>inbox := rs\<rparr>))" for body
      using stream_error_cut cut(1) by simp
    show ?thesis using live
    proof (elim disjE exE)
      assume "rs_state st = WaitingForDescription"
      then show ?thesis using Inr cut by (cases m) (simp_all add: Let_def ih err split: sum.split)
    next
      assume "rs_state st = ReceivingRows"
      then show ?thesis using Inr cut by (cases m) (simp_all add: Let_def ih err stream_is_done_def split: sum.split)
    next
      fix t assume "rs_state st = Finishing t"
      then show ?thesis using Inr cut(1) cut(2) [of "case m of ReadyForQuery b \<Rightarrow> b"]
        by (cases m) (simp_all add: ih err)
    qed
  qed
qed simp

lemma stream_collect_cut:
  assumes "cut_short (inbox c)" "\<not> stream_is_done st"
  shows "\<exists>e st' c'. stream_collect st c rows = (Ret (Err e), st', c')"
  using assms
proof (induction st c rows rule: stream_collect.induct)
  case (1 st c rows)
  obtain r st1 c1 where n: "stream_next st c = (r, st1, c1)" by (rule prod_cases3)
  have "cut_outcome (r, st1, c1)" using stream_loop_cut [OF 1(2,3), of c] n by (simp add: stream_next_def)
  then consider e where "r = Ret (Err e)" | x where "r = Ret (Ok (Some x))" "cut_short (inbox c1)" "\<not> stream_is_done st1"
    by (auto simp: cut_outcome_def)
  then show ?case
  proof cases
    case (2 x)
    have n': "(Ret (Ok (Some x)), st1, c1) = stream_next st c" using n 2(1) by simp
    show ?thesis using 1(1) [OF n' refl refl refl refl 2(2,3)] n 2(1) by (subst stream_collect.simps) simp
  qed (use n in \<open>subst stream_collect.simps, simp\<close>)
qed

lemma query_cut:
  assumes "state c = Idle" "\<not> needs_recovery c" "write_faults c = []" "cut_short (inbox c)"
  shows "\<exists>e c'. query sql c = (Ret (Err e), c')"
proof -
  have "\<exists>e st' c'. stream_collect new_simple (c\<lparr>state := Streaming, outbox := outbox c @ [Query sql]\<rparr>) [] = (Ret (Err e), st', c')"
    using assms(4) by (intro stream_collect_cut) (simp_all add: new_simple_def)
  then show ?thesis using query_unfold [OF assms(1-3), of sql] by (auto simp: finish_query_def)
qed

text \<open>The ready message ends a reply and stands nowhere else in it.\<close>

lemma interleaved_ready:
  assumes "interleaved ms (ss @ [ReadyForQuery b])" "\<forall>s\<in>set ss. \<forall>b. s \<noteq> ReadyForQuery b"
  shows "\<exists>pre. ms = pre @ [ReadyForQuery b] \<and> (\<forall>m\<in>set pre. \<forall>b. m \<noteq> ReadyForQuery b)"
  using assms
proof (induction ms arbitrary: ss)
  case (Cons m ms)
  show ?case
  proof (cases "is_async m")
    case True
    then have "\<exists>pre. ms = pre @ [ReadyForQuery b] \<and> (\<forall>m\<in>set pre. \<forall>b. m \<noteq> ReadyForQuery b)"
      using Cons.IH [of ss] Cons.prems by simp
    moreover have "\<forall>b. m \<noteq> ReadyForQuery b" using True by (auto simp: is_async_def)
    ultimately show ?thesis by (metis append_Cons set_ConsD)
  next
    case False
    show ?thesis
    proof (cases ss)
      case Nil
      then show ?thesis using Cons.prems False by (cases ms) (auto split: if_splits)
    next
      case c: (Cons x ss1)
      then have "\<exists>pre. ms = pre @ [ReadyForQuery b] \<and> (\<forall>m\<in>set pre. \<forall>b. m \<noteq> ReadyForQuery b)"
        using Cons.IH [of ss1] Cons.prems False by simp
      moreover have "\<forall>b. m \<noteq> ReadyForQuery b" using Cons.prems False c by simp
      ultimately show ?thesis by (metis append_Cons set_ConsD)
    qed
  qed
qed simp

lemma reply_ready: "\<exists>ss b. reply_messages rep = ss @ [ReadyForQuery b] \<and> (\<forall>s\<in>set ss. \<forall>b. s \<noteq> ReadyForQuery b)"
  by (rule exI [of _ "butlast (reply_messages rep)"], rule exI [of _ "reply_status rep"], cases rep)
    (auto simp: butlast_append)

lemma partial_reply_cut:
  assumes "interleaved (seen @ rest) (reply_messages rep)" "rest \<noteq> []"
  shows "cut_short (inbox_of seen (Some x))"
proof -
  obtain ss b where "reply_messages rep = ss @ [ReadyForQuery b]" "\<forall>s\<in>set ss. \<forall>b. s \<noteq> ReadyForQuery b"
    using reply_ready by blast
  then obtain pre where p: "seen @ rest = pre @ [ReadyForQuery b]" "\<forall>m\<in>set pre. \<forall>b. m \<noteq> ReadyForQuery b"
    using interleaved_ready assms(1) by metis
  then have "\<forall>m\<in>set seen. \<forall>b. m \<noteq> ReadyForQuery b"
    using assms(2) by (cases rest rule: rev_cases) auto
  then show ?thesis unfolding inbox_of_def by (induction seen) simp_all
qed

subsection \<open>Properties\<close>

text \<open>
  C3.  From bytes to rows: let the bytes still to come on the transport of a connection, in the clear or
  decrypted by TLS, on any platform and however cut into reads, begin with the messages of a reply
  mixed with asynchronous ones, each of which fits the limit of the message buffer (8 MiB unless
  configured otherwise) with one more read.  Then reading as many messages always returns, and one of
  three things has happened.  The TLS driver has thrown away ciphertext the session had not taken (never
  in the clear).  Or the transport fails on the way: what was read until then is a proper part of the
  reply, in order, and \<open>query\<close> on it returns an error and never a partial result.  Or the inbox
  read is exactly these messages, and \<open>query\<close> on it returns exactly the rows, tag or error of the
  reply and leaves the connection idle with the notifications queued.
\<close>

theorem bytes_to_rows:
  assumes "framing parse" "consuming parse" "record_layer L plain"
    and "pg_inv client_inv (\<lambda>t. client_inv (tls_inner t)) t" "length (mb_inner b) \<le> max_buffered_bytes b"
    and "fits parse (max_buffered_bytes b) (length ms) (mb_inner b @ pg_pend client_pend (tls_pend plain client_pend) t)"
    and "parse_n parse (length ms) (mb_inner b @ pg_pend client_pend (tls_pend plain client_pend) t) = Some ms"
    and "interleaved ms (reply_messages rep)" "well_formed_reply rep"
    and "state c = Idle" "\<not> needs_recovery c" "write_faults c = []"
  shows "\<exists>seen e b' t'. codec_reads parse (pg_read client_read (tls_reader L client_read)) (length ms) b t = Some (seen, e, b', t') \<and>
     (ciphertext_lost t < ciphertext_lost t' \<or>
      (case e of
        Some x \<Rightarrow> (\<exists>te. x = AeTransport te) \<and> (\<exists>rest. rest \<noteq> [] \<and> ms = seen @ rest) \<and>
          (\<exists>pe c'. query sql (c\<lparr>inbox := inbox_of seen e\<rparr>) = (Ret (Err pe), c'))
      | None \<Rightarrow> (\<exists>c'. query sql (c\<lparr>inbox := inbox_of seen e\<rparr>) = (Ret (reply_result rep), c') \<and>
          inbox c' = [] \<and> state c' = Idle \<and> transaction_status c' = ready_status (reply_status rep) \<and>
          notification_queue c' = notification_queue c @ notifs (map Ok ms))))"
proof -
  note src = client_pg_source [OF assms(3)]
  obtain seen e b' t' where r: "codec_reads parse (pg_read client_read (tls_reader L client_read)) (length ms) b t = Some (seen, e, b', t')"
    "ciphertext_lost t \<le> ciphertext_lost t'"
    using byte_source.codec_reads_returns [OF src assms(4)] by blast
  show ?thesis
  proof (cases "ciphertext_lost t' = ciphertext_lost t")
    case False
    then show ?thesis using r by auto
  next
    case True
    obtain k where k: "k \<le> length ms" "seen = take k ms"
      "case e of None \<Rightarrow> k = length ms | Some x \<Rightarrow> k < length ms \<and> (\<exists>te. x = AeTransport te)"
      using byte_source.codec_reads_front [OF src assms(1,2,4-7) r(1) True] by blast
    show ?thesis
    proof (cases e)
      case None
      let ?c = "c\<lparr>inbox := inbox_of ms None\<rparr>"
      have "inbox ?c = map Ok ms @ []" by (simp add: inbox_of_def)
      then obtain c' where "query sql ?c = (Ret (reply_result rep), c')"
        "answered (?c\<lparr>outbox := outbox ?c @ [Query sql]\<rparr>) c' (map Ok ms) [] (reply_status rep)"
        using query_reply [of ?c ms rep "[]" sql] assms(8-) by auto
      then show ?thesis using r k None by (auto simp: answered_def)
    next
      case (Some x)
      then have "drop k ms \<noteq> [] \<and> ms = take k ms @ drop k ms" using k(3) by auto
      then obtain rest where rest: "rest \<noteq> []" "ms = seen @ rest" using k(2) by blast
      have "cut_short (inbox_of seen e)" using partial_reply_cut [of seen rest] assms(8) rest Some by metis
      then have "\<exists>pe c'. query sql (c\<lparr>inbox := inbox_of seen e\<rparr>) = (Ret (Err pe), c')"
        using assms(10-) by (intro query_cut) simp_all
      then show ?thesis using r(1) k(3) rest Some
        by (intro exI [of _ seen] exI [of _ e] exI [of _ b'] exI [of _ t']) auto
    qed
  qed
qed

text \<open>
  A parser of one-byte messages, and a TLS session over a tokio socket that delivers, complemented and one
  byte at a time, a command completion and the ready message of a reply.
\<close>

definition tag_parser :: "backend_message parser" where
  "tag_parser b = (case b of
      [] \<Rightarrow> (Ok None, [])
    | x # rest \<Rightarrow> (Ok (Some (if x = 67 then CommandComplete (Ok ''DONE'') else ReadyForQuery CHR ''I'')), rest))"

lemma tag_parser_laws: "framing tag_parser" "consuming tag_parser"
  by (auto simp: framing_def consuming_def tag_parser_def split: list.splits)

lemma tag_parser_fits: "READ_CHUNK \<le> lim \<Longrightarrow> fits tag_parser lim n s"
proof (induction n arbitrary: s)
  case (Suc n)
  have "tag_parser p = (Ok None, p) \<Longrightarrow> p = []" for p by (auto simp: tag_parser_def split: list.splits)
  then have "k = 0" if "k \<le> length s" "tag_parser (take k s) = (Ok None, take k s)" for k s
    using that by (metis le_zero_eq length_take list.size(3) min.absorb2)
  then show ?case using Suc by (fastforce split: prod.splits sum.splits option.splits)
qed simp

definition sample_stream :: "(client_transport, (client_transport, bytes \<times> bytes) tls_transport) pg_stream" where
  "sample_stream = Tls (buffered_new \<lparr> tls_conn = ([], []),
     tls_inner = Tokio \<lparr> incoming = [188, 165], read_plan = [Ok 0], outgoing = [], write_plan = [],
       nodelay = True, nonblocking = True, shut = False \<rparr>, end_point = None, dropped = [] \<rparr>)"

lemma sample_stream_read:
  "\<exists>seen b' t'. codec_reads tag_parser (pg_read client_read (tls_reader (complement_session TLS_BUFFER) client_read)) 2
     message_buffer_new sample_stream = Some (seen, None, b', t') \<and> ciphertext_lost t' = 0"
  by (simp add: numeral_2_eq_2 codec_read.simps next_message_def message_buffer_new_def DEFAULT_MAX_BUFFERED_BYTES_def tag_parser_def
      map_err_def sample_stream_def pg_read_def on_pg_def bt_read_def Let_def buffered_new_def with_capacity_def
      DEFAULT_READ_CAPACITY_def compact_read_def ensure_read_capacity_def refill_def client_read_def tokio_read_def
      sock_read_def sock_pend_def READ_CHUNK_def try_extend_def saturating_add_def usize_max_def available_def
      tls_reader_def tls_read.simps complement_session_def TLS_BUFFER_def)

theorem bytes_to_rows_witness:
  "\<exists>seen b' t'. codec_reads tag_parser (pg_read client_read (tls_reader (complement_session TLS_BUFFER) client_read)) 2
      message_buffer_new sample_stream = Some (seen, None, b', t') \<and>
     (\<exists>c'. query ''DO'' ((sample_connection [])\<lparr>inbox := inbox_of seen None\<rparr>) =
        (Ret (Ok \<lparr> qr_rows = [], qr_command_tag = ''DONE'', qr_columns = [] \<rparr>), c') \<and> state c' = Idle)"
proof -
  let ?L = "complement_session TLS_BUFFER" and ?ms = "[CommandComplete (Ok ''DONE''), ReadyForQuery CHR ''I'']"
  have n: "length ?ms = 2" by simp
  have p: "pg_pend client_pend (tls_pend complement_plain client_pend) sample_stream = [67, 90]"
    by (simp add: pg_pend_def sample_stream_def bt_pend_def available_def buffered_new_def with_capacity_def
        client_pend_def sock_pend_def tls_pend_def complement_plain_def)
  have i: "pg_inv client_inv (\<lambda>t. client_inv (tls_inner t)) sample_stream"
    by (simp add: pg_inv_def sample_stream_def bt_inv_def buffered_new_def with_capacity_def client_inv_def)
  have b: "length (mb_inner message_buffer_new) \<le> max_buffered_bytes message_buffer_new" by (simp add: message_buffer_new_def)
  have l: "READ_CHUNK \<le> max_buffered_bytes message_buffer_new"
    by (simp add: READ_CHUNK_def message_buffer_new_def DEFAULT_MAX_BUFFERED_BYTES_def)
  have f: "fits tag_parser (max_buffered_bytes message_buffer_new) (length ?ms) (mb_inner message_buffer_new @ [67, 90])"
    by (rule tag_parser_fits [OF l])
  have q: "parse_n tag_parser (length ?ms) (mb_inner message_buffer_new @ [67, 90]) = Some ?ms"
    by (simp add: message_buffer_new_def tag_parser_def)
  have "interleaved ?ms (reply_messages (CommandReply ''DONE'' CHR ''I''))" "well_formed_reply (CommandReply ''DONE'' CHR ''I'')"
    by (simp_all add: is_async_def well_formed_reply_def)
  note app = bytes_to_rows [OF tag_parser_laws complement_record_layer i b _ _ this, unfolded p, OF f q, of "sample_connection []" TLS_BUFFER "''DO''"]
  obtain seen b' t' where r: "codec_reads tag_parser (pg_read client_read (tls_reader ?L client_read)) 2
      message_buffer_new sample_stream = Some (seen, None, b', t')" "ciphertext_lost t' = 0"
    using sample_stream_read by blast
  then have "\<exists>c'. query ''DO'' ((sample_connection [])\<lparr>inbox := inbox_of seen None\<rparr>) =
      (Ret (reply_result (CommandReply ''DONE'' CHR ''I'')), c') \<and> state c' = Idle"
    using app unfolding n by auto
  then show ?thesis using r(1) by auto
qed

text \<open>
  C29.  From messages to bytes: when a batch of messages is written to the buffered transport of a
  connection and flushed without an error, exactly the encodings of these messages have been handed
  to the platform's transport, one after the other, after what was buffered before; nothing stays in
  the buffer, and what is still to be read is untouched.
\<close>

theorem batch_to_bytes:
  assumes "bt_inv client_inv b"
    and "send_batch l (bt_write_all client_write_all) (bt_flush client_write_all (client_flush os)) c b ms = (Ok (), c', b')"
  shows "\<exists>es. encoded l ms es \<and> client_sent (inner b') = bt_sent client_sent b @ concat es \<and> write_buf b' = [] \<and>
     bt_pend client_pend b' = bt_pend client_pend b"
proof -
  obtain b1 where w: "write_encoded l (bt_write_all client_write_all) c b ms = (Ok (), c', b1)"
    and f: "bt_flush client_write_all (client_flush os) b1 = (Ok (), b')"
    using assms(2) by (auto simp: send_batch_def map_err_def split: prod.splits sum.splits)
  have b1: "bt_inv client_inv b1" "bt_pend client_pend b1 = bt_pend client_pend b"
    "\<exists>es. encoded l ms es \<and> bt_sent client_sent b1 = bt_sent client_sent b @ concat es"
    using async_transport.write_encoded_sent [OF client.buffered_transport assms(1) w] by blast+
  obtain b2 t where fw: "flush_write client_write_all b1 = (Ok (), b2)" and fl: "client_flush os (inner b2) = (Ok (), t)" "b' = b2\<lparr>inner := t\<rparr>"
    using f by (auto simp: bt_flush_def split: prod.splits sum.splits)
  note ok = client.flush_write_ok [OF b1(1) fw]
  show ?thesis using b1 ok client_flush_frame [OF fl(1)] fl(2)
    by (auto simp: bt_sent_def bt_pend_def available_def)
qed

text \<open>A library whose query message is its text, and any other message a single byte.\<close>

definition text_lib :: frontend_lib where
  "text_lib =
     \<lparr> startup_message = \<lambda>_ buf. Ok buf, ssl_request = id, cancel_request = \<lambda>_ _. id, fl_query = \<lambda>sql buf. Ok (buf @ bytes_of sql),
       fl_parse = \<lambda>_ _ _ buf. Ok buf, fl_bind = \<lambda>_ _ _ _ _ buf. Ok buf, fl_describe = \<lambda>_ _ buf. Ok buf,
       fl_execute = \<lambda>_ _ buf. Ok buf, fl_close = \<lambda>_ _ buf. Ok buf, fl_sync = \<lambda>buf. buf @ [83], fl_flush = id,
       copy_data = \<lambda>_ buf. Ok buf, copy_done = id, copy_fail = \<lambda>_ buf. Ok buf, password_message = \<lambda>_ buf. Ok buf,
       sasl_initial_response = \<lambda>_ _ buf. Ok buf, sasl_response = \<lambda>_ buf. Ok buf, terminate = id \<rparr>"

theorem batch_to_bytes_witness:
  "\<exists>c' b'. send_batch text_lib (bt_write_all client_write_all) (bt_flush client_write_all (client_flush (Ok ()))) codec_new
      (buffered_new sample_client) [Query ''A'', Sync] = (Ok (), c', b') \<and> client_sent (inner b') = bytes_of ''A'' @ [83]"
proof -
  let ?b = "buffered_new sample_client"
  have i: "bt_inv client_inv ?b"
    by (simp add: bt_inv_def buffered_new_def with_capacity_def client_inv_def sample_client_def)
  have s: "bt_sent client_sent ?b = []"
    by (simp add: bt_sent_def buffered_new_def with_capacity_def client_sent_def sample_client_def)
  obtain c' b' where r: "send_batch text_lib (bt_write_all client_write_all) (bt_flush client_write_all (client_flush (Ok ()))) codec_new
      ?b [Query ''A'', Sync] = (Ok (), c', b')"
    by (simp add: send_batch_def encode_and_write_def encode_to_buffer_def text_lib_def map_err_def bt_write_all_def Let_def
        WRITE_BUFFER_FLUSH_THRESHOLD_def buffered_new_def with_capacity_def bt_flush_def flush_write_def client_write_all_def
        sample_client_def tokio_write_all_def sock_write_all.simps sock_write_def client_flush_def tokio_flush_def bytes_of_def)
  obtain es where "encoded text_lib [Query ''A'', Sync] es" "client_sent (inner b') = [] @ concat es"
    using batch_to_bytes [OF i r] s by auto
  then have "client_sent (inner b') = bytes_of ''A'' @ [83]"
    by (auto simp: encoded_def list_all2_Cons1 text_lib_def map_err_def)
  then show ?thesis using r by blast
qed

end
