(* ===== verification/Notification.thy ===== *)
theory Notification
  imports Query
begin

text \<open>
  Waiting for notifications (\<open>notification.rs\<close>): \<open>read_next_notification_blocking\<close> and the two
  builds of \<open>wait_for_notification\<close>, the one that races the read against a deadline (native tokio)
  and the one that provokes a cycle with an empty query (other targets).
\<close>

subsection \<open>Operations\<close>

definition mk_notification :: "int \<Rightarrow> (io_error, string) res \<Rightarrow> (io_error, string) res \<Rightarrow> notification" where
  "mk_notification pid ch p =
     \<lparr> n_process_id = pid, n_channel = unwrap_or_empty ch, n_payload = unwrap_or_empty p \<rparr>"

fun read_next_loop ::
  "(auth_error, backend_message) res list \<Rightarrow> connection \<Rightarrow> (pg_error, notification) outcome \<times> connection"
where
  "read_next_loop [] c = (Pending, c\<lparr>inbox := []\<rparr>)"
| "read_next_loop (Inl e # ms) c = (Ret (Err (from_auth_error e)), c\<lparr>inbox := ms\<rparr>)"
| "read_next_loop (Inr m # ms) c =
     (let c1 = c\<lparr>inbox := ms\<rparr> in
      case m of
        NotificationResponse pid ch p \<Rightarrow> (Ret (Ok (mk_notification pid ch p)), c1)
      | NoticeResponse _ \<Rightarrow> read_next_loop ms (snd (handle_async_message m c1))
      | ParameterStatus _ _ \<Rightarrow> read_next_loop ms (snd (handle_async_message m c1))
      | ReadyForQuery b \<Rightarrow> read_next_loop ms (c1\<lparr>transaction_status := ready_status b, state := Idle\<rparr>)
      | EmptyQueryResponse \<Rightarrow> read_next_loop ms c1
      | _ \<Rightarrow> (Ret (Err (PgInvalidState
               ''received unexpected backend message while waiting for notification'')), c1))"

definition read_next_notification_blocking :: "notification cm" where
  "read_next_notification_blocking c =
     (if \<not> is_idle c
      then (Ret (Err (PgInvalidState ''connection must be idle while waiting for notifications'')), c)
      else read_next_loop (inbox c) c)"

definition pop_front :: "connection \<Rightarrow> notification option \<times> connection" where
  "pop_front c = (case notification_queue c of
      [] \<Rightarrow> (None, c)
    | n # q \<Rightarrow> (Some n, c\<lparr>notification_queue := q\<rparr>))"

definition map_outcome :: "('a \<Rightarrow> 'b) \<Rightarrow> ('e, 'a) outcome \<Rightarrow> ('e, 'b) outcome" where
  "map_outcome f r = (case r of Pending \<Rightarrow> Pending | Ret (Inl e) \<Rightarrow> Ret (Inl e) | Ret (Inr a) \<Rightarrow> Ret (Inr (f a)))"

text \<open>
  The build with a deadline: \<open>arrived\<close> is the number of messages that arrive before it.  A read that
  is still waiting then is abandoned; what it has not read stays on the wire.
\<close>

definition timed_read :: "nat \<Rightarrow> notification option cm" where
  "timed_read arrived c =
     (case read_next_notification_blocking (c\<lparr>inbox := take arrived (inbox c)\<rparr>) of
        (r, c1) \<Rightarrow> (case r of Pending \<Rightarrow> Ret (Ok None) | _ \<Rightarrow> map_outcome Some r,
                    c1\<lparr>inbox := inbox c1 @ drop arrived (inbox c)\<rparr>))"

definition wait_for_notification :: "nat \<Rightarrow> nat option \<Rightarrow> notification option cm" where
  "wait_for_notification arrived timeout c =
     (case pop_front c of
        (Some n, c1) \<Rightarrow> (Ret (Ok (Some n)), c1)
      | (None, c1) \<Rightarrow>
          (case timeout of
             Some d \<Rightarrow> if d = 0 then (Ret (Ok None), c1) else timed_read arrived c1
           | None \<Rightarrow> (case read_next_notification_blocking c1 of (r, c2) \<Rightarrow> (map_outcome Some r, c2))))"

text \<open>The build without a runtime.\<close>

fun cycle_loop ::
  "(auth_error, backend_message) res list \<Rightarrow> connection \<Rightarrow> (pg_error, notification option) outcome \<times> connection"
where
  "cycle_loop [] c = (Pending, c\<lparr>inbox := []\<rparr>)"
| "cycle_loop (Inl e # ms) c = (Ret (Err (from_auth_error e)), c\<lparr>inbox := ms\<rparr>)"
| "cycle_loop (Inr m # ms) c =
     (let c1 = c\<lparr>inbox := ms\<rparr> in
      case m of
        NotificationResponse pid ch p \<Rightarrow>
          bindc read_until_ready (\<lambda>_. retc (Some (mk_notification pid ch p))) c1
      | ReadyForQuery b \<Rightarrow>
          (case pop_front (c1\<lparr>transaction_status := ready_status b, state := Idle\<rparr>) of
             (n, c2) \<Rightarrow> (Ret (Ok n), c2))
      | NoticeResponse _ \<Rightarrow> cycle_loop ms (snd (handle_async_message m c1))
      | ParameterStatus _ _ \<Rightarrow> cycle_loop ms (snd (handle_async_message m c1))
      | _ \<Rightarrow> cycle_loop ms c1)"

definition wait_for_notification_fallback :: "nat option \<Rightarrow> notification option cm" where
  "wait_for_notification_fallback timeout c =
     (case pop_front c of
        (Some n, c1) \<Rightarrow> (Ret (Ok (Some n)), c1)
      | (None, c1) \<Rightarrow>
          if timeout = Some 0 then (Ret (Ok None), c1)
          else bindc (transition ActiveSimpleQuery) (\<lambda>_. bindc (send_c (Query [])) (\<lambda>_ c.
                 cycle_loop (inbox c) c)) c1)"

subsection \<open>Lemmas\<close>

text \<open>The notifications not yet handed to the application, in the order of arrival.\<close>

definition undelivered :: "connection \<Rightarrow> notification list" where
  "undelivered c = notification_queue c @ notifs (inbox c)"

definition delivered :: "(pg_error, notification option) outcome \<Rightarrow> notification list" where
  "delivered r = (case r of Ret (Inr (Some n)) \<Rightarrow> [n] | _ \<Rightarrow> [])"

lemma lossless_undelivered: "lossless c c' \<Longrightarrow> undelivered c' = undelivered c"
  by (auto simp: lossless_def undelivered_def)

lemma handle_quiet:
  "notif_of m = [] \<Longrightarrow> notification_queue (snd (handle_async_message m c)) = notification_queue c"
  by (simp add: handle_async_queue)

lemma read_next_loop_delivers:
  assumes "inbox c = ms" "notification_queue c = []"
  shows "case read_next_loop ms c of (r, c') \<Rightarrow>
     notifs ms = delivered (map_outcome Some r) @ notifs (inbox c') \<and> notification_queue c' = []"
  using assms
proof (induction ms c rule: read_next_loop.induct)
  case (3 m ms c)
  let ?c1 = "c\<lparr>inbox := ms\<rparr>"
  show ?case
    using 3
    by (cases m) (auto simp: Let_def notif_of_def delivered_def map_outcome_def mk_notification_def handle_quiet
        split: prod.splits)
qed (auto simp: delivered_def map_outcome_def)

lemma cycle_loop_delivers:
  assumes "inbox c = ms" "notification_queue c = []" "cycle_loop ms c = (r, c')"
    and "\<forall>e. r \<noteq> Ret (Inl e)" "r \<noteq> Pending"
  shows "notifs ms = delivered r @ undelivered c'"
  using assms
proof (induction ms arbitrary: c)
  case (Cons x ms)
  show ?case
  proof (cases x)
    case (Inr m)
    let ?c1 = "c\<lparr>inbox := ms\<rparr>"
    show ?thesis
    proof (cases "\<exists>pid ch p. m = NotificationResponse pid ch p")
      case True
      then obtain pid ch p where m: "m = NotificationResponse pid ch p" by blast
      obtain r1 c2 where ru: "read_until_ready ?c1 = (r1, c2)" by fastforce
      have "undelivered c2 = undelivered ?c1"
        using read_until_ready_lossless [of ?c1] ru by (simp add: lossless_undelivered)
      then show ?thesis using Cons.prems Inr m ru
        by (auto simp: bindc_def retc_def delivered_def notif_of_def mk_notification_def undelivered_def
            split: outcome.splits sum.splits)
    next
      case False
      then have n: "notif_of m = []" by (cases m) (auto simp: notif_of_def)
      show ?thesis
      proof (cases "\<exists>b. m = ReadyForQuery b")
        case True
        then show ?thesis using Cons.prems Inr n by (auto simp: pop_front_def delivered_def undelivered_def)
      next
        case nr: False
        define c2 where "c2 = (if is_async m then snd (handle_async_message m ?c1) else ?c1)"
        have "cycle_loop (Inr m # ms) c = cycle_loop ms c2"
          using False nr by (cases m) (simp_all add: c2_def is_async_def)
        moreover have "inbox c2 = ms" "notification_queue c2 = []"
          using Cons.prems Inr n by (simp_all add: c2_def handle_quiet)
        ultimately show ?thesis using Cons.prems(3-5) Inr n Cons.IH [of c2]
          by (simp del: cycle_loop.simps)
      qed
    qed
  qed (use Cons.prems in auto)
qed auto

lemma pop_front_delivers:
  "pop_front c = (n, c') \<Longrightarrow> undelivered c = (case n of None \<Rightarrow> [] | Some x \<Rightarrow> [x]) @ undelivered c' \<and>
     (n = None \<longrightarrow> notification_queue c' = [])"
  by (auto simp: pop_front_def undelivered_def split: list.splits)

lemma timed_read_delivers:
  assumes "notification_queue c = []" "timed_read arrived c = (r, c')"
  shows "undelivered c = delivered r @ undelivered c'"
proof (cases "is_idle c")
  case True
  let ?c = "c\<lparr>inbox := take arrived (inbox c)\<rparr>"
  obtain r1 c1 where rn: "read_next_loop (take arrived (inbox c)) ?c = (r1, c1)" by fastforce
  have "notifs (take arrived (inbox c)) = delivered (map_outcome Some r1) @ notifs (inbox c1)" "notification_queue c1 = []"
    using read_next_loop_delivers [of ?c "take arrived (inbox c)"] rn assms(1) by auto
  moreover have "notifs (inbox c) = notifs (take arrived (inbox c)) @ notifs (drop arrived (inbox c))"
    by (metis append_take_drop_id notifs_simps(4))
  ultimately show ?thesis using assms rn True
    by (auto simp: timed_read_def read_next_notification_blocking_def is_idle_def undelivered_def
        delivered_def map_outcome_def split: outcome.splits sum.splits)
next
  case False
  then show ?thesis using assms
    by (auto simp: timed_read_def read_next_notification_blocking_def is_idle_def undelivered_def
        delivered_def map_outcome_def simp flip: notifs_simps(4))
qed

subsection \<open>Properties\<close>

text \<open>
  C11.  Exactly-once, in-order delivery: for every state of the connection, every message sequence, every
  timeout and every moment at which the deadline fires, the notifications still to be delivered
  before a call of \<open>wait_for_notification\<close> are exactly the one it returns (if any) followed by those
  still to be delivered after it; nothing is lost, repeated or reordered, also when the call times
  out or fails.
\<close>

theorem wait_delivers_in_order:
  assumes "wait_for_notification arrived timeout c = (r, c')"
  shows "undelivered c = delivered r @ undelivered c'"
proof -
  obtain n c1 where p: "pop_front c = (n, c1)" by fastforce
  note pf = pop_front_delivers [OF p]
  show ?thesis
  proof (cases "n = None \<and> timeout = None")
    case True
    obtain r1 c2 where rn: "read_next_notification_blocking c1 = (r1, c2)" by fastforce
    have "notification_queue c1 = []" using True pf by simp
    then have "undelivered c1 = delivered (map_outcome Some r1) @ undelivered c2"
      using rn read_next_loop_delivers [of c1 "inbox c1"]
      by (auto simp: read_next_notification_blocking_def undelivered_def delivered_def map_outcome_def split: if_splits)
    then show ?thesis using True assms p pf rn by (simp add: wait_for_notification_def)
  next
    case False
    consider x where "n = Some x" | "n = None" "timeout = Some 0" | d where "n = None" "timeout = Some d" "0 < d"
      using False by (cases n; cases timeout) auto
    then show ?thesis
    proof cases
      case 3
      then have "timed_read arrived c1 = (r, c')" using assms p by (simp add: wait_for_notification_def)
      then show ?thesis using pf 3 timed_read_delivers by simp
    qed (use assms p pf in \<open>auto simp: wait_for_notification_def delivered_def\<close>)
  qed
qed

theorem wait_delivers_in_order_witness:
  "undelivered (snd (wait_for_notification 1 (Some 5)
     (sample_connection [NoticeResponse [], NotificationResponse 7 (Ok ''ch'') (Ok ''x'')])))
     = [\<lparr> n_process_id = 7, n_channel = ''ch'', n_payload = ''x'' \<rparr>]"
proof -
  let ?c = "sample_connection [NoticeResponse [], NotificationResponse 7 (Ok ''ch'') (Ok ''x'')]"
  obtain r c' where w: "wait_for_notification 1 (Some 5) ?c = (r, c')" by fastforce
  then have "r = Ret (Ok None)"
    by (auto simp: wait_for_notification_def pop_front_def timed_read_def read_next_notification_blocking_def
        is_idle_def Let_def split: prod.splits)
  then show ?thesis using wait_delivers_in_order [OF w] w
    by (simp add: delivered_def undelivered_def notif_of_def unwrap_or_empty_def)
qed

text \<open>
  The same holds for the build without a runtime whenever the call returns: the notification it
  returns is the first one not yet delivered, and those that arrive in the same cycle are queued in
  order behind it.
\<close>

lemma fallback_wait_delivers_in_order:
  assumes "wait_for_notification_fallback timeout c = (Ret (Ok n), c')"
  shows "undelivered c = (case n of None \<Rightarrow> [] | Some x \<Rightarrow> [x]) @ undelivered c'"
proof -
  obtain n0 c1 where p: "pop_front c = (n0, c1)" by fastforce
  note pf = pop_front_delivers [OF p]
  show ?thesis
  proof (cases "n0 = None \<and> timeout \<noteq> Some 0")
    case True
    obtain u c2 where tr: "transition ActiveSimpleQuery c1 = (u, c2)" by fastforce
    obtain v c3 where se: "send_c (Query []) c2 = (v, c3)" by fastforce
    have c: "cycle_loop (inbox c3) c3 = (Ret (Ok n), c')"
    proof (cases "\<exists>x y. u = Ret (Inr x) \<and> v = Ret (Inr y)")
      case ok: True
      then show ?thesis using assms True p tr se by (auto simp: wait_for_notification_fallback_def)
    next
      case no: False
      have "u \<noteq> Pending" "v \<noteq> Pending" using tr send_c_frame(6) [OF se] by (auto simp: transition_def split: if_splits)
      then show ?thesis using assms True p tr se no
        by (cases u; cases v) (auto simp: wait_for_notification_fallback_def bindc_def split: sum.splits)
    qed
    have f: "inbox c3 = inbox c1" "notification_queue c3 = []"
      using tr send_c_frame [OF se] True pf by (auto simp: transition_def split: if_splits)
    show ?thesis using cycle_loop_delivers [OF refl f(2) c] f True pf
      by (cases n) (auto simp: delivered_def undelivered_def)
  next
    case False
    then show ?thesis using assms p pf
      by (auto simp: wait_for_notification_fallback_def split: option.splits if_splits)
  qed
qed

end
