(* ===== verification/Handles.thy ===== *)
theory Handles
  imports Establish Notification
begin

text \<open>
  The handles a client program holds and the builders it configures them with: the methods of \<open>Config\<close>,
  \<open>ReconnectConfig\<close>, \<open>StaleConfig\<close>, \<open>PoolConfig\<close>, \<open>TransactionOptions\<close> and \<open>TlsConfig\<close>, the small
  operations of \<open>Connection\<close>, \<open>SessionState\<close> and \<open>ConnectionHealth\<close>, the guard of a pooled connection
  (\<open>pool/guard.rs\<close>) and the conversions into \<open>PgError\<close>.
\<close>

subsection \<open>Builders\<close>

text \<open>\<open>Config\<close> (\<open>config.rs\<close>).\<close>

definition with_host :: "string \<Rightarrow> config \<Rightarrow> config" where "with_host v c = c\<lparr>host := v\<rparr>"
definition with_port :: "nat \<Rightarrow> config \<Rightarrow> config" where "with_port n c = c\<lparr>port := n\<rparr>"
definition with_user :: "string \<Rightarrow> config \<Rightarrow> config" where "with_user v c = c\<lparr>user := v\<rparr>"
definition with_password :: "string \<Rightarrow> config \<Rightarrow> config" where "with_password v c = c\<lparr>password := Some v\<rparr>"
definition with_database :: "string \<Rightarrow> config \<Rightarrow> config" where "with_database v c = c\<lparr>database := Some v\<rparr>"
definition with_application_name :: "string \<Rightarrow> config \<Rightarrow> config" where
  "with_application_name v c = c\<lparr>application_name := Some v\<rparr>"
definition with_ssl_mode :: "ssl_mode \<Rightarrow> config \<Rightarrow> config" where "with_ssl_mode m c = c\<lparr>ssl_mode := m\<rparr>"
definition with_connect_timeout :: "nat \<Rightarrow> config \<Rightarrow> config" where
  "with_connect_timeout d c = c\<lparr>connect_timeout := Some d\<rparr>"
definition with_statement_timeout :: "nat \<Rightarrow> config \<Rightarrow> config" where
  "with_statement_timeout d c = c\<lparr>statement_timeout := Some d\<rparr>"
definition with_target_session_attrs :: "target_session_attrs \<Rightarrow> config \<Rightarrow> config" where
  "with_target_session_attrs a c = c\<lparr>target_attrs := a\<rparr>"
definition with_accept_invalid_certs :: "bool \<Rightarrow> config \<Rightarrow> config" where
  "with_accept_invalid_certs b c = c\<lparr>accept_invalid_certs := b\<rparr>"
definition with_allow_insecure_auth :: "bool \<Rightarrow> config \<Rightarrow> config" where
  "with_allow_insecure_auth b c = c\<lparr>allow_insecure_auth := b\<rparr>"
definition with_keepalive :: "nat \<Rightarrow> config \<Rightarrow> config" where "with_keepalive d c = c\<lparr>keepalive := Some d\<rparr>"
definition with_reconnect :: "reconnect_config \<Rightarrow> config \<Rightarrow> config" where
  "with_reconnect r c = c\<lparr>reconnect_cfg := r\<rparr>"
definition with_stale :: "stale_config \<Rightarrow> config \<Rightarrow> config" where "with_stale s c = c\<lparr>stale_cfg := s\<rparr>"

text \<open>\<open>ReconnectConfig\<close> and \<open>StaleConfig\<close> (\<open>reconnect/config.rs\<close>).\<close>

definition with_max_attempts :: "nat \<Rightarrow> reconnect_config \<Rightarrow> reconnect_config" where
  "with_max_attempts n r = r\<lparr>max_attempts := n\<rparr>"
definition with_initial_delay :: "nat \<Rightarrow> reconnect_config \<Rightarrow> reconnect_config" where
  "with_initial_delay d r = r\<lparr>initial_delay := d\<rparr>"
definition with_max_delay :: "nat \<Rightarrow> reconnect_config \<Rightarrow> reconnect_config" where
  "with_max_delay d r = r\<lparr>max_delay := d\<rparr>"
definition with_rebuild_session :: "bool \<Rightarrow> reconnect_config \<Rightarrow> reconnect_config" where
  "with_rebuild_session b r = r\<lparr>rebuild_session_flag := b\<rparr>"
definition with_allow_mid_transaction :: "bool \<Rightarrow> reconnect_config \<Rightarrow> reconnect_config" where
  "with_allow_mid_transaction b r = r\<lparr>allow_mid_transaction := b\<rparr>"
definition with_stale_threshold :: "nat \<Rightarrow> stale_config \<Rightarrow> stale_config" where
  "with_stale_threshold d s = s\<lparr>stale_threshold := d\<rparr>"
definition with_ping_on_stale :: "bool \<Rightarrow> stale_config \<Rightarrow> stale_config" where
  "with_ping_on_stale b s = s\<lparr>ping_on_stale := b\<rparr>"

text \<open>\<open>PoolConfig\<close> (\<open>pool/config.rs\<close>).\<close>

definition with_connection :: "config \<Rightarrow> pool_config \<Rightarrow> pool_config" where
  "with_connection c p = p\<lparr>pool_connection := c\<rparr>"
definition with_min_idle :: "nat \<Rightarrow> pool_config \<Rightarrow> pool_config" where "with_min_idle n p = p\<lparr>min_idle := n\<rparr>"
definition with_max_size :: "nat \<Rightarrow> pool_config \<Rightarrow> pool_config" where "with_max_size n p = p\<lparr>max_size := n\<rparr>"
definition with_acquire_timeout :: "nat option \<Rightarrow> pool_config \<Rightarrow> pool_config" where
  "with_acquire_timeout d p = p\<lparr>acquire_timeout := d\<rparr>"
definition with_max_lifetime :: "nat option \<Rightarrow> pool_config \<Rightarrow> pool_config" where
  "with_max_lifetime d p = p\<lparr>max_lifetime := d\<rparr>"
definition with_idle_timeout :: "nat option \<Rightarrow> pool_config \<Rightarrow> pool_config" where
  "with_idle_timeout d p = p\<lparr>idle_timeout := d\<rparr>"
definition with_test_on_acquire :: "bool \<Rightarrow> pool_config \<Rightarrow> pool_config" where
  "with_test_on_acquire b p = p\<lparr>test_on_acquire := b\<rparr>"
definition with_after_connect :: "string \<Rightarrow> pool_config \<Rightarrow> pool_config" where
  "with_after_connect sql p = p\<lparr>after_connect := Some sql\<rparr>"
definition with_before_return :: "string \<Rightarrow> pool_config \<Rightarrow> pool_config" where
  "with_before_return sql p = p\<lparr>before_return := Some sql\<rparr>"

text \<open>\<open>TransactionOptions\<close> (\<open>transaction/options.rs\<close>) and \<open>TlsConfig\<close> (\<open>transport/tls.rs\<close>).\<close>

definition with_isolation_level :: "isolation_level \<Rightarrow> transaction_options \<Rightarrow> transaction_options" where
  "with_isolation_level l opts = opts\<lparr>isolation_level := Some l\<rparr>"
definition with_read_only :: "bool \<Rightarrow> transaction_options \<Rightarrow> transaction_options" where
  "with_read_only b opts = opts\<lparr>read_only := Some b\<rparr>"
definition with_deferrable :: "bool \<Rightarrow> transaction_options \<Rightarrow> transaction_options" where
  "with_deferrable b opts = opts\<lparr>deferrable := Some b\<rparr>"

definition with_mode :: "ssl_mode \<Rightarrow> tls_options \<Rightarrow> tls_options" where "with_mode m c = c\<lparr>tls_mode := m\<rparr>"
definition with_server_name :: "string \<Rightarrow> tls_options \<Rightarrow> tls_options" where
  "with_server_name n c = c\<lparr>server_name := n\<rparr>"
definition with_ca_cert :: "bytes \<Rightarrow> tls_options \<Rightarrow> tls_options" where "with_ca_cert b c = c\<lparr>ca_cert := Some b\<rparr>"
definition with_client_cert :: "bytes \<Rightarrow> tls_options \<Rightarrow> tls_options" where
  "with_client_cert b c = c\<lparr>client_cert := Some b\<rparr>"
definition with_client_key :: "bytes \<Rightarrow> tls_options \<Rightarrow> tls_options" where
  "with_client_key b c = c\<lparr>client_key := Some b\<rparr>"
definition with_invalid_certs :: "bool \<Rightarrow> tls_options \<Rightarrow> tls_options" where
  "with_invalid_certs b c = c\<lparr>tls_accept_invalid_certs := b\<rparr>"

subsection \<open>Connections\<close>

definition session_clear_init_sql :: "session_state \<Rightarrow> session_state" where
  "session_clear_init_sql s = s\<lparr>reconnect_init_sql := None\<rparr>"

definition clear_reconnect_init_sql :: "connection \<Rightarrow> connection" where
  "clear_reconnect_init_sql c = c\<lparr>session_state := session_clear_init_sql (session_state c)\<rparr>"

definition drain_notifications :: "connection \<Rightarrow> notification list \<times> connection" where
  "drain_notifications c = (notification_queue c, c\<lparr>notification_queue := []\<rparr>)"

definition set_notice_handler :: "connection \<Rightarrow> connection" where
  "set_notice_handler c = c\<lparr>notice_handler := True\<rparr>"

definition clear_notice_handler :: "connection \<Rightarrow> connection" where
  "clear_notice_handler c = c\<lparr>notice_handler := False\<rparr>"

definition increment_reconnect_count :: "connection_health \<Rightarrow> connection_health" where
  "increment_reconnect_count h = h\<lparr>reconnect_count := reconnect_count h + 1\<rparr>"

definition set_needs_recovery :: "bool \<Rightarrow> connection_health \<Rightarrow> connection_health" where
  "set_needs_recovery b h = h\<lparr>h_needs_recovery := b\<rparr>"

definition wait_for_notification_with_timeout :: "nat \<Rightarrow> nat \<Rightarrow> notification option cm" where
  "wait_for_notification_with_timeout arrived timeout = wait_for_notification arrived (Some timeout)"

definition new_extended :: row_stream where
  "new_extended = \<lparr> rs_columns = None, rs_state = WaitingForDescription, extended_protocol = True,
                    rows_fetched = 0 \<rparr>"

text \<open>\<open>CancelToken::cancel\<close>.\<close>

definition cancel_now where
  "cancel_now target os clock handshake lossy faults tok =
     cancel_with_timeout target os clock handshake lossy faults None tok"

subsection \<open>TLS\<close>

text \<open>\<open>epoch\<close> is what \<open>SystemTime::now().duration_since(UNIX_EPOCH)\<close> returns.\<close>

definition check_time_available :: "(string, nat) res \<Rightarrow> (transport_error, unit) res" where
  "check_time_available epoch =
     (case epoch of
        Inl e \<Rightarrow> Err (TeTlsHandshake (''SystemTime::now() is not available on this platform. ''
                   @ ''TLS certificate validation requires the current time. '' @ ''Error: '' @ e))
      | Inr d \<Rightarrow> Ok ())"

text \<open>\<open>negotiate_tls\<close> of a crate compiled without the \<open>tls\<close> feature.\<close>

definition negotiate_tls_disabled :: "'t \<Rightarrow> tls_config \<Rightarrow> (transport_error, ('t buffered, 's) pg_transport) res" where
  "negotiate_tls_disabled t c =
     (if tls_mode c = Disable then Ok (Plain (buffered_new t))
      else Err (TeTlsHandshake (''TLS support is not compiled in. Enable the 'tls' feature flag.'')))"

record tls_info =
  ti_protocol_version :: "string option"
  ti_cipher_suite :: "string option"
  ti_peer_certificate :: "bytes option"

text \<open>What the TLS library reports of its session is the argument \<open>info\<close>.\<close>

definition tls_info_of :: "('s \<Rightarrow> tls_info) \<Rightarrow> ('t, 's) pg_transport \<Rightarrow> tls_info option" where
  "tls_info_of info t = (case t of Tls s \<Rightarrow> Some (info s) | Plain _ \<Rightarrow> None)"

subsection \<open>The guard of a pooled connection\<close>

text \<open>
  A guard holds the connection until it is released, detached or dropped.  Using a guard that holds none
  panics; every method that consumes the guard ends in its \<open>Drop\<close>.
\<close>

record pool_guard =
  guard_acquired :: "acquired_connection option"

definition released_panic :: string where "released_panic = ''PoolGuard already released''"

definition guard_new :: "pooled_connection \<Rightarrow> pool_guard" where
  "guard_new pc = \<lparr> guard_acquired = Some \<lparr> ac_connection = pc_connection pc, ac_created_at = created_at pc \<rparr> \<rparr>"

definition guard_new_fresh :: "nat \<Rightarrow> connection \<Rightarrow> pool_guard" where
  "guard_new_fresh t c = \<lparr> guard_acquired = Some \<lparr> ac_connection = c, ac_created_at = t \<rparr> \<rparr>"

definition guard_is_active :: "pool_guard \<Rightarrow> bool" where
  "guard_is_active g = (guard_acquired g \<noteq> None)"

definition guard_deref :: "pool_guard \<Rightarrow> (string, connection) res" where
  "guard_deref g = (case guard_acquired g of None \<Rightarrow> Err released_panic | Some a \<Rightarrow> Ok (ac_connection a))"

text \<open>What the holder does through \<open>conn\<close> or \<open>deref_mut\<close>.\<close>

definition guard_conn :: "(connection \<Rightarrow> connection) \<Rightarrow> pool_guard \<Rightarrow> (string, pool_guard) res" where
  "guard_conn f g =
     (case guard_acquired g of
        None \<Rightarrow> Err released_panic
      | Some a \<Rightarrow> Ok (g\<lparr>guard_acquired := Some (a\<lparr>ac_connection := f (ac_connection a)\<rparr>)\<rparr>))"

definition guard_drop :: "nat \<Rightarrow> pool_guard \<Rightarrow> pool \<Rightarrow> pool" where
  "guard_drop t g p = (case guard_acquired g of None \<Rightarrow> p | Some a \<Rightarrow> drop_guard t a p)"

text \<open>\<open>release\<close> starts a task of the pool, if the guard holds a connection.\<close>

definition guard_release :: "nat \<Rightarrow> pool_guard \<Rightarrow> pool \<Rightarrow> task \<times> pool" where
  "guard_release t g p =
     (case guard_acquired g of
        None \<Rightarrow> (Finished, guard_drop t g p)
      | Some a \<Rightarrow> (release_with_metadata a, guard_drop t (g\<lparr>guard_acquired := None\<rparr>) p))"

definition guard_detach :: "nat \<Rightarrow> pool_guard \<Rightarrow> pool \<Rightarrow> (string, connection \<times> pool) res" where
  "guard_detach t g p =
     (case guard_acquired g of
        None \<Rightarrow> Err released_panic
      | Some a \<Rightarrow> (case detach a p of (c, p1) \<Rightarrow> Ok (c, guard_drop t (g\<lparr>guard_acquired := None\<rparr>) p1)))"

subsection \<open>Errors\<close>

text \<open>\<open>std::error::Error::source\<close> of \<open>PgError\<close>, and the conversions the \<open>?\<close> operator applies.\<close>

datatype source_error =
    SrcServer server_error | SrcProtocol protocol_error | SrcTransport transport_error
  | SrcTypeConversion type_error | SrcIo io_error | SrcPool pool_error_variant | SrcTls string

fun error_source :: "pg_error \<Rightarrow> source_error option" where
  "error_source (PgServer e) = Some (SrcServer e)"
| "error_source (PgProtocol e) = Some (SrcProtocol e)"
| "error_source (PgTransport e) = Some (SrcTransport e)"
| "error_source (PgTypeConversion e) = Some (SrcTypeConversion e)"
| "error_source (PgIo e) = Some (SrcIo e)"
| "error_source (PgPool e) = Some (SrcPool e)"
| "error_source (PgTls e) = Some (SrcTls e)"
| "error_source _ = None"

fun show_source :: "source_error \<Rightarrow> string" where
  "show_source (SrcServer e) = show_server_error e"
| "show_source (SrcProtocol e) = show_protocol_error e"
| "show_source (SrcTransport e) = show_transport_error e"
| "show_source (SrcTypeConversion e) = show_type_error e"
| "show_source (SrcIo e) = io_message e"
| "show_source (SrcPool e) = show_pool_error_variant e"
| "show_source (SrcTls e) = e"

subsection \<open>Lemmas: configurations and connection strings\<close>

text \<open>
  The reference printer of a configuration.  What a connection string can say is what \<open>expressible\<close>
  asks for: whole seconds and milliseconds within 64 bits, no quote characters, no option that is
  the name of a setting, and the defaults for the settings only a builder can change.
\<close>

fun show_target :: "target_session_attrs \<Rightarrow> string" where
  "show_target Any = ''any''"
| "show_target ReadWrite = ''read-write''"
| "show_target ReadOnly = ''read-only''"

definition opt_item :: "string \<Rightarrow> string option \<Rightarrow> (string \<times> string) list" where
  "opt_item k v = (case v of None \<Rightarrow> [] | Some s \<Rightarrow> [(k, s)])"

definition in_secs :: "nat \<Rightarrow> nat" where "in_secs d = d div 1000000000"
definition in_millis :: "nat \<Rightarrow> nat" where "in_millis d = d div 1000000"

definition reconnect_items :: "reconnect_config \<Rightarrow> stale_config \<Rightarrow> (string \<times> string) list" where
  "reconnect_items r s =
     [(''reconnect'', show_bool (enabled r)), (''reconnect_max_attempts'', show_nat (max_attempts r)),
      (''reconnect_initial_delay_ms'', show_nat (in_millis (initial_delay r))),
      (''reconnect_max_delay_ms'', show_nat (in_millis (max_delay r))),
      (''stale_threshold_secs'', show_nat (in_secs (stale_threshold s)))]"

definition config_items :: "config \<Rightarrow> (string \<times> string) list" where
  "config_items c =
     [(''host'', host c), (''port'', show_nat (port c)), (''user'', user c)]
     @ opt_item ''password'' (password c) @ opt_item ''dbname'' (database c)
     @ opt_item ''application_name'' (application_name c) @ [(''sslmode'', show_ssl_mode (ssl_mode c))]
     @ opt_item ''connect_timeout'' (map_option (\<lambda>d. show_nat (in_secs d)) (connect_timeout c))
     @ [(''target_session_attrs'', show_target (target_attrs c))]
     @ reconnect_items (reconnect_cfg c) (stale_cfg c) @ options c"

definition setting_names :: "string list" where
  "setting_names = [''host'', ''port'', ''user'', ''password'', ''dbname'', ''database'', ''application_name'',
     ''sslmode'', ''connect_timeout'', ''target_session_attrs''] @ reconnect_keys"

definition whole_secs :: "nat \<Rightarrow> bool" where
  "whole_secs d = (secs (in_secs d) = d \<and> in_secs d \<le> u64_max)"

definition whole_millis :: "nat \<Rightarrow> bool" where
  "whole_millis d = (millis (in_millis d) = d \<and> in_millis d \<le> u64_max)"

definition expressible :: "config \<Rightarrow> bool" where
  "expressible c =
     (port c \<le> u16_max \<and> pred_option (whole_secs) (connect_timeout c) \<and> statement_timeout c = None
      \<and> \<not> accept_invalid_certs c \<and> \<not> allow_insecure_auth c \<and> keepalive c = None
      \<and> max_attempts (reconnect_cfg c) \<le> u32_max \<and> whole_millis (initial_delay (reconnect_cfg c))
      \<and> whole_millis (max_delay (reconnect_cfg c)) \<and> rebuild_session_flag (reconnect_cfg c)
      \<and> \<not> allow_mid_transaction (reconnect_cfg c) \<and> \<not> on_before_reconnect (reconnect_cfg c)
      \<and> whole_secs (stale_threshold (stale_cfg c)) \<and> ping_on_stale (stale_cfg c)
      \<and> list_all (\<lambda>(k, v). k \<notin> set setting_names) (options c)
      \<and> list_all (\<lambda>(k, v). plain_key k \<and> plain_value v) (config_items c))"

lemma parse_bool_show [simp]: "parse_bool (show_bool b) = Some b"
  by (simp add: parse_bool_def show_bool_def)

lemma target_session_attrs_show [simp]: "target_session_attrs_from_str (show_target a) = Ok a"
  by (cases a) (simp_all add: target_session_attrs_from_str_def to_lowercase_def to_lower_def Let_def)

lemma set_keys_append: "set_keys (xs @ ys) c = bind_res (set_keys xs c) (set_keys ys)"
  by (induction xs arbitrary: c) (auto simp: bind_res_def split: sum.splits)

text \<open>Every setting of a connection string is the builder of that name.\<close>

lemma set_key_builder:
  "set_key ''host'' v c = Ok (with_host v c)"
  "n \<le> u16_max \<Longrightarrow> set_key ''port'' (show_nat n) c = Ok (with_port n c)"
  "set_key ''user'' v c = Ok (with_user v c)"
  "set_key ''password'' v c = Ok (with_password v c)"
  "set_key ''dbname'' v c = Ok (with_database v c)"
  "set_key ''application_name'' v c = Ok (with_application_name v c)"
  "set_key ''sslmode'' (show_ssl_mode m) c = Ok (with_ssl_mode m c)"
  "whole_secs d \<Longrightarrow> set_key ''connect_timeout'' (show_nat (in_secs d)) c = Ok (with_connect_timeout d c)"
  "set_key ''target_session_attrs'' (show_target a) c = Ok (with_target_session_attrs a c)"
  by (simp_all add: set_key_def with_host_def with_port_def with_user_def with_password_def with_database_def
      with_application_name_def with_ssl_mode_def with_connect_timeout_def with_target_session_attrs_def
      ssl_mode_round_trip set_connect_timeout_def whole_secs_def bind_res_def)

lemma set_key_reconnect:
  "set_key ''reconnect'' (show_bool b) c = Ok (c\<lparr>reconnect_cfg := (reconnect_cfg c)\<lparr>enabled := b\<rparr>\<rparr>)"
  "n \<le> u32_max \<Longrightarrow> set_key ''reconnect_max_attempts'' (show_nat n) c = Ok (max_reconnect_attempts n c)"
  "n \<le> u64_max \<Longrightarrow> set_key ''reconnect_initial_delay_ms'' (show_nat n) c =
     Ok (with_reconnect (with_initial_delay (millis n) (reconnect_cfg c)) c)"
  "n \<le> u64_max \<Longrightarrow> set_key ''reconnect_max_delay_ms'' (show_nat n) c =
     Ok (with_reconnect (with_max_delay (millis n) (reconnect_cfg c)) c)"
  "n \<le> u64_max \<Longrightarrow> set_key ''stale_threshold_secs'' (show_nat n) c = Ok (set_stale_threshold (secs n) c)"
  by (simp_all add: set_key_def reconnect_keys_def set_reconnect_def parse_reconnect_params_def
      max_reconnect_attempts_def with_reconnect_def with_initial_delay_def with_max_delay_def set_stale_threshold_def)

lemma set_reconnect_items:
  assumes "max_attempts r \<le> u32_max" "whole_millis (initial_delay r)" "whole_millis (max_delay r)"
    and "whole_secs (stale_threshold s)"
  shows "set_keys (reconnect_items r s) c =
    Ok (c\<lparr>reconnect_cfg := (reconnect_cfg c)\<lparr>enabled := enabled r, max_attempts := max_attempts r,
             initial_delay := initial_delay r, max_delay := max_delay r\<rparr>,
           stale_cfg := (stale_cfg c)\<lparr>stale_threshold := stale_threshold s\<rparr>\<rparr>)"
  using assms
  by (simp add: reconnect_items_def set_key_reconnect whole_millis_def whole_secs_def bind_res_def
      max_reconnect_attempts_def with_reconnect_def with_initial_delay_def with_max_delay_def set_stale_threshold_def)

lemma set_keys_options:
  "list_all (\<lambda>(k, v). k \<notin> set setting_names) kvs \<Longrightarrow> set_keys kvs c = Ok (c\<lparr>options := options c @ kvs\<rparr>)"
  by (induction kvs arbitrary: c) (auto simp: set_key_def setting_names_def add_option_def bind_res_def)

lemma set_keys_opt:
  "(\<And>s. v = Some s \<Longrightarrow> set_key k s c = Ok (f s c)) \<Longrightarrow>
   set_keys (opt_item k v) c = Ok (case v of None \<Rightarrow> c | Some s \<Rightarrow> f s c)"
  by (auto simp: opt_item_def bind_res_def split: option.splits)

lemma set_keys_timeout:
  "pred_option (whole_secs) v \<Longrightarrow>
   set_keys (opt_item ''connect_timeout'' (map_option (\<lambda>d. show_nat (in_secs d)) v)) c =
   Ok (case v of None \<Rightarrow> c | Some d \<Rightarrow> with_connect_timeout d c)"
  by (cases v) (simp_all add: opt_item_def bind_res_def set_key_builder)

lemmas builder_defs = with_host_def with_port_def with_user_def with_password_def with_database_def
  with_application_name_def with_ssl_mode_def with_connect_timeout_def with_target_session_attrs_def

text \<open>Printing and parsing a configuration: any expressible configuration is read back unchanged.\<close>

lemma config_string_round_trip:
  assumes "expressible c"
  shows "from_key_value (join '' '' (map quote_item (config_items c))) = Ok c"
proof -
  note e = assms [unfolded expressible_def]
  have "\<forall>(k, v)\<in>set (config_items c). plain_key k \<and> plain_value v" using e by (simp add: list_all_iff)
  then have "from_key_value (join '' '' (map quote_item (config_items c))) = set_keys (config_items c) config_new"
    by (rule from_key_value_items)
  also have "\<dots> = Ok c"
    using e unfolding config_items_def
    by (simp add: set_keys_append bind_res_def set_key_builder set_keys_timeout set_reconnect_items set_keys_options
        set_keys_opt [where f = with_password] set_keys_opt [where f = with_database]
        set_keys_opt [where f = with_application_name])
      (auto simp: builder_defs config_new_def default_reconnect_config_def default_stale_config_def
        intro!: config.equality reconnect_config.equality stale_config.equality split: option.splits)
  finally show ?thesis .
qed

subsection \<open>Lemmas: pool, transaction and TLS builders\<close>

lemma validate_built:
  "validate (with_max_size n (with_min_idle m cfg)) = Ok () \<longleftrightarrow> 0 < n \<and> m \<le> n"
  by (auto simp: validate_def with_max_size_def with_min_idle_def)

text \<open>The order of the builders does not matter for the statement, only the last value of each does.\<close>

lemma begin_sql_built:
  "to_begin_sql (with_deferrable d (with_read_only ro (with_isolation_level l opts))) =
     ''BEGIN ISOLATION LEVEL '' @ isolation_as_str l @ (if ro then '' READ ONLY'' else '' READ WRITE'')
     @ (if d then '' DEFERRABLE'' else [])"
  "with_isolation_level l (with_read_only ro opts) = with_read_only ro (with_isolation_level l opts)"
  "with_isolation_level l (with_deferrable d opts) = with_deferrable d (with_isolation_level l opts)"
  "with_read_only ro (with_deferrable d opts) = with_deferrable d (with_read_only ro opts)"
  by (simp_all add: to_begin_sql_def with_deferrable_def with_read_only_def with_isolation_level_def)

lemma invalid_certs_win:
  "verification_policy (tls_config.truncate (with_mode m (with_invalid_certs True c))) = InsecureNoVerify"
  "m \<noteq> Require \<Longrightarrow>
   verification_policy (tls_config.truncate (with_mode m (with_invalid_certs False c))) \<noteq> InsecureNoVerify"
  by (simp_all add: verification_policy_def with_mode_def with_invalid_certs_def tls_config.truncate_def)

text \<open>Without a clock nothing is sent: the negotiation fails before the request for TLS.\<close>

lemma no_clock_no_negotiation:
  "negotiate_tls (check_time_available (Inl e)) rx wa fl handshake lossy t c =
     negotiate_tls (check_time_available (Inl e)) rx wa' fl handshake lossy t c"
  "\<exists>m. negotiate_tls (check_time_available (Inl e)) rx wa fl handshake lossy t c = Err (TeTlsHandshake m)"
  by (simp_all add: negotiate_tls_def check_time_available_def)

text \<open>A crate without TLS never falls back: a mode other than \<open>disable\<close> is an error, \<open>prefer\<close> included.\<close>

lemma disabled_never_falls_back:
  "negotiate_tls_disabled t c = Ok tr \<Longrightarrow> tls_mode c = Disable \<and> \<not> is_tls tr \<and> tls_info_of info tr = None"
  by (auto simp: negotiate_tls_disabled_def is_tls_def tls_info_of_def split: if_splits)

lemma tls_info_iff: "tls_info_of info tr \<noteq> None \<longleftrightarrow> is_tls tr"
  by (cases tr) (simp_all add: tls_info_of_def is_tls_def)

subsection \<open>Lemmas: connections\<close>

text \<open>Draining hands over exactly the queue: nothing is lost between it and what is still to come.\<close>

lemma drain_notifications_lossless:
  "drain_notifications c = (ns, c') \<Longrightarrow> undelivered c = ns @ undelivered c' \<and> notification_queue c' = []"
  by (auto simp: drain_notifications_def undelivered_def)

lemma notice_handler_sees:
  "notices (handle_notice n (set_notice_handler c)) = notices c @ [n]"
  "notices (handle_notice n (clear_notice_handler c)) = notices c"
  by (simp_all add: handle_notice_def set_notice_handler_def clear_notice_handler_def)

lemma clear_init_sql_undoes:
  "clear_reconnect_init_sql (set_reconnect_init_sql sql c) = clear_reconnect_init_sql c"
  "is_reconnect_safe (session_state (clear_reconnect_init_sql c)) = is_reconnect_safe (session_state c)"
  by (simp_all add: clear_reconnect_init_sql_def set_reconnect_init_sql_def session_clear_init_sql_def
      is_reconnect_safe_def has_state_def)

text \<open>The count of reconnections is a 32-bit counter: it returns to zero after its largest value.\<close>

lemma reconnect_count_wraps:
  "reconnect_count ((increment_reconnect_count ^^ n) h) = reconnect_count h + of_nat n"
  by (induction n) (simp_all add: increment_reconnect_count_def)

text \<open>A reconnection settles what recovery was needed and counts as one.\<close>

lemma reset_settles_recovery:
  "reset_after_reconnect t (set_needs_recovery b h) =
     mark_alive t (increment_reconnect_count (set_needs_recovery False h))"
  by (simp add: reset_after_reconnect_def set_needs_recovery_def mark_alive_def increment_reconnect_count_def)

text \<open>\<open>cancel\<close> makes the request \<open>cancel_with_timeout\<close> makes without a limit: only the backend key is sent.\<close>

lemma cancel_now_sends:
  "cancel_now target os clock handshake lossy faults tok = Ok ch \<Longrightarrow>
   outbox ch = [CancelRequest (ct_process_id tok) (ct_secret_key tok)] \<and> shut_down ch"
  unfolding cancel_now_def by (elim cancel_over) simp

subsection \<open>Lemmas: settings without effect\<close>

text \<open>
  What connecting depends on.  The attributes a session is asked to have and the interval between
  keep-alive probes are stored in the configuration and never consulted: whatever they are, the
  connection is opened, or fails, in the same way, to a read-only server as well.
\<close>

definition same_credentials :: "config \<Rightarrow> config \<Rightarrow> bool" where
  "same_credentials c c' = (user c = user c' \<and> password c = password c' \<and> allow_insecure_auth c = allow_insecure_auth c')"

lemma authenticate_credentials:
  "same_credentials c c' \<Longrightarrow> authenticate l h c ch = authenticate l h c' ch"
proof (induction l h c ch rule: authenticate.induct)
  case (1 l h c ch)
  have s: "cleartext_auth c = cleartext_auth c'" "md5_auth h c = md5_auth h c'" "scram_auth l c = scram_auth l c'"
    "allow_insecure_auth c = allow_insecure_auth c'"
    using 1(4) by (auto simp: same_credentials_def cleartext_auth_def md5_auth_def scram_auth_def fun_eq_iff split: option.splits)
  note IH = 1(1) [OF sym refl refl refl _ sym refl 1(4), unfolded s] 1(2) [OF sym refl refl refl _ sym refl 1(4), unfolded s]
    1(3) [OF sym refl refl refl refl sym refl refl 1(4), unfolded s]
  show ?case unfolding authenticate.simps [of l h c ch] authenticate.simps [of l h c' ch] s
    by (auto simp: s intro: IH split: prod.splits outcome.splits sum.splits backend_message.splits)
qed

definition same_endpoint :: "config \<Rightarrow> config \<Rightarrow> bool" where
  "same_endpoint c c' = (host c = host c' \<and> port c = port c' \<and> connect_timeout c = connect_timeout c' \<and>
     ssl_mode c = ssl_mode c' \<and> accept_invalid_certs c = accept_invalid_certs c')"

lemma build_endpoint:
  "same_endpoint c c' \<Longrightarrow>
   build_pg_transport target os clock handshake lossy c = build_pg_transport target os clock handshake lossy c'"
  by (simp add: build_pg_transport_def apply_tls_def same_endpoint_def cong: if_cong)

definition at_config :: "config \<Rightarrow> (pg_error, connection) outcome \<Rightarrow> (pg_error, connection) outcome" where
  "at_config cfg r = (case r of Ret (Inr x) \<Rightarrow> Ret (Ok (x\<lparr>conn_config := cfg\<rparr>)) | _ \<Rightarrow> r)"

lemma connect_depends:
  assumes "startup_params c = startup_params c'" "same_credentials c c'"
  shows "connect l h t ds d c = at_config c (connect l h t ds d c')"
proof -
  have "authenticate l h c ch = authenticate l h c' ch" for ch :: channel
    by (rule authenticate_credentials [OF assms(2)])
  then show ?thesis
    unfolding connect_def assms(1) by (auto simp: at_config_def init_connection_def split: sum.splits prod.splits outcome.splits)
qed

lemma session_attrs_ignored:
  fixes cfg a d
  defines "c \<equiv> with_target_session_attrs a (with_keepalive d cfg)"
  shows "connect_over l h t ds answers faults (build_pg_transport target os clock handshake lossy c) c =
     at_config c
       (connect_over l h t ds answers faults (build_pg_transport target os clock handshake lossy cfg) cfg)"
proof -
  have "startup_params c = startup_params cfg" "same_credentials c cfg" "same_endpoint c cfg"
    by (simp_all add: c_def with_target_session_attrs_def with_keepalive_def startup_params_def
        same_credentials_def same_endpoint_def split: option.splits)
  then show ?thesis unfolding connect_over_def by (simp add: build_endpoint [of c cfg] connect_depends [of c cfg])
qed

subsection \<open>Lemmas: guards\<close>

definition guard_of :: "task \<Rightarrow> pool_guard option" where
  "guard_of tk = (case tk of Holding a \<Rightarrow> Some \<lparr> guard_acquired = Some a \<rparr> | _ \<Rightarrow> None)"

lemma guard_of_iff: "guard_of tk = Some g \<longleftrightarrow> (\<exists>a. tk = Holding a \<and> g = \<lparr> guard_acquired = Some a \<rparr>)"
  by (auto simp: guard_of_def split: task.splits)

lemma claimed_guard: "guard_of (Holding (fst (claim pc p))) = Some (guard_new pc)"
  by (simp add: guard_of_def claim_def guard_new_def)

lemma guard_panics_iff:
  "guard_deref g = Err released_panic \<longleftrightarrow> \<not> guard_is_active g"
  "guard_conn f g = Err released_panic \<longleftrightarrow> \<not> guard_is_active g"
  "guard_detach t g p = Err released_panic \<longleftrightarrow> \<not> guard_is_active g"
  by (auto simp: guard_deref_def guard_conn_def guard_detach_def guard_is_active_def split: option.splits prod.splits)

lemma guard_conn_deref:
  "guard_deref g = Ok c \<Longrightarrow> \<exists>g'. guard_conn f g = Ok g' \<and> guard_deref g' = Ok (f c)"
  by (auto simp: guard_deref_def guard_conn_def split: option.splits)

text \<open>Each way of using or ending a guard is one step of the pool, its implicit \<open>Drop\<close> included.\<close>

lemma guard_is_pool_step:
  assumes "i < length ts" "guard_of (ts ! i) = Some g"
  shows "\<exists>a. guard_conn f g = Ok \<lparr> guard_acquired = Some a \<rparr> \<and> pool_step k (p, ts) (p, ts[i := Holding a])"
    and "guard_release t g p = (tk, p') \<Longrightarrow> pool_step k (p, ts) (p', ts[i := tk])"
    and "\<exists>c p'. guard_detach t g p = Ok (c, p') \<and> guard_deref g = Ok c \<and> pool_step k (p, ts) (p', ts[i := Finished])"
    and "pool_step k (p, ts) (guard_drop t g p, ts[i := Finished])"
proof -
  obtain a where a: "ts ! i = Holding a" "g = \<lparr> guard_acquired = Some a \<rparr>" using assms(2) by (auto simp: guard_of_iff)
  show "\<exists>a. guard_conn f g = Ok \<lparr> guard_acquired = Some a \<rparr> \<and> pool_step k (p, ts) (p, ts[i := Holding a])"
    using a pool_step.use [OF assms(1) a(1)] by (simp add: guard_conn_def)
  show "guard_release t g p = (tk, p') \<Longrightarrow> pool_step k (p, ts) (p', ts[i := tk])"
    using a pool_step.release [OF assms(1) a(1)] by (auto simp: guard_release_def guard_drop_def)
  show "\<exists>c p'. guard_detach t g p = Ok (c, p') \<and> guard_deref g = Ok c \<and> pool_step k (p, ts) (p', ts[i := Finished])"
    using a pool_step.detach [OF assms(1) a(1)] by (auto simp: guard_detach_def guard_deref_def guard_drop_def Pool.detach_def)
  show "pool_step k (p, ts) (guard_drop t g p, ts[i := Finished])"
    using a pool_step.drop [OF assms(1) a(1)] by (simp add: guard_drop_def)
qed

subsection \<open>Lemmas: errors\<close>

text \<open>An error with a source shows its source last, after what kind of error it is.\<close>

lemma source_shown:
  "error_source e = Some s \<Longrightarrow> \<exists>pre. pre \<noteq> [] \<and> show_pg_error e = pre @ show_source s"
  by (cases e) auto

lemma broken_or_retryable_source:
  "is_connection_broken e \<or> is_retryable e \<Longrightarrow> error_source e = None \<Longrightarrow> e \<in> {PgConnectionClosed, PgTimeout}"
  by (cases e) auto

subsection \<open>Properties\<close>

text \<open>
  C40.  A key-value connection string connects with what it says: let a configuration be printed as items
  \<open>key='value'\<close>, the documented keys with its host, port, user, password, database, application name,
  SSL mode, timeouts, reconnection and session settings and its options, whose values may contain blanks (of
  any kind), equals signs and anything else but the quote.  When the URL parser refuses the string, which
  has no scheme, \<open>connect_str\<close> dials with exactly that configuration and returns what \<open>connect\<close> returns
  for it.
\<close>

theorem connect_str_settings:
  assumes "expressible c" "url_parse (join '' '' (map quote_item (config_items c))) = Err m"
  shows "connect_str l h t ds dial url_parse (join '' '' (map quote_item (config_items c))) = connect l h t ds (dial c) c"
  using assms(2) config_string_round_trip [OF assms(1)] by (simp add: connect_str_def from_uri_def)

definition sample_config :: config where
  "sample_config = with_application_name ''a = b'' (with_password [CHR 0xC2, CHR 0xA0, CHR ''x''] (with_user ''joe'' (with_host ''db.example'' config_new)))"

lemma plain_value_show_nat [simp]: "plain_value (show_nat n)"
proof -
  have d: "digit_char d \<noteq> CHR 0x27" if "d < 10" for d
  proof
    assume "digit_char d = CHR 0x27"
    then have "(of_char (digit_char d) :: nat) = 39" by simp
    then show False using digit_char_bounds [OF that] by simp
  qed
  have "CHR 0x27 \<notin> set (show_nat n)" using show_nat_digits d by metis
  then show ?thesis by (simp add: plain_value_def)
qed

lemma sample_config_expressible: "expressible sample_config"
  by (simp add: expressible_def sample_config_def config_new_def builder_defs default_reconnect_config_def default_stale_config_def
      u16_max_def u32_max_def u64_max_def whole_millis_def whole_secs_def in_millis_def in_secs_def millis_def secs_def
      config_items_def reconnect_items_def opt_item_def show_bool_def)
    (simp add: plain_key_def plain_value_def is_cont_def is_ws_def)

theorem connect_str_settings_witness:
  "connect_str sample_scram (\<lambda>_ _ _. ''md5'') 0 [] (\<lambda>cfg. Err (PgConfig (host cfg @ user cfg @ the (password cfg)))) (\<lambda>_. Err ''relative URL without a base'')
      (join '' '' (map quote_item (config_items sample_config))) =
    Ret (Err (PgConfig (''db.examplejoe'' @ [CHR 0xC2, CHR 0xA0, CHR ''x''])))"
  using connect_str_settings [OF sample_config_expressible, of "\<lambda>_. Err ''relative URL without a base''"
      "''relative URL without a base''" sample_scram "\<lambda>_ _ _. ''md5''" 0 "[]"
      "\<lambda>cfg. Err (PgConfig (host cfg @ user cfg @ the (password cfg)))"]
  by (simp add: connect_def sample_config_def builder_defs)

end
