(* ===== verification/Spec2Isabelle.thy ===== *)
theory Spec2Isabelle
  imports Statement_Cache Calls Extern_Types Tracing Wire Handles
begin

text \<open>
  Verification library for the PostgreSQL client \<open>pg-client\<close> (\<open>src/crates/pg-client/src\<close>).

  The program.  A \<open>Connection\<close> (\<open>connection.rs\<close>) owns a codec (\<open>protocol/\<close>, \<open>auth/mod.rs\<close>) over a transport
  (\<open>transport/\<close>), authenticates (\<open>auth/\<close>), and runs simple queries, parametrised and prepared statements,
  pipelines, cursors (\<open>query/\<close>), COPY (\<open>copy/\<close>), transactions (\<open>transaction/\<close>) and notifications
  (\<open>notification.rs\<close>) on it, one protocol state machine per connection.  Around it are reconnection and
  retry (\<open>reconnect/\<close>), out-of-band cancellation (\<open>cancel.rs\<close>) and a pool shared by tasks (\<open>pool/\<close>).
  Configuration, errors, SQL text, the statement cache and value encoding are pure.

  How it is modelled.  A pure function is a HOL function; a method of a connection is a function
  \<open>connection \<Rightarrow> (pg_error, 'a) outcome \<times> connection\<close> (type \<open>'a cm\<close>).  The field \<open>inbox\<close> holds the results of
  the coming calls of \<open>read_message\<close>, \<open>outbox\<close> the messages sent, \<open>write_faults\<close> the outcomes of the coming
  writes, \<open>dials\<close> those of the coming dials; \<open>Pending\<close> is the result of an operation that waits for a message
  that does not come.  Every \<open>?\<close>, early return and panic of the source is a branch.  Loops over messages
  recurse on the inbox and always end; there is no fuel.  The tasks that share the pool take steps, one
  per critical section or awaited call, interleaved in any order.  Machine integers are words, or
  numbers with the bound written out, where they can wrap or overflow; the counter of statement and portal
  names is a 32-bit word.  Texts are their UTF-8 bytes, with whole characters where the code looks at them.
  One field is history only and read by nothing: \<open>dropped\<close> of the TLS transport, the ciphertext it throws away.

  The theories, with the files they model and what they show.
  \<^item> \<open>Prelude\<close>: results, association lists, the characters of a text and white space, printing and parsing of
    numbers, the collections of lemmas.
  \<^item> \<open>Pg_Error\<close> (\<open>error/\<close>, \<open>reconnect/classify.rs\<close>): error values, SQLSTATE table, classification.
  \<^item> \<open>Retry\<close> (\<open>error/retry.rs\<close>, \<open>reconnect/retry.rs\<close>, \<open>reconnect/config.rs\<close>, \<open>reconnect/env.rs\<close>): the locale
    \<open>retry_loop\<close> shared by three loops; back-off without overflow; they end with the result of an attempt.
  \<^item> \<open>Transport\<close> (\<open>transport/mod.rs\<close>, \<open>transport/buffered.rs\<close>): the contract \<open>async_transport\<close> as a locale,
    the mock and the buffered transport as instances; buffering is invisible to reads and writes.
  \<^item> \<open>Wasi_Tcp\<close> (\<open>transport/tcp.rs\<close>): the WASI socket as an instance of the contract; it delivers all bytes
    before the terminal error.
  \<^item> \<open>Tls_Stream\<close> (\<open>transport/tls.rs\<close>): the driver around a TLS session over any transport of the contract:
    exact reads return, and deliver the plaintext unless ciphertext was thrown away; \<open>write_all\<close> returns exactly
    when the session has room.
  \<^item> \<open>Tls_Verify\<close> (\<open>transport/tls.rs\<close>): the TLS configuration, the roots, the certificate verifiers and the
    handshake a negotiation runs; a verifying mode authenticates the server.
  \<^item> \<open>Client_Transport\<close> (\<open>transport/native.rs\<close>, \<open>transport/tokio_tcp.rs\<close>, \<open>ClientTransport\<close>): the sockets as
    instances of the contract; reads through the buffer are the stream on every platform.
  \<^item> \<open>Protocol\<close> (\<open>protocol/\<close>, codec of \<open>auth/mod.rs\<close>): messages, encoding, the read buffer; reading does not
    depend on how the stream is cut, and the buffer is bounded.
  \<^item> \<open>Statement_Cache\<close> (\<open>query/cache.rs\<close>): refinement of a least-recently-used list.
  \<^item> \<open>Config\<close> (\<open>config.rs\<close>): key-value strings, URIs, environment; printed settings read back.
  \<^item> \<open>Auth\<close> (\<open>auth/\<close>, negotiation of \<open>transport/tls.rs\<close>): no downgrade, no password on an insecure channel,
    the server is verified.
  \<^item> \<open>Sql_Text\<close> (\<open>connection.rs\<close>, \<open>transaction/options.rs\<close>, \<open>copy/mod.rs\<close>): quoting and CSV cannot be broken out of.
  \<^item> \<open>Connection\<close> (\<open>connection.rs\<close>, \<open>reconnect/session.rs\<close>): the record, transitions, asynchronous messages,
    resynchronisation, and the relation \<open>lossless\<close>.
  \<^item> \<open>Query\<close> (\<open>query/mod.rs\<close>, \<open>query/stream.rs\<close>, \<open>query/row.rs\<close>, \<open>query/result.rs\<close>): row streams and simple
    queries; the caller gets exactly the server's reply; abandoned streams are recovered.
  \<^item> \<open>Extended_Query\<close> (\<open>query/prepared.rs\<close>, \<open>query/params.rs\<close>): one loop \<open>sync_loop\<close> with a handler per
    operation, its contract in the locales \<open>synced\<close> and \<open>quiet_handler\<close>.
  \<^item> \<open>Pipeline\<close>, \<open>Cursor\<close>, \<open>Copy\<close>: further clients of that loop: results in order, all rows of all batches,
    data delivered whatever the chunking, the binary COPY writer.
  \<^item> \<open>Type_Codec\<close> (\<open>types/\<close>): decoding inverts encoding in both formats.
  \<^item> \<open>Extern_Types\<close> (\<open>types/\<close>): object ids, \<open>accepts\<close>, floats, UUIDs, JSON, timestamps: round trips and widths.
  \<^item> \<open>Transaction\<close>, \<open>Guards\<close> (\<open>transaction/\<close>): all or nothing towards the server; balanced savepoints.
  \<^item> \<open>Notification\<close> (\<open>notification.rs\<close>): each notification delivered once and in order.
  \<^item> \<open>Resilience\<close> (\<open>connection.rs\<close>, \<open>cancel.rs\<close>): reconnection rebuilds the session, retries are bounded and
    safe, cancel requests.
  \<^item> \<open>Pool\<close> (\<open>pool/\<close>): the interleaved tasks; counters, capacity with its exact excess, what is handed out,
    closing, and that an undisturbed acquisition returns, at the latest after its deadline.
  \<^item> \<open>Establish\<close> (\<open>connection.rs\<close>, \<open>cancel.rs\<close>, \<open>pool/core.rs\<close>): from a configuration or a connection string to
    an idle connection, on every target and with retries; what a connection and a cancel request may be
    trusted with, composed from the sockets, the TLS driver, the verifiers and the authentication.
  \<^item> \<open>Wire\<close> (\<open>transport/tls.rs\<close>, \<open>auth/mod.rs\<close>): \<open>PgTransport\<close> and the codec on it.  The locale \<open>byte_source\<close> says
    what reading messages needs of a transport, and counts what a source loses; every transport of the
    contract is one and loses nothing, also buffered, and so is TLS over it, which loses the ciphertext it drops.  As long as
    nothing is lost, the inbox of a connection is what its bytes encode, whatever the platform and the
    cuts, so a query on these bytes gives the rows they encode or an error and never a part of them;
    in the other direction, a flushed batch is exactly the encodings of its messages.
  \<^item> \<open>Handles\<close> (\<open>pool/guard.rs\<close>, builders, small operations of \<open>connection.rs\<close>, \<open>reconnect/session.rs\<close>): a
    built configuration printed as a connection string reads back unchanged and is what \<open>connect_str\<close> connects with; each use or end of a guard
    is one step of the pool, and a spent guard does nothing or panics; which settings have no effect.
  \<^item> \<open>Bodies\<close> (\<open>query/mod.rs\<close>, \<open>types/format.rs\<close>, \<open>transport/params.rs\<close>): rows and descriptions from message
    bodies, notices, \<open>query_each_async\<close>.
  \<^item> \<open>Calls\<close>: each call of the client, of every protocol, keeps \<open>lossless\<close>.
  \<^item> \<open>Tracing\<close> (\<open>tracing_ext.rs\<close>): texts are cut at character boundaries, passwords are redacted.

  Parameters.  \<open>postgres_protocol\<close> (parsing of message bodies, SCRAM, MD5, binary decoders), \<open>url\<close>,
  \<open>rustls\<close> and \<open>webpki\<close>, the X.509 parser, the digests, \<open>uuid\<close>, \<open>serde_json\<close>, \<open>chrono\<close>, the arithmetic of floats
  and what the operating system answers are not part of the repository; they are arguments of the
  definitions that use them, with what is relied on as hypotheses.

  Bounds.  The handshake loop has the 100 iterations of the source.  \<open>tls_read\<close> and the loop of
  \<open>tls_write_all\<close> may run for ever and are partial functions with value \<open>None\<close> then; that the first
  returns, and exactly when the second does, is proved.  \<open>codec_read\<close>, the loop that reads until a message
  is complete, is a partial function too, and returns on every source of bytes.  Iteration over the hash maps and sets of the
  tracked session state is over lists in an arbitrary order.

  Not modelled: the emission of log events; the runtimes behind sleeping and waiting (a timer that fires
  first, or a dial that never returns, is part of the environment); the signature checks of the
  verifiers, which are handed to \<open>rustls\<close>; accessors that only return a field, which are the selectors of
  the records; re-exports; fuzz targets and examples.
\<close>

text \<open>
  C4.  No notification is lost, whichever protocol is used: whatever the server sends, in whatever
  order, and whether a call succeeds, fails or has to wait, every message the call took from the wire
  that is a notification is in the queue, in the order of arrival, and everything else is still on the
  wire.  The calls are those of the simple protocol and its row streams, of the session, of prepared statements,
  parameters and pipelines, of cursors and their streams, of COPY in both directions with its iterators, of
  transaction guards and savepoints, and the drop of a stream, a cursor or a copy; as each call keeps the relation, so does every
  sequence of them.  Not among them are the calls that hand notifications out (waiting, C11, and
  \<open>drain_notifications\<close>) and the two paths that discard them: the blocking drain when a copy is dropped
  in the build with the native test transport, and the replacement of the connection by \<open>reconnect\<close>.
\<close>

theorem no_notification_lost:
  fixes f :: "row \<Rightarrow> 'u \<Rightarrow> (pg_error, unit) res \<times> 'u" and fa :: "row \<Rightarrow> 'v \<Rightarrow> (pg_error, unit) outcome \<times> 'v"
    and g :: "bytes \<Rightarrow> 'w \<Rightarrow> (pg_error, unit) res \<times> 'w" and h :: "string list \<Rightarrow> 'x \<Rightarrow> (pg_error, unit) res \<times> 'x"
  shows "list_all (\<lambda>call. \<exists>pre. inbox c = pre @ inbox (call c) \<and>
       notification_queue (call c) = notification_queue c @ notifs pre)
     ([snd \<circ> recover, snd \<circ> query sql, snd \<circ> query_one sql, snd \<circ> execute sql, snd \<circ> batch_execute sql,
       snd \<circ> query_stream sql, snd \<circ> snd \<circ> stream_next rs, (\<lambda>c. snd (snd (stream_collect rs c rows))), snd \<circ> stream_consume rs,
       drop_stream rs, fst \<circ> snd \<circ> query_each sql f u, fst \<circ> snd \<circ> query_each_async sql fa ua,
       snd \<circ> ping, snd \<circ> reset, snd \<circ> set_param k v, snd \<circ> listen ch, snd \<circ> unlisten ch, snd \<circ> unlisten_all, snd \<circ> notify ch v] @
      [snd \<circ> prepare known sql, snd \<circ> close_statement stmt, snd \<circ> query_params sql ps, snd \<circ> execute_params sql ps,
       snd \<circ> query_prepared stmt ps, snd \<circ> execute_prepared stmt ps, snd \<circ> query_params_stream sql ps,
       snd \<circ> query_prepared_stream stmt ps, snd \<circ> pipeline_finish ops] @
      [snd \<circ> query_cursor sql ps n, snd \<circ> snd \<circ> fetch_next cu, snd \<circ> close_cursor cu, snd \<circ> query_cursor_stream sql ps n,
       snd \<circ> snd \<circ> cursor_next cs, snd \<circ> snd \<circ> close_portal cs, snd \<circ> cursor_consume cs, drop_cursor_stream cs] @
      [snd \<circ> copy_in sql, snd \<circ> copy_out sql, snd \<circ> copy_write d, snd \<circ> copy_write_row cols, snd \<circ> write_csv_row cols dl q,
       snd \<circ> write_csv_row_with_null vals dl q null, snd \<circ> copy_finish no_sync_io cp, snd \<circ> copy_cancel no_sync_io reason cp,
       snd \<circ> snd \<circ> copy_read_next cp, snd \<circ> snd \<circ> copy_read_all cp, (\<lambda>c. fst (snd (snd (copy_for_each g cp c w)))),
       (\<lambda>c. fst (snd (snd (for_each_row lossy h cp c x)))), (\<lambda>c. fst (snd (snd (for_each_csv_row lossy dl q h cp c x)))),
       drop_copy_in no_sync_io cp, drop_copy_out no_sync_io cp] @
      [snd \<circ> transaction, snd \<circ> transaction_with opts, snd \<circ> snd \<circ> commit t, snd \<circ> snd \<circ> rollback t,
       snd \<circ> snd \<circ> txn_query sql t, snd \<circ> snd \<circ> txn_execute sql t, snd \<circ> snd \<circ> txn_query_one sql t,
       snd \<circ> snd \<circ> txn_query_params sql ps t, snd \<circ> snd \<circ> txn_execute_params sql ps t, snd \<circ> snd \<circ> txn_prepare known sql t,
       snd \<circ> snd \<circ> txn_copy_in sql t, snd \<circ> snd \<circ> txn_copy_out sql t, drop_transaction t,
       snd \<circ> snd \<circ> savepoint nm t, snd \<circ> snd \<circ> release sp t, snd \<circ> snd \<circ> rollback_to sp t,
       snd \<circ> with_transaction (execute_all sqls)])"
  unfolding lossless_def [symmetric]
  by (simp add: recover_lossless stream_calls_lossless session_lossless extended_calls_lossless cursor_calls_lossless
      copy_calls_lossless guard_calls_lossless drop_transaction_def)

end
